(* ===== verification/Hega_Prelude.thy ===== *)
theory Hega_Prelude
  imports Main "HOL-Library.Word"
begin

text \<open>
  The prelude of the development: the error values every component raises, the sequencing
  of fallible calls, loops that may raise, the C locale's character classes, decimal
  printing (\<open>std::to_string\<close>), the substring searches on qualified column names, and the
  integer ranges of the C++ types.  Nothing here is about one component; every other theory
  imports it.

  A C++ exception is a value \<open>Inl e\<close>.  \<open>UndefinedBehaviour\<close> is what the model answers
  where the C++ standard gives no meaning to the execution (signed overflow, an index out of
  range), and \<open>LengthError\<close> is \<open>std::length_error\<close>.
\<close>

section \<open>Definitions\<close>

subsection \<open>Errors and sequencing\<close>

datatype err =
    ParseError string
  | SemanticError string
  | ValidationError string
  | RuntimeError string
  | LengthError
  | UndefinedBehaviour string

type_synonym 'a result = "err + 'a"

definition bindE :: "('e + 'a) \<Rightarrow> ('a \<Rightarrow> 'e + 'b) \<Rightarrow> 'e + 'b" where
  "bindE m f = (case m of Inl e \<Rightarrow> Inl e | Inr x \<Rightarrow> f x)"

definition throwIf :: "bool \<Rightarrow> 'e \<Rightarrow> 'e + unit" where
  "throwIf b e = (if b then Inl e else Inr ())"

definition isOk :: "('e + 'a) \<Rightarrow> bool" where
  "isOk m = (case m of Inl _ \<Rightarrow> False | Inr _ \<Rightarrow> True)"

text \<open>A \<open>for\<close> loop whose body may throw, run for its effect (\<open>forE\<close>), collecting one value
  per element (\<open>mapE\<close>), or threading an accumulator (\<open>foldE\<close>).\<close>

fun forE :: "('a \<Rightarrow> 'e + unit) \<Rightarrow> 'a list \<Rightarrow> 'e + unit" where
  "forE f [] = Inr ()"
| "forE f (x # xs) = bindE (f x) (\<lambda>_. forE f xs)"

fun mapE :: "('a \<Rightarrow> 'e + 'b) \<Rightarrow> 'a list \<Rightarrow> 'e + 'b list" where
  "mapE f [] = Inr []"
| "mapE f (x # xs) = bindE (f x) (\<lambda>y. bindE (mapE f xs) (\<lambda>ys. Inr (y # ys)))"

fun foldE :: "('a \<Rightarrow> 's \<Rightarrow> 'e + 's) \<Rightarrow> 'a list \<Rightarrow> 's \<Rightarrow> 'e + 's" where
  "foldE f [] s = Inr s"
| "foldE f (x # xs) s = bindE (f x s) (foldE f xs)"

subsection \<open>Integer ranges\<close>

type_synonym byte = "8 word"
type_synonym u32 = "32 word"
type_synonym u64 = "64 word"

definition INT64_MAX :: int where
  "INT64_MAX = 9223372036854775807"

definition UINT32_MAX :: u32 where
  "UINT32_MAX = 4294967295"

subsection \<open>Characters (\<open><cctype>\<close>, C locale) and decimal printing\<close>

definition code :: "char \<Rightarrow> nat" where
  "code c = of_char c"

definition isspace :: "char \<Rightarrow> bool" where
  "isspace c \<longleftrightarrow> (9 \<le> code c \<and> code c \<le> 13) \<or> code c = 32"

definition isdigit :: "char \<Rightarrow> bool" where
  "isdigit c \<longleftrightarrow> 48 \<le> code c \<and> code c \<le> 57"

definition isalpha :: "char \<Rightarrow> bool" where
  "isalpha c \<longleftrightarrow> (65 \<le> code c \<and> code c \<le> 90) \<or> (97 \<le> code c \<and> code c \<le> 122)"

definition isalnum :: "char \<Rightarrow> bool" where
  "isalnum c \<longleftrightarrow> isalpha c \<or> isdigit c"

definition toupper :: "char \<Rightarrow> char" where
  "toupper c = (if 97 \<le> code c \<and> code c \<le> 122 then char_of (code c - 32) else c)"

text \<open>The single quote, code 39.\<close>

definition quote :: char where
  "quote = CHR 0x27"

fun show_nat :: "nat \<Rightarrow> string" where
  "show_nat n = (if n < 10 then [char_of (48 + n)]
                 else show_nat (n div 10) @ [char_of (48 + n mod 10)])"

definition show_int :: "int \<Rightarrow> string" where
  "show_int i = (if i < 0 then CHR ''-'' # show_nat (nat (- i)) else show_nat (nat i))"

declare show_nat.simps [simp del]

subsection \<open>Qualified names\<close>

fun find_char :: "char \<Rightarrow> string \<Rightarrow> nat option" where
  "find_char c [] = None"
| "find_char c (x # xs) = (if x = c then Some 0 else map_option Suc (find_char c xs))"

text \<open>\<open>name.substr(0, dot)\<close>, or the given default when there is no dot, and
  \<open>name.substr(dot + 1)\<close>, or the whole name.\<close>

definition qualifier :: "string \<Rightarrow> string \<Rightarrow> string" where
  "qualifier dflt s = (case find_char CHR ''.'' s of None \<Rightarrow> dflt | Some d \<Rightarrow> take d s)"

definition bareName :: "string \<Rightarrow> string" where
  "bareName s = (case find_char CHR ''.'' s of None \<Rightarrow> s | Some d \<Rightarrow> drop (d + 1) s)"

definition hasDot :: "string \<Rightarrow> bool" where
  "hasDot s = (find_char CHR ''.'' s \<noteq> None)"

text \<open>\<open>s.compare(0, p.size(), p) == 0\<close>.\<close>

definition startsWith :: "string \<Rightarrow> string \<Rightarrow> bool" where
  "startsWith s p = (take (length p) s = p)"

text \<open>\<open>if (std::find(v.begin(), v.end(), x) == v.end()) v.push_back(x)\<close>.\<close>

definition push_new :: "'a \<Rightarrow> 'a list \<Rightarrow> 'a list" where
  "push_new x xs = (if x \<in> set xs then xs else xs @ [x])"

section \<open>Lemmas\<close>

named_theorems ok_simps \<open>inversion of results\<close>

lemma bindE_Inl [simp]: "bindE (Inl e) f = Inl e"
  by (simp add: bindE_def)

lemma bindE_Inr [simp]: "bindE (Inr x) f = f x"
  by (simp add: bindE_def)

lemma bindE_cong [fundef_cong]:
  "m = m' \<Longrightarrow> (\<And>x. m' = Inr x \<Longrightarrow> f x = f' x) \<Longrightarrow> bindE m f = bindE m' f'"
  by (cases m') auto

lemma bindE_eq_Inr [ok_simps]: "bindE m f = Inr y \<longleftrightarrow> (\<exists>x. m = Inr x \<and> f x = Inr y)"
  by (cases m) auto

lemma bindE_eq_Inl: "bindE m f = Inl e \<longleftrightarrow> m = Inl e \<or> (\<exists>x. m = Inr x \<and> f x = Inl e)"
  by (cases m) auto

lemma bindE_assoc: "bindE (bindE m f) g = bindE m (\<lambda>x. bindE (f x) g)"
  by (cases m) auto

lemma throwIf_eq_Inr [simp]: "throwIf b e = Inr u \<longleftrightarrow> \<not> b"
  by (simp add: throwIf_def)

lemma throwIf_eq_Inl [simp]: "throwIf b e = Inl e' \<longleftrightarrow> b \<and> e = e'"
  by (simp add: throwIf_def)

lemma throwIf_simps [simp]: "throwIf True e = Inl e" "throwIf False e = Inr ()"
  by (simp_all add: throwIf_def)

lemma isOk_simps [simp]: "isOk (Inr x)" "\<not> isOk (Inl e)"
  by (simp_all add: isOk_def)

lemma isOk_iff: "isOk m \<longleftrightarrow> (\<exists>x. m = Inr x)"
  by (cases m) auto

lemma forE_eq_Inr [ok_simps]: "forE f xs = Inr u \<longleftrightarrow> (\<forall>x\<in>set xs. f x = Inr ())"
  by (induction xs) (auto simp: bindE_eq_Inr)

lemma forE_Inl_from: "forE f xs = Inl e \<Longrightarrow> \<exists>x\<in>set xs. f x = Inl e"
  by (induction xs) (auto simp: bindE_eq_Inl)

lemma mapE_eq_Inr [ok_simps]:
  "mapE f xs = Inr ys \<longleftrightarrow> list_all2 (\<lambda>x y. f x = Inr y) xs ys"
  by (induction xs arbitrary: ys) (auto simp: bindE_eq_Inr list_all2_Cons1)

lemma mapE_total: "(\<And>x. x \<in> set xs \<Longrightarrow> f x = Inr (g x)) \<Longrightarrow> mapE f xs = Inr (map g xs)"
  by (induction xs) auto

lemma mapE_cong [fundef_cong]:
  "xs = ys \<Longrightarrow> (\<And>x. x \<in> set ys \<Longrightarrow> f x = g x) \<Longrightarrow> mapE f xs = mapE g ys"
  by (induction xs arbitrary: ys) (auto intro!: bindE_cong)

lemma foldE_append: "foldE f (xs @ ys) s = bindE (foldE f xs s) (foldE f ys)"
proof (induction xs arbitrary: s)
  case (Cons x xs)
  then show ?case by (cases "f x s") auto
qed simp

text \<open>An invariant of a throwing fold that grows a measure by a constant per element.\<close>

lemma foldE_grows:
  assumes step: "\<And>x s s'. x \<in> set xs \<Longrightarrow> I s \<Longrightarrow> f x s = Inr s' \<Longrightarrow> I s' \<and> m s' = m s + (k :: nat)"
    and "I s" "foldE f xs s = Inr s'"
  shows "I s' \<and> m s' = m s + k * length xs"
  using assms
proof (induction xs arbitrary: s)
  case (Cons x xs)
  from Cons.prems(3) obtain t where t: "f x s = Inr t" "foldE f xs t = Inr s'"
    by (auto simp: bindE_eq_Inr)
  from Cons.prems(1) [OF _ Cons.prems(2) t(1)] have i: "I t" "m t = m s + k" by simp_all
  have "I s' \<and> m s' = m t + k * length xs" 
    by (rule Cons.IH [OF _ i(1) t(2)]) (rule Cons.prems(1), simp_all)
  with i show ?case by simp
qed simp

lemma show_nat_digits: "c \<in> set (show_nat n) \<Longrightarrow> isdigit c"
proof (induction n rule: show_nat.induct)
  case (1 n)
  have "isdigit (char_of (48 + k))" if "k < 10" for k :: nat
    using that by (simp add: isdigit_def code_def)
  with 1 show ?case
    by (subst (asm) (2) show_nat.simps) (auto split: if_splits)
qed

lemma show_nat_nonempty [simp]: "show_nat n \<noteq> []"
  by (subst show_nat.simps) simp

lemma find_char_None [simp]: "find_char c s = None \<longleftrightarrow> c \<notin> set s"
  by (induction s) auto

lemma find_char_Some: "find_char c s = Some d \<longleftrightarrow> (\<exists>t. s = take d s @ c # t \<and> d < length s \<and> c \<notin> set (take d s))"
proof (induction s arbitrary: d)
  case (Cons x xs)
  then show ?case by (cases d) auto
qed simp

lemma find_char_append: "c \<notin> set p \<Longrightarrow> find_char c (p @ c # q) = Some (length p)"
  by (induction p) auto

lemma hasDot_iff: "hasDot s \<longleftrightarrow> CHR ''.'' \<in> set s"
  by (simp add: hasDot_def)

lemma bareName_undotted [simp]: "\<not> hasDot s \<Longrightarrow> bareName s = s"
  by (simp add: bareName_def hasDot_def del: find_char_None)

lemma qualifier_undotted [simp]: "\<not> hasDot s \<Longrightarrow> qualifier d s = d"
  by (simp add: qualifier_def hasDot_def del: find_char_None)

lemma qualified_parts:
  assumes "CHR ''.'' \<notin> set a"
  shows "qualifier d (a @ CHR ''.'' # b) = a" "bareName (a @ CHR ''.'' # b) = b"
  using find_char_append [OF assms, of b] by (simp_all add: qualifier_def bareName_def)

lemma set_push_new [simp]: "set (push_new x xs) = insert x (set xs)"
  by (auto simp: push_new_def)

lemma distinct_push_new [simp]: "distinct (push_new x xs) = distinct xs"
  by (simp add: push_new_def)

end
