(* ===== verification/Hega_Ast.thy ===== *)
theory Hega_Ast
  imports Hega_Prelude
begin

text \<open>
  The abstract syntax of \<open>include/proto2/ast.h\<close> and its printer \<open>ast/ast.cpp\<close>.  A node of
  the C++ \<open>ASTExpr\<close> is a kind with the fields that kind uses; every node is made by one of
  its factories, so children are never null where the kind has them.  \<open>intValue\<close> is an
  \<open>int64_t\<close>: it is an \<open>int\<close> here, and the parser is shown to stay in range.
\<close>

section \<open>Definitions\<close>

datatype CmpKind = Equal | NotEqual | GreaterThan | LessThan | GreaterEqual | LessEqual

datatype ASTExpr =
    ColumnRef string
  | IntLiteral int
  | StringLiteral string
  | Comparison CmpKind ASTExpr ASTExpr
  | And ASTExpr ASTExpr
  | Or ASTExpr ASTExpr
  | NotExpr ASTExpr

datatype SortDirection = Ascending | Descending

record OrderByColumn =
  ob_columnName :: string
  ob_direction :: SortDirection

record TableRef =
  tr_tableName :: string
  tr_alias :: string

record JoinClause =
  jc_rightTable :: TableRef
  jc_condition :: ASTExpr

record SelectStatement =
  st_projections :: "string list"
  st_tableName :: string
  st_tableAlias :: string
  st_joins :: "JoinClause list"
  st_whereClause :: "ASTExpr option"
  st_orderByColumns :: "OrderByColumn list"
  st_limitCount :: int

fun opStr :: "CmpKind \<Rightarrow> string" where
  "opStr Equal = '' = ''"
| "opStr NotEqual = '' != ''"
| "opStr GreaterThan = '' > ''"
| "opStr LessThan = '' < ''"
| "opStr GreaterEqual = '' >= ''"
| "opStr LessEqual = '' <= ''"

fun exprToSQL :: "ASTExpr \<Rightarrow> string" where
  "exprToSQL (ColumnRef n) = n"
| "exprToSQL (IntLiteral i) = show_int i"
| "exprToSQL (StringLiteral s) = [quote] @ s @ [quote]"
| "exprToSQL (NotExpr e) = ''NOT('' @ exprToSQL e @ '')''"
| "exprToSQL (Comparison k l r) = exprToSQL l @ opStr k @ exprToSQL r"
| "exprToSQL (And l r) = ''('' @ exprToSQL l @ '' AND '' @ exprToSQL r @ '')''"
| "exprToSQL (Or l r) = ''('' @ exprToSQL l @ '' OR '' @ exprToSQL r @ '')''"

text \<open>The loops \<open>if (i) s += ", "; s += \<dots>\<close>.\<close>

fun commaSep :: "string list \<Rightarrow> string" where
  "commaSep [] = []"
| "commaSep [x] = x"
| "commaSep (x # y # xs) = x @ '', '' @ commaSep (y # xs)"

definition joinToSQL :: "JoinClause \<Rightarrow> string" where
  "joinToSQL j = '' JOIN '' @ tr_tableName (jc_rightTable j)
     @ (if tr_alias (jc_rightTable j) \<noteq> tr_tableName (jc_rightTable j)
        then '' AS '' @ tr_alias (jc_rightTable j) else [])
     @ '' ON '' @ exprToSQL (jc_condition j)"

definition orderToSQL :: "OrderByColumn \<Rightarrow> string" where
  "orderToSQL c = ob_columnName c @ (if ob_direction c = Descending then '' DESC'' else [])"

definition stmtToSQL :: "SelectStatement \<Rightarrow> string" where
  "stmtToSQL s = ''SELECT ''
     @ (if st_projections s = [] then ''*'' else commaSep (st_projections s))
     @ '' FROM '' @ st_tableName s
     @ (if st_tableAlias s \<noteq> [] \<and> st_tableAlias s \<noteq> st_tableName s
        then '' AS '' @ st_tableAlias s else [])
     @ concat (map joinToSQL (st_joins s))
     @ (case st_whereClause s of None \<Rightarrow> [] | Some e \<Rightarrow> '' WHERE '' @ exprToSQL e)
     @ (if st_orderByColumns s = [] then []
        else '' ORDER BY '' @ commaSep (map orderToSQL (st_orderByColumns s)))
     @ (if 0 \<le> st_limitCount s then '' LIMIT '' @ show_int (st_limitCount s) else [])"

end
