(* ===== verification/Hega_Catalog.thy ===== *)
theory Hega_Catalog
  imports Hega_Prelude
begin

text \<open>
  The schema catalog (\<open>include/proto2/catalog.h\<close>, \<open>catalog/catalog.cpp\<close>): column and table
  schemas, the catalog as a map from table ids with a version number, and the catalog that
  client and server build.  What the other components rely on (a lookup after a
  registration) is the locale \<open>schema_store\<close>, interpreted on the catalog itself.
\<close>

section \<open>Definitions\<close>

datatype DataType = INT64 | BOOL | STRING

fun dataTypeName :: "DataType \<Rightarrow> string" where
  "dataTypeName INT64 = ''INT64''"
| "dataTypeName BOOL = ''BOOL''"
| "dataTypeName STRING = ''STRING''"

record ColumnSchema =
  cs_name :: string
  cs_type :: DataType
  cs_maxLength :: nat

record TableSchema =
  ts_tableId :: string
  ts_columns :: "ColumnSchema list"

text \<open>The two lookup errors.\<close>

definition columnNotFound :: "string \<Rightarrow> err" where
  "columnNotFound name = RuntimeError (''Column not found: '' @ name)"

definition tableNotFound :: "string \<Rightarrow> err" where
  "tableNotFound i = RuntimeError (''Table not found: '' @ i)"

definition hasColumn :: "TableSchema \<Rightarrow> string \<Rightarrow> bool" where
  "hasColumn t name \<longleftrightarrow> list_ex (\<lambda>c. cs_name c = name) (ts_columns t)"

definition column :: "TableSchema \<Rightarrow> string \<Rightarrow> ColumnSchema result" where
  "column t name = (case find (\<lambda>c. cs_name c = name) (ts_columns t) of
                      Some c \<Rightarrow> Inr c
                    | None \<Rightarrow> Inl (columnNotFound name))"

record Catalog =
  cat_tables :: "string \<rightharpoonup> TableSchema"
  cat_version :: u32

definition emptyCatalog :: Catalog where
  "emptyCatalog = \<lparr>cat_tables = Map.empty, cat_version = 1\<rparr>"

definition registerTable :: "TableSchema \<Rightarrow> Catalog \<Rightarrow> Catalog" where
  "registerTable t cat = cat\<lparr>cat_tables := (cat_tables cat)(ts_tableId t \<mapsto> t)\<rparr>"

definition hasTable :: "Catalog \<Rightarrow> string \<Rightarrow> bool" where
  "hasTable cat i \<longleftrightarrow> cat_tables cat i \<noteq> None"

definition getTable :: "Catalog \<Rightarrow> string \<Rightarrow> TableSchema result" where
  "getTable cat i = (case cat_tables cat i of
                       Some t \<Rightarrow> Inr t
                     | None \<Rightarrow> Inl (tableNotFound i))"

definition catalogHasColumn :: "Catalog \<Rightarrow> string \<Rightarrow> string \<Rightarrow> bool" where
  "catalogHasColumn cat i c \<longleftrightarrow>
     hasTable cat i \<and> (case getTable cat i of Inr t \<Rightarrow> hasColumn t c | Inl _ \<Rightarrow> False)"

text \<open>\<open>++version_\<close> on \<open>uint32_t\<close>.\<close>

definition bumpVersion :: "Catalog \<Rightarrow> Catalog" where
  "bumpVersion cat = cat\<lparr>cat_version := cat_version cat + 1\<rparr>"

definition employeesSchema :: TableSchema where
  "employeesSchema = \<lparr>ts_tableId = ''employees'', ts_columns =
     [\<lparr>cs_name = ''id'', cs_type = INT64, cs_maxLength = 0\<rparr>,
      \<lparr>cs_name = ''age'', cs_type = INT64, cs_maxLength = 0\<rparr>,
      \<lparr>cs_name = ''salary'', cs_type = INT64, cs_maxLength = 0\<rparr>,
      \<lparr>cs_name = ''department_id'', cs_type = INT64, cs_maxLength = 0\<rparr>,
      \<lparr>cs_name = ''name'', cs_type = STRING, cs_maxLength = 16\<rparr>]\<rparr>"

definition departmentsSchema :: TableSchema where
  "departmentsSchema = \<lparr>ts_tableId = ''departments'', ts_columns =
     [\<lparr>cs_name = ''id'', cs_type = INT64, cs_maxLength = 0\<rparr>,
      \<lparr>cs_name = ''department_name'', cs_type = STRING, cs_maxLength = 16\<rparr>]\<rparr>"

definition makeEmployeesCatalog :: Catalog where
  "makeEmployeesCatalog =
     registerTable departmentsSchema (registerTable employeesSchema emptyCatalog)"

section \<open>Lookups in a table\<close>

lemma hasColumn_iff: "hasColumn t n \<longleftrightarrow> (\<exists>c\<in>set (ts_columns t). cs_name c = n)"
  by (simp add: hasColumn_def list_ex_iff)

lemma column_Inr:
  "column t n = Inr c \<Longrightarrow> c \<in> set (ts_columns t) \<and> cs_name c = n"
  by (auto simp: column_def find_Some_iff split: option.splits)

lemma hasColumn_column: "hasColumn t n \<longleftrightarrow> (\<exists>c. column t n = Inr c)"
proof
  assume "hasColumn t n"
  then have "find (\<lambda>c. cs_name c = n) (ts_columns t) \<noteq> None"
    by (auto simp: hasColumn_iff find_None_iff)
  then show "\<exists>c. column t n = Inr c" by (auto simp: column_def)
next
  assume "\<exists>c. column t n = Inr c"
  then show "hasColumn t n" using column_Inr by (auto simp: hasColumn_iff)
qed

lemma column_total [elim?]:
  assumes "hasColumn t n"
  obtains c where "column t n = Inr c"
  using assms by (auto simp: hasColumn_column)

lemma column_missing: "\<not> hasColumn t n \<Longrightarrow> column t n = Inl (columnNotFound n)"
  by (cases "find (\<lambda>c. cs_name c = n) (ts_columns t)") (auto simp: hasColumn_column column_def)

lemma column_not_semantic: "column t n = Inl e \<Longrightarrow> e = columnNotFound n"
  by (auto simp: column_def split: option.splits)

lemma hasTable_get: "hasTable cat i \<longleftrightarrow> (\<exists>t. getTable cat i = Inr t)"
  by (auto simp: hasTable_def getTable_def split: option.splits)

lemma getTable_Inr [simp]: "getTable cat i = Inr t \<longleftrightarrow> cat_tables cat i = Some t"
  by (auto simp: getTable_def split: option.splits)

lemma getTable_Inl [simp]:
  "getTable cat i = Inl e \<longleftrightarrow> cat_tables cat i = None \<and> e = tableNotFound i"
  by (auto simp: getTable_def split: option.splits)

section \<open>The contract of the store\<close>

text \<open>What a client of a schema store relies on: a table registered last is the one found
  under its id, a registration leaves the other ids alone, and a lookup succeeds exactly on
  the ids that are present.\<close>

locale schema_store =
  fixes reg :: "TableSchema \<Rightarrow> 'c \<Rightarrow> 'c"
    and has :: "'c \<Rightarrow> string \<Rightarrow> bool"
    and get :: "'c \<Rightarrow> string \<Rightarrow> TableSchema result"
  assumes get_same: "get (reg t c) (ts_tableId t) = Inr t"
    and get_other: "i \<noteq> ts_tableId t \<Longrightarrow> get (reg t c) i = get c i"
    and has_get: "has c i \<longleftrightarrow> isOk (get c i)"
begin

lemma get_all:
  "distinct (map ts_tableId ts) \<Longrightarrow> t \<in> set ts \<Longrightarrow> get (fold reg ts c) (ts_tableId t) = Inr t"
proof (induction ts rule: rev_induct)
  case (snoc s ts)
  show ?case
  proof (cases "t = s")
    case False
    with snoc.prems have "t \<in> set ts" by simp
    moreover from this snoc.prems have "ts_tableId t \<noteq> ts_tableId s" by (auto simp: rev_image_eqI)
    ultimately show ?thesis using snoc by (simp add: get_other)
  qed (simp add: get_same)
qed simp

lemma get_none_registered: "i \<notin> ts_tableId ` set ts \<Longrightarrow> get (fold reg ts c) i = get c i"
  by (induction ts rule: rev_induct) (auto simp: get_other)

lemma has_after: "has (fold reg ts c) i \<longleftrightarrow> i \<in> ts_tableId ` set ts \<or> has c i"
proof (induction ts rule: rev_induct)
  case (snoc t ts)
  then show ?case
    by (cases "i = ts_tableId t") (auto simp: get_same get_other has_get)
qed simp

end

interpretation catalog: schema_store registerTable hasTable getTable
  by unfold_locales (auto simp: registerTable_def hasTable_def getTable_def split: option.splits)

text \<open>A schema whose column names are distinct: a lookup finds each column.\<close>

definition wfSchema :: "TableSchema \<Rightarrow> bool" where
  "wfSchema t \<longleftrightarrow> distinct (map cs_name (ts_columns t)) \<and> list_all (\<lambda>c. \<not> hasDot (cs_name c)) (ts_columns t)"

definition wfCatalog :: "Catalog \<Rightarrow> bool" where
  "wfCatalog cat \<longleftrightarrow> (\<forall>i t. cat_tables cat i = Some t \<longrightarrow> ts_tableId t = i \<and> wfSchema t)"

lemma column_of_member:
  assumes "wfSchema t" "c \<in> set (ts_columns t)"
  shows "column t (cs_name c) = Inr c"
proof -
  obtain d where d: "column t (cs_name c) = Inr d"
    using assms(2) by (metis hasColumn_column hasColumn_iff)
  with assms have "d = c"
    using column_Inr [OF d] by (auto simp: wfSchema_def distinct_map dest: inj_onD)
  with d show ?thesis by simp
qed

lemma registerTable_wf: "wfCatalog cat \<Longrightarrow> wfSchema t \<Longrightarrow> wfCatalog (registerTable t cat)"
  by (auto simp: wfCatalog_def registerTable_def)

lemma makeEmployeesCatalog_wf: "wfCatalog makeEmployeesCatalog"
proof -
  have "wfSchema employeesSchema" "wfSchema departmentsSchema"
    by (simp_all add: wfSchema_def employeesSchema_def departmentsSchema_def hasDot_iff)
  then show ?thesis
    unfolding makeEmployeesCatalog_def
    by (intro registerTable_wf) (simp_all add: wfCatalog_def emptyCatalog_def)
qed

section \<open>Properties\<close>

text \<open>The catalog both sides build holds the two tables and no
  other, each under its own id with distinct, undotted column names.\<close>

lemma makeEmployeesCatalog_tables:
  "wfCatalog makeEmployeesCatalog
   \<and> (\<forall>i. getTable makeEmployeesCatalog i =
        (if i = ''employees'' then Inr employeesSchema
         else if i = ''departments'' then Inr departmentsSchema
         else Inl (tableNotFound i)))"
proof -
  let ?ts = "[employeesSchema, departmentsSchema]"
  have m: "makeEmployeesCatalog = fold registerTable ?ts emptyCatalog"
    by (simp add: makeEmployeesCatalog_def)
  have i: "ts_tableId employeesSchema = ''employees''" "ts_tableId departmentsSchema = ''departments''"
    by (simp_all add: employeesSchema_def departmentsSchema_def)
  note makeEmployeesCatalog_wf
  moreover have "getTable makeEmployeesCatalog ''employees'' = Inr employeesSchema"
    "getTable makeEmployeesCatalog ''departments'' = Inr departmentsSchema"
    using catalog.get_all [of ?ts] i unfolding m by fastforce+
  moreover have "getTable makeEmployeesCatalog j = Inl (tableNotFound j)"
    if "j \<noteq> ''employees''" "j \<noteq> ''departments''" for j
    using catalog.get_none_registered [of j ?ts emptyCatalog] i that unfolding m
    by (simp add: emptyCatalog_def)
  ultimately show ?thesis by simp
qed

end
