(* ===== verification/Hega_Semantic.thy ===== *)
theory Hega_Semantic
  imports Hega_Ast Hega_Catalog "HOL-Library.AList"
begin

text \<open>
  The semantic analyzer (\<open>semantic/semantic.cpp\<close>).  \<open>analyze\<close> builds the scopes (alias to
  schema; a later alias replaces an earlier one), resolves the projections, checks the WHERE
  clause with \<open>validateExpr\<close> and \<open>validateComparison\<close> (which resolve columns in their own
  way), the join conditions, the ORDER BY columns and the limit.  The specification
  \<open>statementOk\<close> says in one formula what is accepted; \<open>analyze_iff\<close> proves that \<open>analyze\<close>
  accepts exactly that.
\<close>

section \<open>Definitions\<close>

definition semErr :: "string \<Rightarrow> string \<Rightarrow> string \<Rightarrow> err" where
  "semErr a name b = SemanticError (a @ [quote] @ name @ [quote] @ b)"

text \<open>\<open>scopes\<close>, an \<open>unordered_map\<close> from aliases: an association list with distinct keys.\<close>

definition joinScopes ::
  "Catalog \<Rightarrow> JoinClause list \<Rightarrow> (string \<times> TableSchema) list \<Rightarrow> (string \<times> TableSchema) list result" where
  "joinScopes cat = foldE (\<lambda>j scopes.
     bindE (throwIf (\<not> hasTable cat (tr_tableName (jc_rightTable j)))
              (semErr ''Unknown table '' (tr_tableName (jc_rightTable j)) [])) (\<lambda>_.
     bindE (getTable cat (tr_tableName (jc_rightTable j))) (\<lambda>t.
       Inr (AList.update (tr_alias (jc_rightTable j)) t scopes))))"

text \<open>The lambda \<open>resolve\<close> of \<open>analyze\<close>.\<close>

definition resolve :: "(string \<times> TableSchema) list \<Rightarrow> string \<Rightarrow> ColumnSchema result" where
  "resolve scopes ref =
     (case find_char CHR ''.'' ref of
        Some dot \<Rightarrow>
          (case map_of scopes (take dot ref) of
             None \<Rightarrow> Inl (semErr ''Unknown qualified column '' ref [])
           | Some t \<Rightarrow> if \<not> hasColumn t (drop (dot + 1) ref)
                       then Inl (semErr ''Unknown qualified column '' ref [])
                       else column t (drop (dot + 1) ref))
      | None \<Rightarrow>
          bindE (foldE (\<lambda>(alias, candidate) found.
                   if hasColumn candidate ref
                   then bindE (throwIf (found \<noteq> None) (semErr ''Ambiguous column '' ref []))
                          (\<lambda>_. bindE (column candidate ref) (\<lambda>c. Inr (Some c)))
                   else Inr found) scopes None)
            (\<lambda>found. case found of None \<Rightarrow> Inl (semErr ''Unknown column '' ref [])
                                 | Some c \<Rightarrow> Inr c))"

text \<open>The lambda \<open>resolve\<close> of \<open>validateComparison\<close>: the FROM table by its alias, then the first
  join with that alias; an unqualified name belongs to the FROM table.\<close>

definition resolveWhere :: "Catalog \<Rightarrow> SelectStatement \<Rightarrow> string \<Rightarrow> ColumnSchema result" where
  "resolveWhere cat s ref =
     (case find_char CHR ''.'' ref of
        Some dot \<Rightarrow>
          (let a = take dot ref; name = drop (dot + 1) ref in
           if a = st_tableAlias s \<or> (st_tableAlias s = [] \<and> a = st_tableName s)
           then bindE (getTable cat (st_tableName s)) (\<lambda>t. column t name)
           else (case find (\<lambda>j. a = tr_alias (jc_rightTable j)) (st_joins s) of
                   Some j \<Rightarrow> bindE (getTable cat (tr_tableName (jc_rightTable j))) (\<lambda>t. column t name)
                 | None \<Rightarrow> Inl (semErr ''Unknown qualified column '' ref [])))
      | None \<Rightarrow>
          bindE (getTable cat (st_tableName s)) (\<lambda>t.
          bindE (throwIf (\<not> hasColumn t ref) (semErr ''Unknown column '' ref [])) (\<lambda>_.
            column t ref)))"

fun isColumn :: "ASTExpr \<Rightarrow> bool" where
  "isColumn (ColumnRef n) = True" | "isColumn _ = False"

fun isInt :: "ASTExpr \<Rightarrow> bool" where
  "isInt (IntLiteral i) = True" | "isInt _ = False"

fun isString :: "ASTExpr \<Rightarrow> bool" where
  "isString (StringLiteral s) = True" | "isString _ = False"

text \<open>The fields \<open>columnName\<close> and \<open>stringValue\<close>; empty for the other kinds.\<close>

fun columnNameOf :: "ASTExpr \<Rightarrow> string" where
  "columnNameOf (ColumnRef n) = n" | "columnNameOf _ = []"

fun stringValueOf :: "ASTExpr \<Rightarrow> string" where
  "stringValueOf (StringLiteral s) = s" | "stringValueOf _ = []"

definition isOrdering :: "CmpKind \<Rightarrow> bool" where
  "isOrdering k \<longleftrightarrow> k = GreaterThan \<or> k = LessThan \<or> k = GreaterEqual \<or> k = LessEqual"

definition whenE :: "bool \<Rightarrow> unit result \<Rightarrow> unit result" where
  "whenE b m = (if b then m else Inr ())"

definition literalMatches :: "Catalog \<Rightarrow> SelectStatement \<Rightarrow> string \<Rightarrow> bool \<Rightarrow> bool \<Rightarrow> unit result" where
  "literalMatches cat s name isLit isStr =
     bindE (resolveWhere cat s name) (\<lambda>c.
       throwIf ((isLit \<and> cs_type c \<noteq> INT64) \<or> (isStr \<and> cs_type c \<noteq> STRING))
         (semErr ''Literal type does not match column '' name []))"

definition checkNumeric :: "Catalog \<Rightarrow> SelectStatement \<Rightarrow> string \<Rightarrow> unit result" where
  "checkNumeric cat s name =
     bindE (resolveWhere cat s name) (\<lambda>c.
       throwIf (cs_type c \<noteq> INT64)
         (semErr ''Column '' name '' is not numeric; cannot use comparison operator''))"

definition validateComparison ::
  "Catalog \<Rightarrow> SelectStatement \<Rightarrow> CmpKind \<Rightarrow> ASTExpr \<Rightarrow> ASTExpr \<Rightarrow> unit result" where
  "validateComparison cat s k l r =
     (let lCol = isColumn l; rCol = isColumn r; lLit = isInt l; rLit = isInt r;
          lString = isString l; rString = isString r in
      bindE (throwIf (\<not> ((lCol \<and> (rLit \<or> rString)) \<or> ((lLit \<or> lString) \<and> rCol) \<or> (lCol \<and> rCol)))
         (SemanticError (''Comparison must be between a column and a literal or two columns: ''
            @ exprToSQL (Comparison k l r)))) (\<lambda>_.
      bindE (whenE lCol (bindE (resolveWhere cat s (columnNameOf l)) (\<lambda>_. Inr ()))) (\<lambda>_.
      bindE (whenE rCol (bindE (resolveWhere cat s (columnNameOf r)) (\<lambda>_. Inr ()))) (\<lambda>_.
      bindE (whenE (lCol \<and> (rLit \<or> rString)) (literalMatches cat s (columnNameOf l) rLit rString)) (\<lambda>_.
      bindE (whenE (rCol \<and> (lLit \<or> lString)) (literalMatches cat s (columnNameOf r) lLit lString)) (\<lambda>_.
      bindE (whenE (isOrdering k)
         (bindE (whenE lCol (checkNumeric cat s (columnNameOf l))) (\<lambda>_.
          bindE (whenE rCol (checkNumeric cat s (columnNameOf r))) (\<lambda>_.
          throwIf (lString \<or> rString)
            (SemanticError ''Ordering comparisons are only supported for INT64 columns''))))) (\<lambda>_.
      whenE (lString \<or> rString)
        (bindE (throwIf (k \<noteq> Equal \<and> k \<noteq> NotEqual)
            (SemanticError ''STRING columns support only = and !='')) (\<lambda>_.
         let name = columnNameOf (if lCol then l else r);
             literal = stringValueOf (if lString then l else r) in
         bindE (resolveWhere cat s name) (\<lambda>c.
         bindE (throwIf (cs_type c \<noteq> STRING)
            (semErr ''String literal compared with non-STRING column '' name [])) (\<lambda>_.
         throwIf (cs_maxLength c = 0 \<or> cs_maxLength c < length literal)
            (semErr ''String literal for column '' name '' exceeds maxLength''))))))))))))"

fun validateExpr :: "Catalog \<Rightarrow> SelectStatement \<Rightarrow> ASTExpr \<Rightarrow> unit result" where
  "validateExpr cat s (ColumnRef n) =
     (if \<not> hasDot n then
        bindE (getTable cat (st_tableName s)) (\<lambda>t.
        bindE (foldE (\<lambda>j found. bindE (getTable cat (tr_tableName (jc_rightTable j)))
                                 (\<lambda>u. Inr (if hasColumn u n then True else found)))
                (st_joins s) (hasColumn t n)) (\<lambda>found.
        throwIf (\<not> found) (semErr ''Unknown column '' n [])))
      else Inr ())"
| "validateExpr cat s (IntLiteral i) = Inr ()"
| "validateExpr cat s (StringLiteral x) = Inr ()"
| "validateExpr cat s (Comparison k l r) = validateComparison cat s k l r"
| "validateExpr cat s (And l r) = bindE (validateExpr cat s l) (\<lambda>_. validateExpr cat s r)"
| "validateExpr cat s (Or l r) = bindE (validateExpr cat s l) (\<lambda>_. validateExpr cat s r)"
| "validateExpr cat s (NotExpr e) = validateExpr cat s e"

fun checkJoin :: "(string \<times> TableSchema) list \<Rightarrow> ASTExpr \<Rightarrow> unit result" where
  "checkJoin scopes (Comparison Equal (ColumnRef left) (ColumnRef right)) =
     bindE (resolve scopes left) (\<lambda>lcs.
     bindE (resolve scopes right) (\<lambda>rcs.
     bindE (throwIf (cs_type lcs \<noteq> cs_type rcs)
       (SemanticError ''JOIN columns must have compatible types'')) (\<lambda>_.
     throwIf (\<not> hasDot left \<or> \<not> hasDot right)
       (SemanticError ''JOIN columns must be qualified''))))"
| "checkJoin scopes e = Inl (SemanticError ''JOIN currently requires column equality in ON'')"

definition baseAlias :: "SelectStatement \<Rightarrow> string" where
  "baseAlias s = (if st_tableAlias s = [] then st_tableName s else st_tableAlias s)"

definition analyze :: "Catalog \<Rightarrow> SelectStatement \<Rightarrow> TableSchema result" where
  "analyze cat s =
     bindE (throwIf (st_tableName s = []) (SemanticError ''No table specified'')) (\<lambda>_.
     bindE (throwIf (\<not> hasTable cat (st_tableName s)) (semErr ''Unknown table '' (st_tableName s) [])) (\<lambda>_.
     bindE (getTable cat (st_tableName s)) (\<lambda>schema.
     bindE (joinScopes cat (st_joins s) [(baseAlias s, schema)]) (\<lambda>scopes.
     bindE (forE (\<lambda>c. bindE (resolve scopes c) (\<lambda>_. Inr ())) (st_projections s)) (\<lambda>_.
     bindE (case st_whereClause s of None \<Rightarrow> Inr () | Some e \<Rightarrow> validateExpr cat s e) (\<lambda>_.
     bindE (forE (\<lambda>j. checkJoin scopes (jc_condition j)) (st_joins s)) (\<lambda>_.
     bindE (forE (\<lambda>c. bindE (resolve scopes (ob_columnName c)) (\<lambda>_. Inr ())) (st_orderByColumns s)) (\<lambda>_.
     bindE (throwIf (st_limitCount s < - 1) (SemanticError ''LIMIT value must be non-negative'')) (\<lambda>_.
     Inr schema)))))))))"

section \<open>Specification\<close>

definition columnOpt :: "TableSchema \<Rightarrow> string \<Rightarrow> ColumnSchema option" where
  "columnOpt t n = find (\<lambda>c. cs_name c = n) (ts_columns t)"

text \<open>The tables in scope: the last table introduced under an alias.\<close>

definition scopeOf :: "Catalog \<Rightarrow> SelectStatement \<Rightarrow> string \<Rightarrow> TableSchema option" where
  "scopeOf cat s a =
     (case find (\<lambda>j. tr_alias (jc_rightTable j) = a) (rev (st_joins s)) of
        Some j \<Rightarrow> cat_tables cat (tr_tableName (jc_rightTable j))
      | None \<Rightarrow> if a = baseAlias s then cat_tables cat (st_tableName s) else None)"

text \<open>What a column of the select list, of ON or of ORDER BY denotes: a column of the table its
  qualifier names, or of the only table in scope that has it.\<close>

definition denotes :: "Catalog \<Rightarrow> SelectStatement \<Rightarrow> string \<Rightarrow> ColumnSchema \<Rightarrow> bool" where
  "denotes cat s ref c \<longleftrightarrow>
     (if hasDot ref
      then \<exists>t. scopeOf cat s (qualifier [] ref) = Some t \<and> columnOpt t (bareName ref) = Some c
      else \<exists>a t. scopeOf cat s a = Some t \<and> columnOpt t ref = Some c
                 \<and> (\<forall>b u. scopeOf cat s b = Some u \<and> hasColumn u ref \<longrightarrow> b = a))"

text \<open>What a column of the WHERE clause denotes: the table of a qualifier is the FROM table, or
  else the first join of that name; an unqualified column is one of the FROM table.\<close>

definition whereTable :: "SelectStatement \<Rightarrow> string \<Rightarrow> string option" where
  "whereTable s a = (if a = st_tableAlias s \<or> (st_tableAlias s = [] \<and> a = st_tableName s)
     then Some (st_tableName s)
     else map_option (\<lambda>j. tr_tableName (jc_rightTable j))
            (find (\<lambda>j. a = tr_alias (jc_rightTable j)) (st_joins s)))"

definition whereColumn :: "Catalog \<Rightarrow> SelectStatement \<Rightarrow> string \<Rightarrow> ColumnSchema option" where
  "whereColumn cat s ref =
     Option.bind (if hasDot ref then whereTable s (qualifier [] ref) else Some (st_tableName s)) (\<lambda>tn.
     Option.bind (cat_tables cat tn) (\<lambda>t. columnOpt t (bareName ref)))"

definition literalFits :: "ColumnSchema \<Rightarrow> CmpKind \<Rightarrow> ASTExpr \<Rightarrow> bool" where
  "literalFits c k e \<longleftrightarrow>
     (case e of
        IntLiteral i \<Rightarrow> cs_type c = INT64
      | StringLiteral x \<Rightarrow> cs_type c = STRING \<and> \<not> isOrdering k
                           \<and> 0 < cs_maxLength c \<and> length x \<le> cs_maxLength c
      | _ \<Rightarrow> False)"

definition cmpOk :: "(string \<Rightarrow> ColumnSchema option) \<Rightarrow> CmpKind \<Rightarrow> ASTExpr \<Rightarrow> ASTExpr \<Rightarrow> bool" where
  "cmpOk env k l r \<longleftrightarrow>
     (case (l, r) of
        (ColumnRef a, ColumnRef b) \<Rightarrow>
          (\<exists>c d. env a = Some c \<and> env b = Some d
             \<and> (isOrdering k \<longrightarrow> cs_type c = INT64 \<and> cs_type d = INT64))
      | (ColumnRef a, e) \<Rightarrow> (\<exists>c. env a = Some c \<and> literalFits c k e)
      | (e, ColumnRef b) \<Rightarrow> (\<exists>d. env b = Some d \<and> literalFits d k e)
      | _ \<Rightarrow> False)"

fun exprOk :: "Catalog \<Rightarrow> SelectStatement \<Rightarrow> ASTExpr \<Rightarrow> bool" where
  "exprOk cat s (ColumnRef n) \<longleftrightarrow>
     (hasDot n \<or> (\<exists>tn\<in>insert (st_tableName s) ((\<lambda>j. tr_tableName (jc_rightTable j)) ` set (st_joins s)).
                    catalogHasColumn cat tn n))"
| "exprOk cat s (IntLiteral i) \<longleftrightarrow> True"
| "exprOk cat s (StringLiteral x) \<longleftrightarrow> True"
| "exprOk cat s (Comparison k l r) \<longleftrightarrow> cmpOk (whereColumn cat s) k l r"
| "exprOk cat s (And l r) \<longleftrightarrow> exprOk cat s l \<and> exprOk cat s r"
| "exprOk cat s (Or l r) \<longleftrightarrow> exprOk cat s l \<and> exprOk cat s r"
| "exprOk cat s (NotExpr e) \<longleftrightarrow> exprOk cat s e"

definition joinOk :: "Catalog \<Rightarrow> SelectStatement \<Rightarrow> ASTExpr \<Rightarrow> bool" where
  "joinOk cat s e \<longleftrightarrow> (\<exists>a b c d. e = Comparison Equal (ColumnRef a) (ColumnRef b) \<and> hasDot a \<and> hasDot b
     \<and> denotes cat s a c \<and> denotes cat s b d \<and> cs_type c = cs_type d)"

definition statementOk :: "Catalog \<Rightarrow> SelectStatement \<Rightarrow> bool" where
  "statementOk cat s \<longleftrightarrow>
     st_tableName s \<noteq> []
     \<and> (\<forall>tn\<in>insert (st_tableName s) ((\<lambda>j. tr_tableName (jc_rightTable j)) ` set (st_joins s)). hasTable cat tn)
     \<and> (\<forall>n\<in>set (st_projections s) \<union> ob_columnName ` set (st_orderByColumns s). \<exists>c. denotes cat s n c)
     \<and> (case st_whereClause s of None \<Rightarrow> True | Some e \<Rightarrow> exprOk cat s e)
     \<and> (\<forall>j\<in>set (st_joins s). joinOk cat s (jc_condition j))
     \<and> - 1 \<le> st_limitCount s"

section \<open>The analyzer meets its specification\<close>

lemma column_columnOpt: "column t n = Inr c \<longleftrightarrow> columnOpt t n = Some c"
  by (auto simp: column_def columnOpt_def split: option.splits)

lemma hasColumn_columnOpt: "hasColumn t n \<longleftrightarrow> (\<exists>c. columnOpt t n = Some c)"
  by (simp add: hasColumn_column column_columnOpt)

lemma hasTable_Some: "hasTable cat i \<longleftrightarrow> (\<exists>t. cat_tables cat i = Some t)"
  by (simp add: hasTable_def)

lemma whenE_Inr [simp]: "whenE b m = Inr u \<longleftrightarrow> (b \<longrightarrow> m = Inr ())"
  by (simp add: whenE_def)

text \<open>Scopes.\<close>

lemma joinScopes_Inr:
  "joinScopes cat js sc = Inr sc' \<Longrightarrow>
     (\<forall>j\<in>set js. hasTable cat (tr_tableName (jc_rightTable j)))
     \<and> (distinct (map fst sc) \<longrightarrow> distinct (map fst sc'))
     \<and> map_of sc' = (\<lambda>a. case find (\<lambda>j. tr_alias (jc_rightTable j) = a) (rev js) of
          Some j \<Rightarrow> cat_tables cat (tr_tableName (jc_rightTable j)) | None \<Rightarrow> map_of sc a)"
proof (induction js arbitrary: sc' rule: rev_induct)
  case Nil
  then show ?case by (simp add: joinScopes_def)
next
  case (snoc j js)
  from snoc.prems obtain sc1 t where 1: "joinScopes cat js sc = Inr sc1"
    "cat_tables cat (tr_tableName (jc_rightTable j)) = Some t"
    "sc' = AList.update (tr_alias (jc_rightTable j)) t sc1"
    by (auto simp: joinScopes_def foldE_append bindE_eq_Inr)
  with snoc.IH [OF 1(1)] show ?case
    by (auto simp: hasTable_def update_conv' distinct_update fun_eq_iff)
qed

lemma joinScopes_total:
  "\<forall>j\<in>set js. hasTable cat (tr_tableName (jc_rightTable j)) \<Longrightarrow> \<exists>sc'. joinScopes cat js sc = Inr sc'"
  by (induction js arbitrary: sc) (auto simp: joinScopes_def hasTable_def getTable_def)

lemma scopes_scopeOf:
  assumes "cat_tables cat (st_tableName s) = Some t"
    "joinScopes cat (st_joins s) [(baseAlias s, t)] = Inr sc"
  shows "distinct (map fst sc)" "map_of sc = scopeOf cat s"
  using joinScopes_Inr [OF assms(2)] assms(1)
  by (auto simp: scopeOf_def fun_eq_iff split: option.splits)

text \<open>The loop over the scopes finds the only table with the column.\<close>

definition scanScopes ::
  "string \<Rightarrow> (string \<times> TableSchema) list \<Rightarrow> ColumnSchema option \<Rightarrow> ColumnSchema option result" where
  "scanScopes ref = foldE (\<lambda>(alias, candidate) found.
     if hasColumn candidate ref
     then bindE (throwIf (found \<noteq> None) (semErr ''Ambiguous column '' ref []))
            (\<lambda>_. bindE (column candidate ref) (\<lambda>c. Inr (Some c)))
     else Inr found)"

lemma scanScopes_simps:
  "scanScopes ref [] f = Inr f"
  "\<not> hasColumn t ref \<Longrightarrow> scanScopes ref ((a, t) # sc) f = scanScopes ref sc f"
  "hasColumn t ref \<Longrightarrow> scanScopes ref ((a, t) # sc) (Some c) = Inl (semErr ''Ambiguous column '' ref [])"
  "columnOpt t ref = Some c \<Longrightarrow> scanScopes ref ((a, t) # sc) None = scanScopes ref sc (Some c)"
  by (simp_all add: scanScopes_def hasColumn_columnOpt column_columnOpt [THEN iffD2])

lemma scan_found:
  "scanScopes ref sc (Some c) = Inr f \<longleftrightarrow> f = Some c \<and> (\<forall>(a, t)\<in>set sc. \<not> hasColumn t ref)"
proof (induction sc)
  case (Cons x sc)
  then show ?case by (cases x; cases "hasColumn (snd x) ref") (auto simp: scanScopes_simps)
qed (auto simp: scanScopes_simps)

lemma scan_unique:
  assumes "distinct (map fst sc)"
  shows "scanScopes ref sc None = Inr (Some c) \<longleftrightarrow>
    (\<exists>a t. map_of sc a = Some t \<and> columnOpt t ref = Some c
           \<and> (\<forall>b u. map_of sc b = Some u \<and> hasColumn u ref \<longrightarrow> b = a))"
  using assms
proof (induction sc)
  case Nil
  then show ?case by (simp add: scanScopes_def)
next
  case (Cons x sc)
  obtain a t where x: "x = (a, t)" by (cases x)
  from Cons.prems x have a: "map_of sc a = None" "distinct (map fst sc)"
    by (simp_all add: map_of_eq_None_iff)
  show ?case
  proof (cases "hasColumn t ref")
    case True
    then obtain d where d: "columnOpt t ref = Some d" by (auto simp: hasColumn_columnOpt)
    have "scanScopes ref (x # sc) None = Inr (Some c) \<longleftrightarrow>
        c = d \<and> (\<forall>(b, u)\<in>set sc. \<not> hasColumn u ref)"
      using True d scan_found [of ref sc d "Some c"]
      by (auto simp: x scanScopes_simps)
    also have "(\<forall>(b, u)\<in>set sc. \<not> hasColumn u ref) \<longleftrightarrow>
        (\<forall>b u. map_of sc b = Some u \<longrightarrow> \<not> hasColumn u ref)"
      using a(2) by (auto dest: map_of_SomeD simp: map_of_is_SomeI)
    also have "c = d \<and> (\<forall>b u. map_of sc b = Some u \<longrightarrow> \<not> hasColumn u ref) \<longleftrightarrow>
        (\<exists>a' t'. map_of (x # sc) a' = Some t' \<and> columnOpt t' ref = Some c
           \<and> (\<forall>b u. map_of (x # sc) b = Some u \<and> hasColumn u ref \<longrightarrow> b = a'))" (is "?L \<longleftrightarrow> ?R")
    proof
      assume ?L
      with d show ?R by (intro exI [of _ a] exI [of _ t]) (auto simp: x)
    next
      assume ?R
      then obtain a' t' where r: "map_of (x # sc) a' = Some t'" "columnOpt t' ref = Some c"
        "\<And>b u. map_of (x # sc) b = Some u \<Longrightarrow> hasColumn u ref \<Longrightarrow> b = a'" by blast
      from r(3) [of a t] True have a': "a' = a" by (simp add: x)
      with r(1,2) d have "c = d" by (simp add: x)
      moreover have "\<not> hasColumn u ref" if "map_of sc b = Some u" for b u
      proof
        assume h: "hasColumn u ref"
        from that a(1) have "b \<noteq> a" by auto
        with that have "map_of (x # sc) b = Some u" by (simp add: x)
        from r(3) [OF this h] a' \<open>b \<noteq> a\<close> show False by simp
      qed
      ultimately show ?L by blast
    qed
    finally show ?thesis .
  next
    case False
    then have "scanScopes ref (x # sc) None = scanScopes ref sc None" by (simp add: x scanScopes_simps)
    moreover have e: "map_of (x # sc) b = Some u \<and> hasColumn u ref \<longleftrightarrow> map_of sc b = Some u \<and> hasColumn u ref"
      for b u using False a(1) by (auto simp: x)
    moreover have "map_of (x # sc) b = Some u \<and> columnOpt u ref = Some c
        \<longleftrightarrow> map_of sc b = Some u \<and> columnOpt u ref = Some c" for b u
      using e by (metis hasColumn_columnOpt)
    ultimately show ?thesis
      using Cons.IH [OF a(2)] by (simp only: conj_assoc [symmetric])
  qed
qed

lemma resolve_iff:
  assumes "distinct (map fst sc)" "map_of sc = scopeOf cat s"
  shows "resolve sc ref = Inr c \<longleftrightarrow> denotes cat s ref c"
proof (cases "find_char CHR ''.'' ref")
  case None
  then have h: "\<not> hasDot ref" by (simp add: hasDot_def del: find_char_None)
  have "resolve sc ref = Inr c \<longleftrightarrow> scanScopes ref sc None = Inr (Some c)"
    using None by (auto simp: resolve_def scanScopes_def bindE_eq_Inr simp del: find_char_None
        split: option.splits)
  with h show ?thesis by (simp add: scan_unique [OF assms(1)] assms(2) denotes_def)
next
  case (Some d)
  then have "hasDot ref" "qualifier [] ref = take d ref" "bareName ref = drop (d + 1) ref"
    by (simp_all add: hasDot_def qualifier_def bareName_def)
  with Some show ?thesis
    by (auto simp: resolve_def denotes_def assms(2) column_columnOpt hasColumn_columnOpt
        split: option.splits)
qed

text \<open>The WHERE clause.\<close>

lemma resolveWhere_iff: "resolveWhere cat s ref = Inr c \<longleftrightarrow> whereColumn cat s ref = Some c"
proof (cases "find_char CHR ''.'' ref")
  case None
  then have "\<not> hasDot ref" by (simp add: hasDot_def del: find_char_None)
  with None show ?thesis
    by (auto simp: resolveWhere_def whereColumn_def bindE_eq_Inr column_columnOpt
        hasColumn_columnOpt simp del: find_char_None split: Option.bind_splits)
next
  case (Some d)
  then have "hasDot ref" "qualifier [] ref = take d ref" "bareName ref = drop (d + 1) ref"
    by (simp_all add: hasDot_def qualifier_def bareName_def)
  with Some show ?thesis
    by (auto simp: resolveWhere_def whereColumn_def whereTable_def Let_def bindE_eq_Inr
        column_columnOpt semErr_def split: option.splits Option.bind_splits)
qed



lemma checkNumeric_Inr [simp]:
  "checkNumeric cat s n = Inr u \<longleftrightarrow> (\<exists>c. whereColumn cat s n = Some c \<and> cs_type c = INT64)"
  by (auto simp: checkNumeric_def bindE_eq_Inr resolveWhere_iff)

lemma literalMatches_Inr [simp]:
  "literalMatches cat s n i x = Inr u \<longleftrightarrow>
     (\<exists>c. whereColumn cat s n = Some c \<and> (i \<longrightarrow> cs_type c = INT64) \<and> (x \<longrightarrow> cs_type c = STRING))"
  by (auto simp: literalMatches_def bindE_eq_Inr resolveWhere_iff)

lemma not_ordering: "\<not> isOrdering k \<longleftrightarrow> k = Equal \<or> k = NotEqual"
  by (cases k) (simp_all add: isOrdering_def)

lemma validateComparison_iff:
  "validateComparison cat s k l r = Inr () \<longleftrightarrow> cmpOk (whereColumn cat s) k l r"
proof -
  note d = validateComparison_def Let_def bindE_eq_Inr resolveWhere_iff cmpOk_def literalFits_def
  show ?thesis
  proof (cases l)
    case (ColumnRef a)
    then show ?thesis by (cases r) (auto simp: d not_ordering not_less)
  next
    case (IntLiteral i)
    then show ?thesis by (cases r) (auto simp: d not_ordering not_less)
  next
    case (StringLiteral x)
    then show ?thesis by (cases r) (auto simp: d not_ordering not_less)
  qed (auto simp: d split: ASTExpr.splits)
qed

lemma join_tables_loop:
  assumes "\<forall>j\<in>set js. hasTable cat (tr_tableName (jc_rightTable j))"
  shows "foldE (\<lambda>j found. bindE (getTable cat (tr_tableName (jc_rightTable j)))
            (\<lambda>u. Inr (if hasColumn u n then True else found))) js f
         = Inr (f \<or> (\<exists>j\<in>set js. catalogHasColumn cat (tr_tableName (jc_rightTable j)) n))"
  using assms
  by (induction js arbitrary: f)
    (auto simp: hasTable_def getTable_def catalogHasColumn_def)

lemma validateExpr_iff:
  assumes "\<forall>tn\<in>insert (st_tableName s) ((\<lambda>j. tr_tableName (jc_rightTable j)) ` set (st_joins s)).
             hasTable cat tn"
  shows "validateExpr cat s e = Inr () \<longleftrightarrow> exprOk cat s e"
proof (induction e)
  case (ColumnRef n)
  obtain t where "cat_tables cat (st_tableName s) = Some t"
    using assms by (auto simp: hasTable_Some)
  with assms show ?case
    by (auto simp: bindE_eq_Inr join_tables_loop catalogHasColumn_def [of cat "st_tableName s"]
        hasTable_def getTable_def [of cat "st_tableName s"])
qed (simp_all add: validateComparison_iff bindE_eq_Inr)

lemma checkJoin_iff:
  assumes "distinct (map fst sc)" "map_of sc = scopeOf cat s"
  shows "checkJoin sc e = Inr () \<longleftrightarrow> joinOk cat s e"
  by (cases "(sc, e)" rule: checkJoin.cases)
    (auto simp: joinOk_def bindE_eq_Inr resolve_iff [OF assms])

lemma unit_Inr [simp]: "(\<exists>u. m = Inr u \<and> Q) \<longleftrightarrow> m = Inr () \<and> Q"
  by auto

lemma analyze_accepts:
  "analyze cat s = Inr t \<longleftrightarrow> statementOk cat s \<and> cat_tables cat (st_tableName s) = Some t"
proof (cases "cat_tables cat (st_tableName s) = Some t
    \<and> (\<forall>j\<in>set (st_joins s). hasTable cat (tr_tableName (jc_rightTable j)))")
  case False
  have "cat_tables cat (st_tableName s) = Some t
    \<and> (\<forall>j\<in>set (st_joins s). hasTable cat (tr_tableName (jc_rightTable j)))"
    if "analyze cat s = Inr t"
    using that joinScopes_Inr by (fastforce simp: analyze_def bindE_eq_Inr)
  with False show ?thesis by (auto simp: statementOk_def)
next
  case True
  then obtain sc where sc: "joinScopes cat (st_joins s) [(baseAlias s, t)] = Inr sc"
    using joinScopes_total by blast
  note d = scopes_scopeOf [OF conjunct1 [OF True] sc]
  have all: "\<forall>tn\<in>insert (st_tableName s) ((\<lambda>j. tr_tableName (jc_rightTable j)) ` set (st_joins s)).
      hasTable cat tn"
    using True by (auto simp: hasTable_def)
  have w: "(case st_whereClause s of None \<Rightarrow> Inr () | Some e \<Rightarrow> validateExpr cat s e) = Inr ()
      \<longleftrightarrow> (case st_whereClause s of None \<Rightarrow> True | Some e \<Rightarrow> exprOk cat s e)"
    by (simp add: validateExpr_iff [OF all] split: option.splits)
  have "analyze cat s = Inr t \<longleftrightarrow> st_tableName s \<noteq> []
      \<and> (\<forall>n\<in>set (st_projections s). \<exists>c. denotes cat s n c)
      \<and> (case st_whereClause s of None \<Rightarrow> True | Some e \<Rightarrow> exprOk cat s e)
      \<and> (\<forall>j\<in>set (st_joins s). joinOk cat s (jc_condition j))
      \<and> (\<forall>oc\<in>set (st_orderByColumns s). \<exists>c. denotes cat s (ob_columnName oc) c)
      \<and> - 1 \<le> st_limitCount s"
    using True sc
    by (auto simp: analyze_def bindE_eq_Inr forE_eq_Inr hasTable_def getTable_def
        resolve_iff [OF d] checkJoin_iff [OF d] w)
  with True all show ?thesis by (auto simp: statementOk_def)
qed

section \<open>Errors\<close>

definition semanticOrColumn :: "err \<Rightarrow> bool" where
  "semanticOrColumn e \<longleftrightarrow> (\<exists>m. e = SemanticError m) \<or> (\<exists>n. e = columnNotFound n)"

lemma semantic_kinds [simp]:
  "semanticOrColumn (SemanticError m)" "semanticOrColumn (semErr a n b)"
  "semanticOrColumn (columnNotFound n)"
  by (auto simp: semanticOrColumn_def semErr_def)

lemma column_kind: "column t n = Inl e \<Longrightarrow> semanticOrColumn e"
  using column_not_semantic by fastforce

lemma foldE_Inl_from:
  "foldE f xs s = Inl e \<Longrightarrow> \<exists>x\<in>set xs. \<exists>s'. f x s' = Inl e"
  by (induction xs arbitrary: s) (auto simp: bindE_eq_Inl)

lemma resolve_kind: "resolve sc ref = Inl e \<Longrightarrow> semanticOrColumn e"
  by (auto simp: resolve_def bindE_eq_Inl split: option.splits if_splits
      dest!: foldE_Inl_from dest: column_kind)

lemma tables_known:
  assumes "\<forall>tn\<in>insert (st_tableName s) ((\<lambda>j. tr_tableName (jc_rightTable j)) ` set (st_joins s)).
             hasTable cat tn"
  shows "cat_tables cat (st_tableName s) \<noteq> None"
    "find P (st_joins s) = Some j \<Longrightarrow> cat_tables cat (tr_tableName (jc_rightTable j)) \<noteq> None"
    "j \<in> set (st_joins s) \<Longrightarrow> cat_tables cat (tr_tableName (jc_rightTable j)) \<noteq> None"
  using assms by (auto simp: hasTable_def find_Some_iff)

lemma resolveWhere_kind:
  assumes "\<forall>tn\<in>insert (st_tableName s) ((\<lambda>j. tr_tableName (jc_rightTable j)) ` set (st_joins s)).
             hasTable cat tn"
  shows "resolveWhere cat s ref = Inl e \<Longrightarrow> semanticOrColumn e"
  using tables_known(1) [OF assms]
  by (auto simp: resolveWhere_def Let_def bindE_eq_Inl split: option.splits if_splits
      dest: column_kind tables_known(2) [OF assms])

text \<open>The same for a computation, composed along the checks of a comparison.\<close>

definition semanticFails :: "'a result \<Rightarrow> bool" where
  "semanticFails m \<longleftrightarrow> (\<forall>e. m = Inl e \<longrightarrow> semanticOrColumn e)"

lemma semanticFails_rules:
  "semanticFails m \<Longrightarrow> (\<And>x. semanticFails (f x)) \<Longrightarrow> semanticFails (bindE m f)"
  "semanticOrColumn e \<Longrightarrow> semanticFails (throwIf b e)" "semanticFails m' \<Longrightarrow> semanticFails (whenE b m')" "semanticFails (Inr y)"
  by (auto simp: semanticFails_def bindE_eq_Inl throwIf_def whenE_def)

lemma validateComparison_kind:
  assumes "\<forall>tn\<in>insert (st_tableName s) ((\<lambda>j. tr_tableName (jc_rightTable j)) ` set (st_joins s)).
             hasTable cat tn"
  shows "validateComparison cat s k l r = Inl e \<Longrightarrow> semanticOrColumn e"
proof -
  have r: "semanticFails (resolveWhere cat s n)" for n using resolveWhere_kind [OF assms] by (simp add: semanticFails_def)
  have "semanticFails (literalMatches cat s n a b)" "semanticFails (checkNumeric cat s n)" for n a b
    by (simp_all add: literalMatches_def checkNumeric_def Let_def semanticFails_rules r semantic_kinds)
  then have "semanticFails (validateComparison cat s k l r)"
    by (simp only: validateComparison_def Let_def) (intro semanticFails_rules r semantic_kinds)
  then show "validateComparison cat s k l r = Inl e \<Longrightarrow> semanticOrColumn e" by (simp add: semanticFails_def)
qed

lemma validateExpr_kind:
  assumes "\<forall>tn\<in>insert (st_tableName s) ((\<lambda>j. tr_tableName (jc_rightTable j)) ` set (st_joins s)).
             hasTable cat tn"
  shows "validateExpr cat s x = Inl e \<Longrightarrow> semanticOrColumn e"
proof (induction x)
  case (ColumnRef n)
  then show ?case
    using tables_known(1) [OF assms]
    by (auto simp: bindE_eq_Inl split: if_splits dest!: foldE_Inl_from dest: tables_known(3) [OF assms])
next
  case (Comparison k l r)
  then show ?case using validateComparison_kind [OF assms] by simp
qed (auto simp: bindE_eq_Inl)

lemma checkJoin_kind: "checkJoin sc x = Inl e \<Longrightarrow> semanticOrColumn e"
  by (cases "(sc, x)" rule: checkJoin.cases) (auto simp: bindE_eq_Inl dest: resolve_kind)

lemma analyze_kind:
  assumes a: "analyze cat s = Inl e"
  shows "(\<exists>m. e = SemanticError m) \<or> (\<exists>n. e = columnNotFound n)"
proof -
  let ?all = "\<forall>tn\<in>insert (st_tableName s) ((\<lambda>j. tr_tableName (jc_rightTable j)) ` set (st_joins s)).
      hasTable cat tn"
  have "semanticOrColumn e"
  proof (cases ?all)
    case True
    from a show ?thesis
      using tables_known(1) [OF True]
      by (auto simp: analyze_def bindE_eq_Inl hasTable_def split: option.splits
          dest!: forE_Inl_from dest: resolve_kind checkJoin_kind validateExpr_kind [OF True])
        (auto simp: joinScopes_def bindE_eq_Inl hasTable_def dest!: foldE_Inl_from)
  next
    case False
    show ?thesis
    proof (cases "hasTable cat (st_tableName s)")
      case True
      then obtain t where t: "cat_tables cat (st_tableName s) = Some t" by (auto simp: hasTable_def)
      have "\<exists>m. joinScopes cat (st_joins s) [(baseAlias s, t)] = Inl m"
        using False True joinScopes_Inr
        by (cases "joinScopes cat (st_joins s) [(baseAlias s, t)]") fastforce+
      then obtain m where m: "joinScopes cat (st_joins s) [(baseAlias s, t)] = Inl m" by blast
      then have "semanticOrColumn m"
        by (auto simp: joinScopes_def bindE_eq_Inl hasTable_def dest!: foldE_Inl_from)
      with a t m show ?thesis
        by (auto simp: analyze_def bindE_eq_Inl hasTable_def getTable_def)
    next
      case False
      with a show ?thesis by (auto simp: analyze_def bindE_eq_Inl hasTable_def)
    qed
  qed
  then show "(\<exists>m. e = SemanticError m) \<or> (\<exists>n. e = columnNotFound n)"
    by (simp add: semanticOrColumn_def)
qed

section \<open>Properties\<close>

text \<open>C10: \<open>analyze\<close> accepts a statement exactly when every table is known, every
  column of the select list and of ORDER BY denotes a column of a table in scope, every
  comparison of the WHERE clause is well typed (an integer with an INT64 column, a string that
  fits with = or != on a STRING column, orderings on INT64 columns), every ON is an equality of
  two qualified columns of the same type and the limit is at least -1; it then returns the
  schema of the FROM table.\<close>

theorem analyze_iff:
  "analyze cat s = Inr t \<longleftrightarrow> statementOk cat s \<and> cat_tables cat (st_tableName s) = Some t"
  by (rule analyze_accepts)


text \<open>Whatever the statement, \<open>analyze\<close> fails with a \<open>SemanticError\<close> or
  with the \<open>std::runtime_error\<close> of an unknown column, never with the missing-table error of the
  catalog: every table is checked before it is looked up.\<close>

lemma analyze_error_kind:
  assumes a: "analyze cat s = Inl e"
  shows "(\<exists>m. e = SemanticError m) \<or> (\<exists>n. e = columnNotFound n)"
  using assms by (rule analyze_kind)

definition unknownColumnStmt :: SelectStatement where
  "unknownColumnStmt = \<lparr>st_projections = [], st_tableName = ''employees'', st_tableAlias = ''e'',
     st_joins = [], st_whereClause = Some (Comparison Equal (ColumnRef ''e.foo'') (IntLiteral 1)),
     st_orderByColumns = [], st_limitCount = - 1\<rparr>"

lemma analyze_error_kind_example:
  "analyze makeEmployeesCatalog (unknownColumnStmt\<lparr>st_limitCount := - 2, st_whereClause := None\<rparr>)
     = Inl (SemanticError ''LIMIT value must be non-negative'')
   \<and> ((\<exists>m. SemanticError ''LIMIT value must be non-negative'' = SemanticError m)
      \<or> (\<exists>n. SemanticError ''LIMIT value must be non-negative'' = columnNotFound n))"
proof -
  have a: "analyze makeEmployeesCatalog (unknownColumnStmt\<lparr>st_limitCount := - 2, st_whereClause := None\<rparr>)
      = Inl (SemanticError ''LIMIT value must be non-negative'')"
    by code_simp
  from a analyze_error_kind [OF a] show ?thesis by blast
qed

text \<open>A comparison whose qualified column names a table in scope but none of its columns makes
  \<open>analyze\<close> throw the plain \<open>std::runtime_error\<close> of \<open>TableSchema::column\<close>.\<close>

lemma unknown_where_column:
  assumes "analyze cat (s\<lparr>st_whereClause := None\<rparr>) = Inr t"
    and "st_whereClause s = Some (Comparison k (ColumnRef (a @ CHR ''.'' # n)) (IntLiteral i))"
    and "CHR ''.'' \<notin> set a" "whereTable s a = Some tn" "cat_tables cat tn = Some u" "\<not> hasColumn u n"
  shows "analyze cat s = Inl (columnNotFound n)"
proof -
  let ?ref = "a @ CHR ''.'' # n"
  have f: "find_char CHR ''.'' ?ref = Some (length a)" by (rule find_char_append [OF assms(3)])
  have "resolveWhere cat s ?ref = Inl (columnNotFound n)"
    using assms(4-6) f
    by (auto simp: resolveWhere_def whereTable_def Let_def getTable_def column_missing
        split: if_splits option.splits)
  then have "validateExpr cat s (Comparison k (ColumnRef ?ref) (IntLiteral i))
      = Inl (columnNotFound n)"
    by (simp add: validateComparison_def whenE_def)
  moreover have b: "baseAlias (s\<lparr>st_whereClause := None\<rparr>) = baseAlias s" by (simp add: baseAlias_def)
  moreover obtain sc where
    "st_tableName s \<noteq> []" "cat_tables cat (st_tableName s) = Some t"
    "joinScopes cat (st_joins s) [(baseAlias s, t)] = Inr sc"
    "forE (\<lambda>c. bindE (resolve sc c) (\<lambda>_. Inr ())) (st_projections s) = Inr ()"
    using assms(1) by (auto simp: analyze_def bindE_eq_Inr b)
  ultimately show ?thesis
    using assms(2) by (simp add: analyze_def hasTable_def getTable_def)
qed

end
