(* ===== verification/Hega_Planner.thy ===== *)
theory Hega_Planner
  imports Hega_Semantic
begin

text \<open>
  The planners (\<open>include/proto2/planner.h\<close>, \<open>planner/planner.cpp\<close>).  \<open>logicalPlan\<close> turns a
  statement into a chain Project, Filter, Scan; \<open>physicalPlan\<close> reads such a chain into the
  descriptor \<open>PhysicalPlan\<close>, whose \<open>scanColumns\<close> are the columns that the server must load.
\<close>

section \<open>Definitions\<close>

datatype LogicalNodeKind = Scan | Filter | Project

text \<open>One struct for the three kinds; \<open>None\<close> is the null pointer.\<close>

datatype LogicalNode = LogicalNode
  (ln_kind: LogicalNodeKind)
  (ln_tableName: string)
  (ln_tableAlias: string)
  (ln_joinedTableName: string)
  (ln_joinedTableAlias: string)
  (ln_joinLeftColumn: string)
  (ln_joinRightColumn: string)
  (ln_hasJoin: bool)
  (ln_predicate: "ASTExpr option")
  (ln_columns: "string list")
  (ln_child: "LogicalNode option")

record PhysicalPlan =
  pp_tableName :: string
  pp_tableAlias :: string
  pp_joinedTableName :: string
  pp_joinedTableAlias :: string
  pp_joinLeftColumn :: string
  pp_joinRightColumn :: string
  pp_hasJoin :: bool
  pp_scanColumns :: "string list"
  pp_projectColumns :: "string list"
  pp_hasFilter :: bool

definition isEqualCmp :: "ASTExpr \<Rightarrow> bool" where
  "isEqualCmp e = (case e of Comparison Equal l r \<Rightarrow> True | _ \<Rightarrow> False)"

text \<open>The scan node: only the first join is read.\<close>

definition scanNode :: "SelectStatement \<Rightarrow> LogicalNode result" where
  "scanNode s =
     (case st_joins s of
        [] \<Rightarrow> Inr (LogicalNode Scan (st_tableName s) (st_tableAlias s) [] [] [] [] False None [] None)
      | join # _ \<Rightarrow>
          (case jc_condition join of
             Comparison Equal l r \<Rightarrow>
               Inr (LogicalNode Scan (st_tableName s) (st_tableAlias s)
                      (tr_tableName (jc_rightTable join)) (tr_alias (jc_rightTable join))
                      (columnNameOf l) (columnNameOf r) True None [] None)
           | _ \<Rightarrow> Inl (RuntimeError ''Only equality JOINs are supported'')))"

definition logicalPlan :: "SelectStatement \<Rightarrow> TableSchema \<Rightarrow> LogicalNode result" where
  "logicalPlan s schema =
     bindE (scanNode s) (\<lambda>scan.
       let filterOrScan =
             (case st_whereClause s of
                None \<Rightarrow> scan
              | Some e \<Rightarrow> LogicalNode Filter [] [] [] [] [] [] False (Some e) [] (Some scan));
           columns = (if st_projections s = [] then map cs_name (ts_columns schema)
                      else st_projections s)
       in Inr (LogicalNode Project [] [] [] [] [] [] False None
                 (fold push_new (map ob_columnName (st_orderByColumns s)) columns)
                 (Some filterOrScan)))"

fun collectColumns :: "ASTExpr \<Rightarrow> string list \<Rightarrow> string list" where
  "collectColumns (ColumnRef n) cols = push_new (bareName n) cols"
| "collectColumns (IntLiteral i) cols = cols"
| "collectColumns (StringLiteral s) cols = cols"
| "collectColumns (Comparison k l r) cols = collectColumns r (collectColumns l cols)"
| "collectColumns (And l r) cols = collectColumns r (collectColumns l cols)"
| "collectColumns (Or l r) cols = collectColumns r (collectColumns l cols)"
| "collectColumns (NotExpr e) cols = collectColumns e cols"

text \<open>A projected column that the scan of the FROM table does not load: one qualified by the
  joined table.\<close>

definition ofJoinedTable :: "bool \<Rightarrow> string \<Rightarrow> string \<Rightarrow> bool" where
  "ofJoinedTable hasJoin alias c \<longleftrightarrow> hasJoin \<and> hasDot c \<and> qualifier [] c = alias"

definition scanStep :: "bool \<Rightarrow> string \<Rightarrow> string \<Rightarrow> string list \<Rightarrow> string list" where
  "scanStep hasJoin alias c cols =
     (if ofJoinedTable hasJoin alias c then cols else push_new (bareName c) cols)"

text \<open>Reading a null child is undefined; the test for it comes too late in the source.\<close>

definition nullChild :: err where
  "nullChild = UndefinedBehaviour ''PhysicalPlanner: null child''"

definition derefChild :: "LogicalNode \<Rightarrow> LogicalNode result" where
  "derefChild n = (case ln_child n of None \<Rightarrow> Inl nullChild | Some c \<Rightarrow> Inr c)"

definition physicalPlan :: "LogicalNode \<Rightarrow> PhysicalPlan result" where
  "physicalPlan logical =
     bindE (throwIf (ln_kind logical \<noteq> Project)
        (RuntimeError ''PhysicalPlanner: expected Project at root'')) (\<lambda>_.
     bindE (derefChild logical) (\<lambda>child.
     bindE (if ln_kind child = Scan then Inr (ln_tableAlias child)
            else bindE (derefChild child) (\<lambda>c. Inr (ln_tableAlias c))) (\<lambda>alias.
     let hasFilter = (ln_kind child = Filter);
         predCols = (if hasFilter
                     then (case ln_predicate child of None \<Rightarrow> [] | Some e \<Rightarrow> collectColumns e [])
                     else []);
         node = (if hasFilter then ln_child child else Some child)
     in case node of
          None \<Rightarrow> Inl (RuntimeError ''PhysicalPlanner: expected Scan'')
        | Some n \<Rightarrow>
            (if ln_kind n \<noteq> Scan then Inl (RuntimeError ''PhysicalPlanner: expected Scan'')
             else Inr \<lparr>pp_tableName = ln_tableName n, pp_tableAlias = alias,
                       pp_joinedTableName = ln_joinedTableName n,
                       pp_joinedTableAlias = ln_joinedTableAlias n,
                       pp_joinLeftColumn = ln_joinLeftColumn n,
                       pp_joinRightColumn = ln_joinRightColumn n,
                       pp_hasJoin = ln_hasJoin n,
                       pp_scanColumns = fold (scanStep (ln_hasJoin n) (ln_joinedTableAlias n))
                                          (ln_columns logical) predCols,
                       pp_projectColumns = ln_columns logical,
                       pp_hasFilter = hasFilter\<rparr>))))"

text \<open>The two planners one after the other, as client and benchmark call them.\<close>

definition planStatement :: "SelectStatement \<Rightarrow> TableSchema \<Rightarrow> PhysicalPlan result" where
  "planStatement s schema = bindE (logicalPlan s schema) physicalPlan"

section \<open>Column sets\<close>

fun exprColumns :: "ASTExpr \<Rightarrow> string set" where
  "exprColumns (ColumnRef n) = {n}"
| "exprColumns (IntLiteral i) = {}"
| "exprColumns (StringLiteral s) = {}"
| "exprColumns (Comparison k l r) = exprColumns l \<union> exprColumns r"
| "exprColumns (And l r) = exprColumns l \<union> exprColumns r"
| "exprColumns (Or l r) = exprColumns l \<union> exprColumns r"
| "exprColumns (NotExpr e) = exprColumns e"

lemma collectColumns_set: "set (collectColumns e cols) = set cols \<union> bareName ` exprColumns e"
  by (induction e arbitrary: cols) auto

lemma collectColumns_distinct: "distinct cols \<Longrightarrow> distinct (collectColumns e cols)"
  by (induction e arbitrary: cols) auto

lemma push_all_set: "set (fold push_new xs ys) = set ys \<union> set xs"
  by (induction xs arbitrary: ys) auto

lemma push_all_distinct: "distinct ys \<Longrightarrow> distinct (fold push_new xs ys)"
  by (induction xs arbitrary: ys) auto

lemma push_all_prefix: "\<exists>zs. fold push_new xs ys = ys @ zs"
proof (induction xs arbitrary: ys)
  case (Cons x xs)
  then obtain zs where "fold push_new xs (push_new x ys) = push_new x ys @ zs" by blast
  moreover have "\<exists>us. push_new x ys = ys @ us" by (simp add: push_new_def)
  ultimately show ?case by (metis append.assoc fold_simps(2))
qed simp

lemma scanSteps_set:
  "set (fold (scanStep h a) cs ys) = set ys \<union> bareName ` {c \<in> set cs. \<not> ofJoinedTable h a c}"
  by (induction cs arbitrary: ys) (auto simp: scanStep_def)

lemma scanSteps_distinct: "distinct ys \<Longrightarrow> distinct (fold (scanStep h a) cs ys)"
  by (induction cs arbitrary: ys) (auto simp: scanStep_def)

section \<open>Specification\<close>

definition whereColumns :: "SelectStatement \<Rightarrow> string set" where
  "whereColumns s = (case st_whereClause s of None \<Rightarrow> {} | Some e \<Rightarrow> exprColumns e)"

definition outputColumns :: "SelectStatement \<Rightarrow> TableSchema \<Rightarrow> string list" where
  "outputColumns s schema =
     (if st_projections s = [] then map cs_name (ts_columns schema) else st_projections s)"

text \<open>The plan of a statement: the output columns first, in order, then the ORDER BY columns
  not yet there; the scan loads, each once, what WHERE mentions and what is projected from the
  FROM table.\<close>

definition planFor :: "SelectStatement \<Rightarrow> TableSchema \<Rightarrow> PhysicalPlan \<Rightarrow> bool" where
  "planFor s schema pp \<longleftrightarrow>
     pp_tableName pp = st_tableName s \<and> pp_tableAlias pp = st_tableAlias s
     \<and> (pp_hasFilter pp \<longleftrightarrow> st_whereClause s \<noteq> None)
     \<and> (\<exists>extra. pp_projectColumns pp = outputColumns s schema @ extra)
     \<and> set (pp_projectColumns pp) = set (outputColumns s schema) \<union> ob_columnName ` set (st_orderByColumns s)
     \<and> distinct (pp_scanColumns pp)
     \<and> set (pp_scanColumns pp) = bareName ` whereColumns s
         \<union> bareName ` {c \<in> set (pp_projectColumns pp).
                          \<not> ofJoinedTable (pp_hasJoin pp) (pp_joinedTableAlias pp) c}
     \<and> (case st_joins s of
          [] \<Rightarrow> \<not> pp_hasJoin pp
        | j # _ \<Rightarrow> pp_hasJoin pp \<and> pp_joinedTableName pp = tr_tableName (jc_rightTable j)
                   \<and> pp_joinedTableAlias pp = tr_alias (jc_rightTable j)
                   \<and> (\<exists>l r. jc_condition j = Comparison Equal l r
                        \<and> pp_joinLeftColumn pp = columnNameOf l \<and> pp_joinRightColumn pp = columnNameOf r))"

lemma scanNode_cases:
  assumes "scanNode s = Inr n"
  shows "ln_kind n = Scan" "ln_tableName n = st_tableName s" "ln_tableAlias n = st_tableAlias s"
    "case st_joins s of
       [] \<Rightarrow> \<not> ln_hasJoin n
     | j # _ \<Rightarrow> ln_hasJoin n \<and> ln_joinedTableName n = tr_tableName (jc_rightTable j)
                \<and> ln_joinedTableAlias n = tr_alias (jc_rightTable j)
                \<and> (\<exists>l r. jc_condition j = Comparison Equal l r
                     \<and> ln_joinLeftColumn n = columnNameOf l \<and> ln_joinRightColumn n = columnNameOf r)"
  using assms
  by (auto simp: scanNode_def split: list.splits ASTExpr.splits CmpKind.splits)

lemma planStatement_eq:
  "planStatement s schema = bindE (scanNode s) (\<lambda>n.
     let columns = fold push_new (map ob_columnName (st_orderByColumns s)) (outputColumns s schema) in
     Inr \<lparr>pp_tableName = ln_tableName n, pp_tableAlias = ln_tableAlias n,
          pp_joinedTableName = ln_joinedTableName n, pp_joinedTableAlias = ln_joinedTableAlias n,
          pp_joinLeftColumn = ln_joinLeftColumn n, pp_joinRightColumn = ln_joinRightColumn n,
          pp_hasJoin = ln_hasJoin n,
          pp_scanColumns = fold (scanStep (ln_hasJoin n) (ln_joinedTableAlias n)) columns
             (case st_whereClause s of None \<Rightarrow> [] | Some e \<Rightarrow> collectColumns e []),
          pp_projectColumns = columns, pp_hasFilter = (st_whereClause s \<noteq> None)\<rparr>)"
proof (cases "scanNode s")
  case (Inr n)
  with scanNode_cases(1) [OF Inr] show ?thesis
    by (simp add: planStatement_def logicalPlan_def physicalPlan_def derefChild_def Let_def
        outputColumns_def split: option.splits)
qed (simp add: planStatement_def logicalPlan_def)

lemma plan_meets_spec:
  assumes "case st_joins s of [] \<Rightarrow> True | j # _ \<Rightarrow> isEqualCmp (jc_condition j)"
  shows "\<exists>pp. planStatement s schema = Inr pp \<and> planFor s schema pp"
proof -
  obtain n where n: "scanNode s = Inr n"
    using assms by (auto simp: scanNode_def isEqualCmp_def split: list.splits ASTExpr.splits CmpKind.splits)
  define cols where
    "cols = fold push_new (map ob_columnName (st_orderByColumns s)) (outputColumns s schema)"
  define w where "w = (case st_whereClause s of None \<Rightarrow> [] | Some e \<Rightarrow> collectColumns e [])"
  have w: "set w = bareName ` whereColumns s" "distinct w"
    by (simp_all add: w_def whereColumns_def collectColumns_set collectColumns_distinct
        split: option.splits)
  have c: "set cols = set (outputColumns s schema) \<union> ob_columnName ` set (st_orderByColumns s)"
    "\<exists>extra. cols = outputColumns s schema @ extra"
    by (simp_all add: cols_def push_all_set push_all_prefix)
  define pp where "pp = \<lparr>pp_tableName = ln_tableName n, pp_tableAlias = ln_tableAlias n,
     pp_joinedTableName = ln_joinedTableName n, pp_joinedTableAlias = ln_joinedTableAlias n,
     pp_joinLeftColumn = ln_joinLeftColumn n, pp_joinRightColumn = ln_joinRightColumn n,
     pp_hasJoin = ln_hasJoin n,
     pp_scanColumns = fold (scanStep (ln_hasJoin n) (ln_joinedTableAlias n)) cols w,
     pp_projectColumns = cols, pp_hasFilter = (st_whereClause s \<noteq> None)\<rparr>"
  have "planStatement s schema = Inr pp"
    by (simp add: planStatement_eq n pp_def cols_def w_def Let_def)
  moreover have "planFor s schema pp"
    using scanNode_cases [OF n] w c
    by (simp add: planFor_def pp_def scanSteps_set scanSteps_distinct split: list.splits)
  ultimately show ?thesis by blast
qed

section \<open>Properties\<close>

text \<open>C34: planning a statement whose first join (if any) is an equality
  succeeds, the physical planner never meeting a malformed chain, and gives the plan that
  \<open>planFor\<close> specifies: the scan columns are, without repetition, the bare names of the WHERE
  columns and of the projected and ORDER BY columns that are not qualified by the joined table.\<close>

theorem planStatement_plans:
  assumes "case st_joins s of [] \<Rightarrow> True | j # _ \<Rightarrow> isEqualCmp (jc_condition j)"
  shows "\<exists>pp. planStatement s schema = Inr pp \<and> planFor s schema pp"
  using assms by (rule plan_meets_spec)

definition planSample :: SelectStatement where
  "planSample =
     \<lparr>st_projections = [''e.name'', ''d.department_name''], st_tableName = ''employees'', st_tableAlias = ''e'',
      st_joins = [\<lparr>jc_rightTable = \<lparr>tr_tableName = ''departments'', tr_alias = ''d''\<rparr>,
                   jc_condition = Comparison Equal (ColumnRef ''e.department_id'') (ColumnRef ''d.id'')\<rparr>],
      st_whereClause = Some (Comparison GreaterThan (ColumnRef ''e.age'') (IntLiteral 30)),
      st_orderByColumns = [\<lparr>ob_columnName = ''e.age'', ob_direction = Descending\<rparr>],
      st_limitCount = 10\<rparr>"

theorem planStatement_plans_witness:
  "\<exists>pp. planStatement planSample employeesSchema = Inr pp \<and> planFor planSample employeesSchema pp"
  by (rule planStatement_plans) (simp add: planSample_def isEqualCmp_def)

text \<open>The planners read the first join only; a statement with further
  joins gets the very plan of the statement without them.\<close>

lemma later_joins_dropped:
  "planStatement (s\<lparr>st_joins := j # js\<rparr>) schema = planStatement (s\<lparr>st_joins := [j]\<rparr>) schema"
  by (simp add: planStatement_eq scanNode_def outputColumns_def split: ASTExpr.splits CmpKind.splits)

text \<open>A WHERE column qualified by the joined table is put under its
  bare name among the columns to scan from the FROM table.\<close>

lemma joined_where_column_scanned:
  assumes "planStatement s schema = Inr pp" "st_whereClause s = Some e" "n \<in> exprColumns e"
  shows "bareName n \<in> set (pp_scanColumns pp)"
  using assms
  by (auto simp: planStatement_eq bindE_eq_Inr Let_def scanSteps_set collectColumns_set)

lemma joined_where_column_scanned_example:
  "\<exists>pp. planStatement (planSample\<lparr>st_whereClause :=
        Some (Comparison Equal (ColumnRef ''d.department_name'') (StringLiteral ''IT''))\<rparr>) employeesSchema = Inr pp
      \<and> bareName ''d.department_name'' \<in> set (pp_scanColumns pp)"
proof -
  let ?s = "planSample\<lparr>st_whereClause :=
        Some (Comparison Equal (ColumnRef ''d.department_name'') (StringLiteral ''IT''))\<rparr>"
  obtain pp where "planStatement ?s employeesSchema = Inr pp"
    by (simp add: planStatement_eq scanNode_def planSample_def Let_def)
  then show ?thesis using joined_where_column_scanned [of ?s employeesSchema pp _ "''d.department_name''"] by simp
qed

end
