(* ===== verification/Hega_Package.thy ===== *)
theory Hega_Package
  imports Hega_Catalog
begin

text \<open>
  The query package and the result batch with their serialization
  (\<open>include/proto2/query_package.h\<close>, \<open>query/query_package.cpp\<close>, \<open>include/proto2/result.h\<close>,
  \<open>result/result.cpp\<close>).  The bytes are written by the cereal library, which is not part of the
  repository: an archive is a parameter, a record with one codec per primitive type the
  repository hands to it and the codecs of its vectors over a codec of the elements.  What is
  the repository's own is the list of fields and their order.
\<close>

section \<open>Definitions\<close>

subsection \<open>The package\<close>

record FHEParamsMeta =
  fm_paramSetId :: string
  fm_plaintextModulus :: u64
  fm_multiplicativeDepth :: u32
  fm_ringDimension :: u32
  fm_slotCount :: u64
  fm_keyId :: string

record EncryptedLiteralEntry =
  el_id :: u32
  el_logicalType :: string
  el_ciphertextBytes :: "byte list"
  el_logicalSize :: u64

text \<open>The enum is a byte on the wire, and reading it checks nothing: \<open>POther\<close> stands for the bytes
  outside the enum, between which no code distinguishes and none of which the client sends.\<close>

datatype PredNodeKind =
    PColumnRef | PLiteralRef
  | PEqual | PNotEqual | PGreaterThan | PLessThan | PGreaterEqual | PLessEqual
  | PAnd | POr | PNot
  | PStringEqual | PStringNotEqual
  | POther

record PredNode =
  pn_kind :: PredNodeKind
  pn_columnName :: string
  pn_literalId :: u32
  pn_stringWidth :: u32
  pn_left :: u32
  pn_right :: u32

definition emptyNode :: PredNode where
  "emptyNode = \<lparr>pn_kind = PColumnRef, pn_columnName = [], pn_literalId = 0, pn_stringWidth = 0,
     pn_left = UINT32_MAX, pn_right = UINT32_MAX\<rparr>"

record QueryPackage =
  pk_queryId :: string
  pk_protocolVersion :: u32
  pk_schemaVersion :: u32
  pk_tableName :: string
  pk_tableAlias :: string
  pk_joinedTableName :: string
  pk_joinedTableAlias :: string
  pk_joinLeftColumn :: string
  pk_joinRightColumn :: string
  pk_hasJoin :: bool
  pk_scanColumns :: "string list"
  pk_projectColumns :: "string list"
  pk_resultSchema :: "ColumnSchema list"
  pk_predicateNodes :: "PredNode list"
  pk_encryptedLiterals :: "EncryptedLiteralEntry list"
  pk_fheParams :: FHEParamsMeta
  pk_shardId :: u32
  pk_partitionId :: u32

subsection \<open>The result batch\<close>

record EncryptedColumnResult =
  cr_columnName :: string
  cr_logicalType :: string
  cr_stringPosition :: u32
  cr_ciphertextBytes :: "byte list"
  cr_logicalSize :: u64

record EncryptedResultBatch =
  rb_batchId :: u32
  rb_logicalRowCount :: int
  rb_columns :: "EncryptedColumnResult list"
  rb_selectionMaskBytes :: "byte list"
  rb_hasMask :: bool

text \<open>The response header of the transport, written by the same archive.\<close>

record QueryResponse =
  qr_success :: bool
  qr_errorMessage :: string
  qr_batchCount :: u32
  qr_queryId :: string

subsection \<open>Archives\<close>

type_synonym 'a codec = "('a \<Rightarrow> byte list) \<times> (byte list \<Rightarrow> ('a \<times> byte list) result)"

definition enc :: "'a codec \<Rightarrow> 'a \<Rightarrow> byte list" where
  "enc c = fst c"

definition dec :: "'a codec \<Rightarrow> byte list \<Rightarrow> ('a \<times> byte list) result" where
  "dec c = snd c"

text \<open>\<open>ar(x, y)\<close>, and a struct by its fields.\<close>

definition seqC :: "'a codec \<Rightarrow> 'b codec \<Rightarrow> ('a \<times> 'b) codec" where
  "seqC c d = (\<lambda>(x, y). enc c x @ enc d y,
     \<lambda>s. bindE (dec c s) (\<lambda>(x, s1). bindE (dec d s1) (\<lambda>(y, s2). Inr ((x, y), s2))))"

definition fieldsC :: "('r \<Rightarrow> 'a) \<Rightarrow> ('a \<Rightarrow> 'r) \<Rightarrow> 'a codec \<Rightarrow> 'r codec" where
  "fieldsC toF ofF c = (\<lambda>r. enc c (toF r),
     \<lambda>s. bindE (dec c s) (\<lambda>(x, s1). Inr (ofF x, s1)))"

record Archive =
  ar_string :: "string codec"
  ar_u32 :: "u32 codec"
  ar_u64 :: "u64 codec"
  ar_i64 :: "int codec"
  ar_bool :: "bool codec"
  ar_predKind :: "PredNodeKind codec"
  ar_dataType :: "DataType codec"
  ar_bytes :: "byte list codec"
  ar_strings :: "string list codec"
  ar_columnSchemas :: "ColumnSchema codec \<Rightarrow> ColumnSchema list codec"
  ar_predNodes :: "PredNode codec \<Rightarrow> PredNode list codec"
  ar_literals :: "EncryptedLiteralEntry codec \<Rightarrow> EncryptedLiteralEntry list codec"
  ar_columnResults :: "EncryptedColumnResult codec \<Rightarrow> EncryptedColumnResult list codec"

definition fheParamsC :: "Archive \<Rightarrow> FHEParamsMeta codec" where
  "fheParamsC ar = fieldsC
     (\<lambda>m. (fm_paramSetId m, fm_plaintextModulus m, fm_multiplicativeDepth m, fm_ringDimension m,
           fm_slotCount m, fm_keyId m))
     (\<lambda>(a, b, c, d, e, f). \<lparr>fm_paramSetId = a, fm_plaintextModulus = b, fm_multiplicativeDepth = c,
           fm_ringDimension = d, fm_slotCount = e, fm_keyId = f\<rparr>)
     (seqC (ar_string ar) (seqC (ar_u64 ar) (seqC (ar_u32 ar) (seqC (ar_u32 ar)
        (seqC (ar_u64 ar) (ar_string ar))))))"

definition literalC :: "Archive \<Rightarrow> EncryptedLiteralEntry codec" where
  "literalC ar = fieldsC
     (\<lambda>l. (el_id l, el_logicalType l, el_ciphertextBytes l, el_logicalSize l))
     (\<lambda>(a, b, c, d). \<lparr>el_id = a, el_logicalType = b, el_ciphertextBytes = c, el_logicalSize = d\<rparr>)
     (seqC (ar_u32 ar) (seqC (ar_string ar) (seqC (ar_bytes ar) (ar_u64 ar))))"

definition predNodeC :: "Archive \<Rightarrow> PredNode codec" where
  "predNodeC ar = fieldsC
     (\<lambda>n. (pn_kind n, pn_columnName n, pn_literalId n, pn_stringWidth n, pn_left n, pn_right n))
     (\<lambda>(a, b, c, d, e, f). \<lparr>pn_kind = a, pn_columnName = b, pn_literalId = c, pn_stringWidth = d,
           pn_left = e, pn_right = f\<rparr>)
     (seqC (ar_predKind ar) (seqC (ar_string ar) (seqC (ar_u32 ar) (seqC (ar_u32 ar)
        (seqC (ar_u32 ar) (ar_u32 ar))))))"

text \<open>\<open>maxLength\<close> is a \<open>size_t\<close> of 64 bits.\<close>

definition columnSchemaC :: "Archive \<Rightarrow> ColumnSchema codec" where
  "columnSchemaC ar = fieldsC
     (\<lambda>c. (cs_name c, cs_type c, of_nat (cs_maxLength c)))
     (\<lambda>(a, b, c). \<lparr>cs_name = a, cs_type = b, cs_maxLength = unat c\<rparr>)
     (seqC (ar_string ar) (seqC (ar_dataType ar) (ar_u64 ar)))"

definition packageC :: "Archive \<Rightarrow> QueryPackage codec" where
  "packageC ar = fieldsC
     (\<lambda>p. (pk_queryId p, pk_protocolVersion p, pk_schemaVersion p, pk_tableName p, pk_tableAlias p,
           pk_joinedTableName p, pk_joinedTableAlias p, pk_joinLeftColumn p, pk_joinRightColumn p,
           pk_hasJoin p, pk_scanColumns p, pk_projectColumns p, pk_resultSchema p,
           pk_predicateNodes p, pk_encryptedLiterals p, pk_fheParams p, pk_shardId p, pk_partitionId p))
     (\<lambda>(a, b, c, d, e, f, g, h, i, j, k, l, m, n, q, r, s, t).
        \<lparr>pk_queryId = a, pk_protocolVersion = b, pk_schemaVersion = c, pk_tableName = d,
         pk_tableAlias = e, pk_joinedTableName = f, pk_joinedTableAlias = g, pk_joinLeftColumn = h,
         pk_joinRightColumn = i, pk_hasJoin = j, pk_scanColumns = k, pk_projectColumns = l,
         pk_resultSchema = m, pk_predicateNodes = n, pk_encryptedLiterals = q, pk_fheParams = r,
         pk_shardId = s, pk_partitionId = t\<rparr>)
     (seqC (ar_string ar) (seqC (ar_u32 ar) (seqC (ar_u32 ar)
     (seqC (ar_string ar) (seqC (ar_string ar) (seqC (ar_string ar) (seqC (ar_string ar)
     (seqC (ar_string ar) (seqC (ar_string ar) (seqC (ar_bool ar)
     (seqC (ar_strings ar) (seqC (ar_strings ar)
     (seqC (ar_columnSchemas ar (columnSchemaC ar)) (seqC (ar_predNodes ar (predNodeC ar))
     (seqC (ar_literals ar (literalC ar))
     (seqC (fheParamsC ar) (seqC (ar_u32 ar) (ar_u32 ar))))))))))))))))))"

definition columnResultC :: "Archive \<Rightarrow> EncryptedColumnResult codec" where
  "columnResultC ar = fieldsC
     (\<lambda>c. (cr_columnName c, cr_logicalType c, cr_stringPosition c, cr_ciphertextBytes c, cr_logicalSize c))
     (\<lambda>(a, b, c, d, e). \<lparr>cr_columnName = a, cr_logicalType = b, cr_stringPosition = c,
           cr_ciphertextBytes = d, cr_logicalSize = e\<rparr>)
     (seqC (ar_string ar) (seqC (ar_string ar) (seqC (ar_u32 ar) (seqC (ar_bytes ar) (ar_u64 ar)))))"

definition batchC :: "Archive \<Rightarrow> EncryptedResultBatch codec" where
  "batchC ar = fieldsC
     (\<lambda>b. (rb_batchId b, rb_logicalRowCount b, rb_columns b, rb_selectionMaskBytes b, rb_hasMask b))
     (\<lambda>(a, b, c, d, e). \<lparr>rb_batchId = a, rb_logicalRowCount = b, rb_columns = c,
           rb_selectionMaskBytes = d, rb_hasMask = e\<rparr>)
     (seqC (ar_u32 ar) (seqC (ar_i64 ar) (seqC (ar_columnResults ar (columnResultC ar))
        (seqC (ar_bytes ar) (ar_bool ar)))))"

definition responseC :: "Archive \<Rightarrow> QueryResponse codec" where
  "responseC ar = fieldsC
     (\<lambda>r. (qr_success r, qr_errorMessage r, qr_batchCount r, qr_queryId r))
     (\<lambda>(a, b, c, d). \<lparr>qr_success = a, qr_errorMessage = b, qr_batchCount = c, qr_queryId = d\<rparr>)
     (seqC (ar_bool ar) (seqC (ar_string ar) (seqC (ar_u32 ar) (ar_string ar))))"

text \<open>\<open>serialize\<close> and \<open>deserialize\<close>: bytes left over after the last field are ignored.\<close>

definition serializePackage :: "Archive \<Rightarrow> QueryPackage \<Rightarrow> byte list" where
  "serializePackage ar p = enc (packageC ar) p"

definition deserializePackage :: "Archive \<Rightarrow> byte list \<Rightarrow> QueryPackage result" where
  "deserializePackage ar s = bindE (dec (packageC ar) s) (\<lambda>(p, _). Inr p)"

definition serializeBatch :: "Archive \<Rightarrow> EncryptedResultBatch \<Rightarrow> byte list" where
  "serializeBatch ar b = enc (batchC ar) b"

definition deserializeBatch :: "Archive \<Rightarrow> byte list \<Rightarrow> EncryptedResultBatch result" where
  "deserializeBatch ar s = bindE (dec (batchC ar) s) (\<lambda>(b, _). Inr b)"

definition serializeResponse :: "Archive \<Rightarrow> QueryResponse \<Rightarrow> byte list" where
  "serializeResponse ar r = enc (responseC ar) r"

definition deserializeResponse :: "Archive \<Rightarrow> byte list \<Rightarrow> QueryResponse result" where
  "deserializeResponse ar s = bindE (dec (responseC ar) s) (\<lambda>(r, _). Inr r)"

section \<open>Codecs that read back what they wrote\<close>

definition lawfulOn :: "'a set \<Rightarrow> 'a codec \<Rightarrow> bool" where
  "lawfulOn S c \<longleftrightarrow> (\<forall>x\<in>S. \<forall>s. dec c (enc c x @ s) = Inr (x, s))"

text \<open>The documented behaviour of cereal's binary archive: a value that was written is read back
  and exactly its bytes are consumed.  Sizes are written in 64 bits.\<close>

definition sized :: "'a list \<Rightarrow> bool" where
  "sized xs \<longleftrightarrow> length xs < 2 ^ 64"

definition int64 :: "int \<Rightarrow> bool" where
  "int64 i \<longleftrightarrow> - INT64_MAX - 1 \<le> i \<and> i \<le> INT64_MAX"

definition vecLaw :: "('a codec \<Rightarrow> 'a list codec) \<Rightarrow> bool" where
  "vecLaw vec \<longleftrightarrow> (\<forall>S c. lawfulOn S c \<longrightarrow> lawfulOn {xs. sized xs \<and> set xs \<subseteq> S} (vec c))"

definition archive_laws :: "Archive \<Rightarrow> bool" where
  "archive_laws ar \<longleftrightarrow>
     lawfulOn {s. sized s} (ar_string ar) \<and> lawfulOn UNIV (ar_u32 ar) \<and> lawfulOn UNIV (ar_u64 ar)
     \<and> lawfulOn {i. int64 i} (ar_i64 ar) \<and> lawfulOn UNIV (ar_bool ar)
     \<and> lawfulOn UNIV (ar_predKind ar) \<and> lawfulOn UNIV (ar_dataType ar)
     \<and> lawfulOn {s. sized s} (ar_bytes ar)
     \<and> lawfulOn {xs. sized xs \<and> list_all sized xs} (ar_strings ar)
     \<and> vecLaw (ar_columnSchemas ar)
     \<and> vecLaw (ar_predNodes ar)
     \<and> vecLaw (ar_literals ar)
     \<and> vecLaw (ar_columnResults ar)"

text \<open>What fits in a 64-bit process.\<close>

definition sizedColumn :: "ColumnSchema \<Rightarrow> bool" where
  "sizedColumn c \<longleftrightarrow> sized (cs_name c) \<and> cs_maxLength c < 2 ^ 64"

definition sizedLiteral :: "EncryptedLiteralEntry \<Rightarrow> bool" where
  "sizedLiteral l \<longleftrightarrow> sized (el_logicalType l) \<and> sized (el_ciphertextBytes l)"

definition sizedPackage :: "QueryPackage \<Rightarrow> bool" where
  "sizedPackage p \<longleftrightarrow>
     list_all sized [pk_queryId p, pk_tableName p, pk_tableAlias p, pk_joinedTableName p,
        pk_joinedTableAlias p, pk_joinLeftColumn p, pk_joinRightColumn p,
        fm_paramSetId (pk_fheParams p), fm_keyId (pk_fheParams p)]
     \<and> sized (pk_scanColumns p) \<and> list_all sized (pk_scanColumns p)
     \<and> sized (pk_projectColumns p) \<and> list_all sized (pk_projectColumns p)
     \<and> sized (pk_resultSchema p) \<and> list_all sizedColumn (pk_resultSchema p)
     \<and> sized (pk_predicateNodes p) \<and> list_all (\<lambda>n. sized (pn_columnName n)) (pk_predicateNodes p)
     \<and> sized (pk_encryptedLiterals p) \<and> list_all sizedLiteral (pk_encryptedLiterals p)"

definition sizedBatch :: "EncryptedResultBatch \<Rightarrow> bool" where
  "sizedBatch b \<longleftrightarrow> int64 (rb_logicalRowCount b) \<and> sized (rb_columns b)
     \<and> list_all (\<lambda>c. sized (cr_columnName c) \<and> sized (cr_logicalType c) \<and> sized (cr_ciphertextBytes c))
         (rb_columns b)
     \<and> sized (rb_selectionMaskBytes b)"

lemma lawfulOn_dec: "lawfulOn S c \<Longrightarrow> x \<in> S \<Longrightarrow> dec c (enc c x @ s) = Inr (x, s)"
  by (simp add: lawfulOn_def)

lemma lawful_seq: "lawfulOn S c \<Longrightarrow> lawfulOn T d \<Longrightarrow> lawfulOn (S \<times> T) (seqC c d)"
  by (auto simp: lawfulOn_def seqC_def enc_def dec_def)

lemma lawful_fields:
  "lawfulOn S c \<Longrightarrow> (\<And>r. r \<in> R \<Longrightarrow> toF r \<in> S \<and> ofF (toF r) = r) \<Longrightarrow> lawfulOn R (fieldsC toF ofF c)"
  by (auto simp: lawfulOn_def fieldsC_def enc_def dec_def)


text \<open>The laws one by one.\<close>

lemma archive_primitives:
  assumes "archive_laws ar"
  shows "lawfulOn {s. sized s} (ar_string ar)" "lawfulOn UNIV (ar_u32 ar)" "lawfulOn UNIV (ar_u64 ar)"
    "lawfulOn {i. int64 i} (ar_i64 ar)" "lawfulOn UNIV (ar_bool ar)"
    "lawfulOn UNIV (ar_predKind ar)" "lawfulOn UNIV (ar_dataType ar)"
    "lawfulOn {s. sized s} (ar_bytes ar)"
    "lawfulOn {xs. sized xs \<and> list_all sized xs} (ar_strings ar)"
  using assms by (simp_all add: archive_laws_def)

lemma vecLawD: "vecLaw vec \<Longrightarrow> lawfulOn S c \<Longrightarrow> lawfulOn {xs. sized xs \<and> set xs \<subseteq> S} (vec c)"
  unfolding vecLaw_def by blast

lemma archive_vectors:
  assumes "archive_laws ar"
  shows "lawfulOn S c1 \<Longrightarrow> lawfulOn {xs. sized xs \<and> set xs \<subseteq> S} (ar_columnSchemas ar c1)"
    "lawfulOn T c2 \<Longrightarrow> lawfulOn {xs. sized xs \<and> set xs \<subseteq> T} (ar_predNodes ar c2)"
    "lawfulOn U c3 \<Longrightarrow> lawfulOn {xs. sized xs \<and> set xs \<subseteq> U} (ar_literals ar c3)"
    "lawfulOn V c4 \<Longrightarrow> lawfulOn {xs. sized xs \<and> set xs \<subseteq> V} (ar_columnResults ar c4)"
  using assms by (simp_all only: archive_laws_def vecLawD)

lemma struct_codecs:
  assumes "archive_laws ar"
  shows "lawfulOn {m. sized (fm_paramSetId m) \<and> sized (fm_keyId m)} (fheParamsC ar)"
    "lawfulOn {l. sizedLiteral l} (literalC ar)"
    "lawfulOn {n. sized (pn_columnName n)} (predNodeC ar)"
    "lawfulOn {c. sizedColumn c} (columnSchemaC ar)"
    "lawfulOn {c. sized (cr_columnName c) \<and> sized (cr_logicalType c) \<and> sized (cr_ciphertextBytes c)}
       (columnResultC ar)"
    "lawfulOn {r. sized (qr_errorMessage r) \<and> sized (qr_queryId r)} (responseC ar)"
proof -
  note p = archive_primitives [OF assms]
  show "lawfulOn {m. sized (fm_paramSetId m) \<and> sized (fm_keyId m)} (fheParamsC ar)"
    unfolding fheParamsC_def by (rule lawful_fields, (rule lawful_seq p)+, auto)
  show "lawfulOn {l. sizedLiteral l} (literalC ar)"
    unfolding literalC_def by (rule lawful_fields, (rule lawful_seq p)+, auto simp: sizedLiteral_def)
  show "lawfulOn {n. sized (pn_columnName n)} (predNodeC ar)"
    unfolding predNodeC_def by (rule lawful_fields, (rule lawful_seq p)+, auto)
  show "lawfulOn {c. sizedColumn c} (columnSchemaC ar)"
    unfolding columnSchemaC_def
    by (rule lawful_fields, (rule lawful_seq p)+, auto simp: sizedColumn_def unsigned_of_nat take_bit_nat_eq_self)
  show "lawfulOn {c. sized (cr_columnName c) \<and> sized (cr_logicalType c) \<and> sized (cr_ciphertextBytes c)}
       (columnResultC ar)"
    unfolding columnResultC_def by (rule lawful_fields, (rule lawful_seq p)+, auto)
  show "lawfulOn {r. sized (qr_errorMessage r) \<and> sized (qr_queryId r)} (responseC ar)"
    unfolding responseC_def by (rule lawful_fields, (rule lawful_seq p)+, auto)
qed

lemma batchC_lawful:
  assumes "archive_laws ar"
  shows "lawfulOn {b. sizedBatch b} (batchC ar)"
proof -
  note p = archive_primitives [OF assms] archive_vectors(4) [OF assms struct_codecs(5) [OF assms]]
  show ?thesis
    unfolding batchC_def
    by (rule lawful_fields, (rule lawful_seq p)+, auto simp: sizedBatch_def list_all_iff)
qed

lemma packageC_lawful:
  assumes "archive_laws ar"
  shows "lawfulOn {p. sizedPackage p} (packageC ar)"
proof -
  note c = struct_codecs [OF assms]
  note p = archive_primitives [OF assms] c(1) archive_vectors(1) [OF assms c(4)]
    archive_vectors(2) [OF assms c(3)] archive_vectors(3) [OF assms c(2)]
  show ?thesis
    unfolding packageC_def
    by (rule lawful_fields, (rule lawful_seq p)+, auto simp: sizedPackage_def list_all_iff)
qed

lemmas codec_laws = packageC_lawful batchC_lawful struct_codecs(6)

lemma deserialize_written:
  "archive_laws ar \<Longrightarrow> sizedPackage p \<Longrightarrow> deserializePackage ar (serializePackage ar p) = Inr p"
  "archive_laws ar \<Longrightarrow> sizedBatch b \<Longrightarrow> deserializeBatch ar (serializeBatch ar b) = Inr b"
  "archive_laws ar \<Longrightarrow> sized (qr_errorMessage r) \<Longrightarrow> sized (qr_queryId r) \<Longrightarrow>
     deserializeResponse ar (serializeResponse ar r) = Inr r"
  using lawfulOn_dec [OF packageC_lawful, of ar p "[]"] lawfulOn_dec [OF batchC_lawful, of ar b "[]"]
    lawfulOn_dec [OF struct_codecs(6), of ar r "[]"]
  by (simp_all add: deserializePackage_def serializePackage_def deserializeBatch_def
      serializeBatch_def deserializeResponse_def serializeResponse_def)

section \<open>An archive that meets the laws\<close>

text \<open>A codec of one byte per unit of a number, used to show that the laws can hold.\<close>

fun unaryDec :: "byte list \<Rightarrow> (nat \<times> byte list) result" where
  "unaryDec [] = Inl (RuntimeError ''truncated'')"
| "unaryDec (b # s) = (if b = 0 then Inr (0, s) else bindE (unaryDec s) (\<lambda>(n, r). Inr (Suc n, r)))"

definition unaryC :: "nat codec" where
  "unaryC = (\<lambda>n. replicate n 1 @ [0], unaryDec)"

fun vecDec :: "'a codec \<Rightarrow> nat \<Rightarrow> byte list \<Rightarrow> ('a list \<times> byte list) result" where
  "vecDec c 0 s = Inr ([], s)"
| "vecDec c (Suc n) s = bindE (dec c s) (\<lambda>(x, s1). bindE (vecDec c n s1) (\<lambda>(xs, s2). Inr (x # xs, s2)))"

definition vecC :: "'a codec \<Rightarrow> 'a list codec" where
  "vecC c = (\<lambda>xs. enc unaryC (length xs) @ concat (map (enc c) xs),
             \<lambda>s. bindE (dec unaryC s) (\<lambda>(n, s1). vecDec c n s1))"

definition wordC :: "'a::len word codec" where
  "wordC = fieldsC unat of_nat unaryC"

definition charC :: "char codec" where
  "charC = fieldsC of_char char_of unaryC"

definition boolC :: "bool codec" where
  "boolC = fieldsC (\<lambda>b. if b then 1 else 0) (\<lambda>n. n = 1) unaryC"

definition intC :: "int codec" where
  "intC = fieldsC (\<lambda>i. (i < 0, nat \<bar>i\<bar>)) (\<lambda>(b, n). if b then - int n else int n) (seqC boolC unaryC)"

definition predKinds :: "PredNodeKind list" where
  "predKinds = [PColumnRef, PLiteralRef, PEqual, PNotEqual, PGreaterThan, PLessThan, PGreaterEqual,
     PLessEqual, PAnd, POr, PNot, PStringEqual, PStringNotEqual]"

fun predKindCode :: "PredNodeKind \<Rightarrow> nat" where
  "predKindCode PColumnRef = 0" | "predKindCode PLiteralRef = 1" | "predKindCode PEqual = 2"
| "predKindCode PNotEqual = 3" | "predKindCode PGreaterThan = 4" | "predKindCode PLessThan = 5"
| "predKindCode PGreaterEqual = 6" | "predKindCode PLessEqual = 7" | "predKindCode PAnd = 8"
| "predKindCode POr = 9" | "predKindCode PNot = 10" | "predKindCode PStringEqual = 11"
| "predKindCode PStringNotEqual = 12" | "predKindCode POther = 13"

definition predKindC :: "PredNodeKind codec" where
  "predKindC = fieldsC predKindCode (\<lambda>n. if n < length predKinds then predKinds ! n else POther) unaryC"

fun dataTypeCode :: "DataType \<Rightarrow> nat" where
  "dataTypeCode INT64 = 0" | "dataTypeCode BOOL = 1" | "dataTypeCode STRING = 2"

definition dataTypeC :: "DataType codec" where
  "dataTypeC = fieldsC dataTypeCode ((!) [INT64, BOOL, STRING]) unaryC"

definition unaryArchive :: Archive where
  "unaryArchive = \<lparr>ar_string = vecC charC, ar_u32 = wordC, ar_u64 = wordC, ar_i64 = intC,
     ar_bool = boolC, ar_predKind = predKindC, ar_dataType = dataTypeC, ar_bytes = vecC wordC,
     ar_strings = vecC (vecC charC), ar_columnSchemas = vecC, ar_predNodes = vecC,
     ar_literals = vecC, ar_columnResults = vecC\<rparr>"

lemma unary_lawful: "lawfulOn UNIV unaryC"
proof -
  have "unaryDec (replicate n 1 @ 0 # s) = Inr (n, s)" for n s by (induction n) simp_all
  then show ?thesis by (simp add: lawfulOn_def unaryC_def enc_def dec_def)
qed

lemma vec_lawful: "lawfulOn S c \<Longrightarrow> lawfulOn {xs. set xs \<subseteq> S} (vecC c)"
proof -
  assume c: "lawfulOn S c"
  have "vecDec c (length xs) (concat (map (enc c) xs) @ s) = Inr (xs, s)" if "set xs \<subseteq> S" for xs s
    using that by (induction xs) (simp_all add: lawfulOn_dec [OF c])
  then show ?thesis
    using unary_lawful by (simp add: lawfulOn_def vecC_def enc_def dec_def)
qed

lemma lawful_subset: "lawfulOn S c \<Longrightarrow> T \<subseteq> S \<Longrightarrow> lawfulOn T c"
  by (auto simp: lawfulOn_def)

lemma unary_codecs:
  "lawfulOn UNIV wordC" "lawfulOn UNIV charC" "lawfulOn UNIV boolC" "lawfulOn UNIV predKindC"
  "lawfulOn UNIV dataTypeC" "lawfulOn UNIV intC"
proof -
  note f = lawful_fields [OF unary_lawful]
  show "lawfulOn UNIV wordC" unfolding wordC_def by (rule f) simp
  show "lawfulOn UNIV charC" unfolding charC_def by (rule f) simp
  show b: "lawfulOn UNIV boolC" unfolding boolC_def by (rule f) simp
  have "(if predKindCode k < length predKinds then predKinds ! predKindCode k else POther) = k" for k by (cases k) (simp_all add: predKinds_def)
  then show "lawfulOn UNIV predKindC" unfolding predKindC_def by (intro f) simp
  have "[INT64, BOOL, STRING] ! dataTypeCode t = t" for t by (cases t) simp_all
  then show "lawfulOn UNIV dataTypeC" unfolding dataTypeC_def by (intro f) simp
  show "lawfulOn UNIV intC"
    unfolding intC_def by (rule lawful_fields [OF lawful_seq [OF b unary_lawful]]) simp
qed

lemma vec_codecs:
  "vecLaw (vecC :: 'a codec \<Rightarrow> _)" "lawfulOn {s. sized s} (vecC charC)" "lawfulOn {s. sized s} (vecC wordC)"
  "lawfulOn {xs. sized xs \<and> list_all sized xs} (vecC (vecC charC))"
proof -
  note u = unary_codecs
  have "lawfulOn {xs. sized xs \<and> set xs \<subseteq> S} (vecC c)" if "lawfulOn S c" for S and c :: "'a codec"
    by (rule lawful_subset [OF vec_lawful [OF that]]) blast
  then show "vecLaw (vecC :: 'a codec \<Rightarrow> _)" unfolding vecLaw_def by blast
  show "lawfulOn {s. sized s} (vecC charC)" by (rule lawful_subset [OF vec_lawful [OF u(2)]]) blast
  show "lawfulOn {s. sized s} (vecC wordC)" by (rule lawful_subset [OF vec_lawful [OF u(1)]]) blast
  show "lawfulOn {xs. sized xs \<and> list_all sized xs} (vecC (vecC charC))"
    by (rule lawful_subset [OF vec_lawful [OF vec_lawful [OF u(2)]]]) blast
qed

lemma unaryArchive_laws: "archive_laws unaryArchive"
  unfolding archive_laws_def unaryArchive_def Archive.simps
  by (intro conjI unary_codecs vec_codecs lawful_subset [OF unary_codecs(6)] subset_UNIV)

section \<open>Properties\<close>

text \<open>C29: the server reads the very package that the client wrote, for every
  archive that reads back what it writes and every package that fits in a 64-bit process.\<close>

theorem package_roundtrip:
  assumes "archive_laws ar" "sizedPackage p"
  shows "deserializePackage ar (serializePackage ar p) = Inr p"
  using assms by (rule deserialize_written(1))

text \<open>C30: the client reads the very result batch that the server wrote.\<close>

theorem batch_roundtrip:
  assumes "archive_laws ar" "sizedBatch b"
  shows "deserializeBatch ar (serializeBatch ar b) = Inr b"
  using assms by (rule deserialize_written(2))


definition samplePackage :: QueryPackage where
  "samplePackage =
     \<lparr>pk_queryId = ''q1'', pk_protocolVersion = 2, pk_schemaVersion = 1, pk_tableName = ''employees'',
      pk_tableAlias = ''e'', pk_joinedTableName = [], pk_joinedTableAlias = [], pk_joinLeftColumn = [],
      pk_joinRightColumn = [], pk_hasJoin = False, pk_scanColumns = [''age''], pk_projectColumns = [''age''],
      pk_resultSchema = [\<lparr>cs_name = ''age'', cs_type = INT64, cs_maxLength = 0\<rparr>],
      pk_predicateNodes = [emptyNode\<lparr>pn_columnName := ''age''\<rparr>,
                           emptyNode\<lparr>pn_kind := PLiteralRef\<rparr>,
                           emptyNode\<lparr>pn_kind := PGreaterThan, pn_left := 0, pn_right := 1\<rparr>],
      pk_encryptedLiterals = [\<lparr>el_id = 0, el_logicalType = ''INT64'', el_ciphertextBytes = [7],
                               el_logicalSize = 4\<rparr>],
      pk_fheParams = \<lparr>fm_paramSetId = ''p'', fm_plaintextModulus = 257, fm_multiplicativeDepth = 12,
                      fm_ringDimension = 16384, fm_slotCount = 4, fm_keyId = []\<rparr>,
      pk_shardId = 0, pk_partitionId = 0\<rparr>"

definition sampleBatch :: EncryptedResultBatch where
  "sampleBatch = \<lparr>rb_batchId = 0, rb_logicalRowCount = 2,
     rb_columns = [\<lparr>cr_columnName = ''age'', cr_logicalType = ''INT64'', cr_stringPosition = 0,
                    cr_ciphertextBytes = [1, 2], cr_logicalSize = 2\<rparr>],
     rb_selectionMaskBytes = [3], rb_hasMask = True\<rparr>"

lemma samples_sized: "sizedPackage samplePackage" "sizedBatch sampleBatch"
  by (simp_all add: samplePackage_def sampleBatch_def sizedPackage_def sizedBatch_def sized_def
      sizedColumn_def sizedLiteral_def int64_def INT64_MAX_def emptyNode_def)

theorem package_roundtrip_witness:
  "deserializePackage unaryArchive (serializePackage unaryArchive samplePackage) = Inr samplePackage"
  by (rule package_roundtrip [OF unaryArchive_laws samples_sized(1)])

theorem batch_roundtrip_witness:
  "deserializeBatch unaryArchive (serializeBatch unaryArchive sampleBatch) = Inr sampleBatch"
  by (rule batch_roundtrip [OF unaryArchive_laws samples_sized(2)])

end
