(* ===== verification/Hega_Crypto.thy ===== *)
theory Hega_Crypto
  imports Hega_Package
begin

text \<open>
  The two sides of the FHE context (\<open>include/proto2/crypto_context.h\<close>,
  \<open>crypto/crypto_context.cpp\<close>).  The scheme itself is the \<open>proto1\<close> runtime over OpenFHE, which
  is not part of the repository: it is a parameter of the model.  Encryption is randomised, so
  the n-th call of a run is a function of its own.  The laws that a property needs are
  hypotheses of that property.
\<close>

record 'ct Fhe =
  fhe_encrypt :: "nat \<Rightarrow> int list \<Rightarrow> 'ct"
  fhe_decrypt :: "'ct \<Rightarrow> nat \<Rightarrow> int list"
  fhe_serialize :: "'ct \<Rightarrow> byte list"
  fhe_deserializeWithSize :: "byte list \<Rightarrow> nat \<Rightarrow> 'ct result"
  fhe_logicalSize :: "'ct \<Rightarrow> u64"
  fhe_evalMult :: "'ct \<Rightarrow> 'ct \<Rightarrow> 'ct"
  fhe_slotCount :: nat
  fhe_paramSetId :: string

text \<open>\<open>ClientCryptoContext::encryptScalar\<close>: the value in every slot.\<close>

definition encryptScalar :: "'ct Fhe \<Rightarrow> nat \<Rightarrow> int \<Rightarrow> 'ct" where
  "encryptScalar F call v = fhe_encrypt F call (replicate (fhe_slotCount F) v)"

definition decryptVector :: "'ct Fhe \<Rightarrow> 'ct \<Rightarrow> nat \<Rightarrow> int list" where
  "decryptVector F ct len = fhe_decrypt F ct len"

text \<open>Loading the keys of a directory: each side calls its own loader of the library and wraps the
  context.\<close>

definition clientContextLoad :: "(string \<Rightarrow> 'c result) \<Rightarrow> string \<Rightarrow> 'c result" where
  "clientContextLoad loadClientContext dir = bindE (loadClientContext dir) (\<lambda>ctx. Inr ctx)"

definition serverContextLoad :: "(string \<Rightarrow> 'c result) \<Rightarrow> string \<Rightarrow> 'c result" where
  "serverContextLoad loadServerContext dir = bindE (loadServerContext dir) (\<lambda>ctx. Inr ctx)"

lemma contextLoad [simp]: "clientContextLoad f = f" "serverContextLoad f = f"
  by (simp_all add: fun_eq_iff clientContextLoad_def serverContextLoad_def bindE_def split: sum.split)

text \<open>Documented behaviour: a ciphertext survives serialization when it is loaded with its own size, and
  with fewer slots it decrypts on these as the original; the size of an encryption is the number of
  its values; and decrypting an encryption gives the slots back, for values in the documented range
  [0, 128].\<close>

definition fhe_wire_law :: "'ct Fhe \<Rightarrow> bool" where
  "fhe_wire_law F \<longleftrightarrow>
     (\<forall>ct. fhe_deserializeWithSize F (fhe_serialize F ct) (unat (fhe_logicalSize F ct)) = Inr ct)
     \<and> (\<forall>ct n. n \<le> fhe_slotCount F \<longrightarrow> (\<exists>ct'. fhe_deserializeWithSize F (fhe_serialize F ct) n = Inr ct'
          \<and> fhe_decrypt F ct' n = fhe_decrypt F ct n))
     \<and> (\<forall>ct. fhe_serialize F ct \<noteq> [])"

definition fhe_size_law :: "'ct Fhe \<Rightarrow> bool" where
  "fhe_size_law F \<longleftrightarrow> (\<forall>call vs. fhe_logicalSize F (fhe_encrypt F call vs) = of_nat (length vs))"

definition fhe_decrypt_law :: "'ct Fhe \<Rightarrow> bool" where
  "fhe_decrypt_law F \<longleftrightarrow>
     (\<forall>call vs n. length vs = fhe_slotCount F \<longrightarrow> n \<le> fhe_slotCount F \<longrightarrow>
        list_all (\<lambda>v. 0 \<le> v \<and> v \<le> 128) vs \<longrightarrow>
        fhe_decrypt F (fhe_encrypt F call vs) n = take n vs)"

text \<open>A scheme without secrecy that meets the laws: the ciphertext is the list of slots.\<close>

definition plainFhe :: "int list Fhe" where
  "plainFhe = \<lparr>fhe_encrypt = (\<lambda>_ vs. vs), fhe_decrypt = (\<lambda>ct n. take n ct),
     fhe_serialize = enc (vecC intC),
     fhe_deserializeWithSize = (\<lambda>s n. bindE (dec (vecC intC) s) (\<lambda>(ct, _). Inr ct)),
     fhe_logicalSize = (\<lambda>ct. of_nat (length ct)), fhe_evalMult = map2 (*),
     fhe_slotCount = 4, fhe_paramSetId = ''bfv-257-depth12''\<rparr>"

lemma plain_codec: "dec (vecC intC) (enc (vecC intC) ct) = Inr (ct, [])"
  using lawfulOn_dec [OF vec_lawful [OF unary_codecs(6)], of ct "[]"] by simp

lemma plain_wire: "fhe_deserializeWithSize plainFhe (fhe_serialize plainFhe ct) n = Inr ct"
  by (simp add: plainFhe_def plain_codec)

lemma plainFhe_laws: "fhe_wire_law plainFhe" "fhe_decrypt_law plainFhe"
  unfolding fhe_wire_law_def plain_wire
  by (simp_all add: fhe_decrypt_law_def plainFhe_def) (simp add: vecC_def unaryC_def enc_def)

lemma plainFhe_size: "fhe_size_law plainFhe"
  by (simp add: fhe_size_law_def plainFhe_def)

text \<open>All encryptions of scalars have one size.\<close>

definition scalarSizes :: "'ct Fhe \<Rightarrow> bool" where
  "scalarSizes F \<longleftrightarrow> (\<forall>call v call' v'. fhe_logicalSize F (encryptScalar F call v) = fhe_logicalSize F (encryptScalar F call' v'))"

lemma scalarSizesI: "fhe_size_law F \<Longrightarrow> scalarSizes F"
  by (simp add: fhe_size_law_def scalarSizes_def encryptScalar_def)

end
