(* ===== verification/Hega_Encryptor.thy ===== *)
theory Hega_Encryptor
  imports Hega_Planner Hega_Package Hega_Crypto
begin

text \<open>
  The query encryptor (\<open>include/proto2/query_encryptor.h\<close>, \<open>query/query_encryptor.cpp\<close>).
  \<open>buildPredNode\<close> walks the WHERE expression, pushes one node per operator into a flat array and
  one encrypted literal per integer or per character position of a string; its mutable
  arguments (the two vectors and the next literal id) are the fields of \<open>EncState\<close>, with the
  number of encryptions made so far.
\<close>

section \<open>Definitions\<close>

record EncState =
  es_nodes :: "PredNode list"
  es_literals :: "EncryptedLiteralEntry list"
  es_nextId :: u32
  es_calls :: nat

definition startState :: EncState where
  "startState = \<lparr>es_nodes = [], es_literals = [], es_nextId = 0, es_calls = 0\<rparr>"

text \<open>\<open>nodes.push_back(node); return static_cast<uint32_t>(nodes.size() - 1)\<close>.\<close>

definition pushNode :: "PredNode \<Rightarrow> EncState \<Rightarrow> u32 \<times> EncState" where
  "pushNode n st = (of_nat (length (es_nodes st)), st\<lparr>es_nodes := es_nodes st @ [n]\<rparr>)"

text \<open>Encrypt one value and append its entry under the next id.\<close>

definition pushLiteral :: "'ct Fhe \<Rightarrow> string \<Rightarrow> int \<Rightarrow> EncState \<Rightarrow> EncState" where
  "pushLiteral F logicalType v st =
     (let ct = encryptScalar F (es_calls st) v in
      st\<lparr>es_literals := es_literals st @
           [\<lparr>el_id = es_nextId st, el_logicalType = logicalType,
             el_ciphertextBytes = fhe_serialize F ct, el_logicalSize = fhe_logicalSize F ct\<rparr>],
         es_nextId := es_nextId st + 1, es_calls := es_calls st + 1\<rparr>)"

definition charAt :: "string \<Rightarrow> nat \<Rightarrow> int" where
  "charAt value position = (if position < length value then int (code (value ! position)) else 0)"

definition addEncryptedString ::
  "'ct Fhe \<Rightarrow> string \<Rightarrow> nat \<Rightarrow> EncState \<Rightarrow> u32 \<times> EncState" where
  "addEncryptedString F value maxLength st =
     (es_nextId st,
      fold (\<lambda>position. pushLiteral F ''STRING_CHAR'' (charAt value position)) [0..<maxLength] st)"

fun cmpNodeKind :: "CmpKind \<Rightarrow> PredNodeKind" where
  "cmpNodeKind Equal = PEqual"
| "cmpNodeKind NotEqual = PNotEqual"
| "cmpNodeKind GreaterThan = PGreaterThan"
| "cmpNodeKind LessThan = PLessThan"
| "cmpNodeKind GreaterEqual = PGreaterEqual"
| "cmpNodeKind LessEqual = PLessEqual"

definition stringNode :: "CmpKind \<Rightarrow> string \<Rightarrow> u32 \<Rightarrow> nat \<Rightarrow> PredNode" where
  "stringNode k name firstId width =
     emptyNode\<lparr>pn_kind := (if k = Equal then PStringEqual else PStringNotEqual),
               pn_columnName := name, pn_literalId := firstId, pn_stringWidth := of_nat width\<rparr>"

definition stringComparison :: "ASTExpr \<Rightarrow> ASTExpr \<Rightarrow> bool" where
  "stringComparison l r \<longleftrightarrow> (isColumn l \<and> isString r) \<or> (isString l \<and> isColumn r)"

fun buildPredNode ::
  "'ct Fhe \<Rightarrow> TableSchema \<Rightarrow> ASTExpr \<Rightarrow> EncState \<Rightarrow> (u32 \<times> EncState) result" where
  "buildPredNode F schema (ColumnRef n) st =
     Inr (pushNode (emptyNode\<lparr>pn_kind := PColumnRef, pn_columnName := n\<rparr>) st)"
| "buildPredNode F schema (IntLiteral v) st =
     (let st1 = pushLiteral F ''INT64'' v st in
      Inr (pushNode (emptyNode\<lparr>pn_kind := PLiteralRef, pn_literalId := es_nextId st1 - 1\<rparr>) st1))"
| "buildPredNode F schema (StringLiteral s) st =
     Inl (RuntimeError ''QueryEncryptor: string literal must be used in a comparison'')"
| "buildPredNode F schema (Comparison k l r) st =
     (if stringComparison l r
      then (let column' = (if isColumn l then l else r); literal = (if isString l then l else r) in
            bindE (column schema (bareName (columnNameOf column'))) (\<lambda>cs.
              let (firstId, st1) = addEncryptedString F (stringValueOf literal) (cs_maxLength cs) st in
              Inr (pushNode (stringNode k (columnNameOf column') firstId (cs_maxLength cs)) st1)))
      else bindE (buildPredNode F schema l st) (\<lambda>(li, st1).
           bindE (buildPredNode F schema r st1) (\<lambda>(ri, st2).
             Inr (pushNode (emptyNode\<lparr>pn_left := li, pn_right := ri, pn_kind := cmpNodeKind k\<rparr>) st2))))"
| "buildPredNode F schema (And l r) st =
     bindE (buildPredNode F schema l st) (\<lambda>(li, st1).
     bindE (buildPredNode F schema r st1) (\<lambda>(ri, st2).
       Inr (pushNode (emptyNode\<lparr>pn_left := li, pn_right := ri, pn_kind := PAnd\<rparr>) st2)))"
| "buildPredNode F schema (Or l r) st =
     bindE (buildPredNode F schema l st) (\<lambda>(li, st1).
     bindE (buildPredNode F schema r st1) (\<lambda>(ri, st2).
       Inr (pushNode (emptyNode\<lparr>pn_left := li, pn_right := ri, pn_kind := POr\<rparr>) st2)))"
| "buildPredNode F schema (NotExpr e) st =
     bindE (buildPredNode F schema e st) (\<lambda>(li, st1).
       Inr (pushNode (emptyNode\<lparr>pn_left := li, pn_kind := PNot\<rparr>) st1))"

text \<open>The WHERE part of both \<open>encrypt\<close> methods.\<close>

definition encryptWhere :: "'ct Fhe \<Rightarrow> TableSchema \<Rightarrow> ASTExpr option \<Rightarrow> EncState result" where
  "encryptWhere F schema w =
     (case w of None \<Rightarrow> Inr startState
      | Some e \<Rightarrow> bindE (buildPredNode F schema e startState) (\<lambda>(_, st). Inr st))"

definition packageOf ::
  "PhysicalPlan \<Rightarrow> FHEParamsMeta \<Rightarrow> ColumnSchema list \<Rightarrow> EncState \<Rightarrow> QueryPackage" where
  "packageOf plan meta resultSchema st =
     \<lparr>pk_queryId = [], pk_protocolVersion = 2, pk_schemaVersion = 1,
      pk_tableName = pp_tableName plan, pk_tableAlias = pp_tableAlias plan,
      pk_joinedTableName = pp_joinedTableName plan, pk_joinedTableAlias = pp_joinedTableAlias plan,
      pk_joinLeftColumn = pp_joinLeftColumn plan, pk_joinRightColumn = pp_joinRightColumn plan,
      pk_hasJoin = pp_hasJoin plan, pk_scanColumns = pp_scanColumns plan,
      pk_projectColumns = pp_projectColumns plan, pk_resultSchema = resultSchema,
      pk_predicateNodes = es_nodes st, pk_encryptedLiterals = es_literals st,
      pk_fheParams = meta, pk_shardId = 0, pk_partitionId = 0\<rparr>"

text \<open>The overload with one table schema.\<close>

definition encryptSchema ::
  "'ct Fhe \<Rightarrow> SelectStatement \<Rightarrow> PhysicalPlan \<Rightarrow> TableSchema \<Rightarrow> FHEParamsMeta \<Rightarrow> QueryPackage result" where
  "encryptSchema F stmt plan schema meta =
     bindE (mapE (\<lambda>col. column schema (bareName col)) (pp_projectColumns plan)) (\<lambda>rs.
     bindE (encryptWhere F schema (st_whereClause stmt)) (\<lambda>st.
       Inr (packageOf plan meta rs st)))"

text \<open>The overload with the catalog, which the client calls.\<close>

definition resultColumn :: "PhysicalPlan \<Rightarrow> Catalog \<Rightarrow> string \<Rightarrow> ColumnSchema result" where
  "resultColumn plan cat name =
     bindE (getTable cat (if qualifier (pp_tableAlias plan) name = pp_tableAlias plan
                          then pp_tableName plan else pp_joinedTableName plan)) (\<lambda>t.
     bindE (column t (bareName name)) (\<lambda>cs.
       Inr \<lparr>cs_name = name, cs_type = cs_type cs, cs_maxLength = cs_maxLength cs\<rparr>))"

definition encryptCatalog ::
  "'ct Fhe \<Rightarrow> SelectStatement \<Rightarrow> PhysicalPlan \<Rightarrow> Catalog \<Rightarrow> FHEParamsMeta \<Rightarrow> QueryPackage result" where
  "encryptCatalog F stmt plan cat meta =
     bindE (mapE (resultColumn plan cat) (pp_projectColumns plan)) (\<lambda>rs.
     bindE (case st_whereClause stmt of None \<Rightarrow> Inr startState
            | Some e \<Rightarrow> bindE (getTable cat (pp_tableName plan)) (\<lambda>t. encryptWhere F t (Some e))) (\<lambda>st.
       Inr (packageOf plan meta rs st)))"

section \<open>What a package says\<close>

text \<open>\<open>represents F schema nodes lits i e\<close>: the tree below node \<open>i\<close> is the expression \<open>e\<close>, with the
  encryptions of its literals.  Children stand before their parents.\<close>

definition holdsValue :: "'ct Fhe \<Rightarrow> EncryptedLiteralEntry list \<Rightarrow> u32 \<Rightarrow> string \<Rightarrow> int \<Rightarrow> bool" where
  "holdsValue F lits i ty v \<longleftrightarrow>
     unat i < length lits \<and> el_logicalType (lits ! unat i) = ty
     \<and> (\<exists>call. el_ciphertextBytes (lits ! unat i) = fhe_serialize F (encryptScalar F call v)
             \<and> el_logicalSize (lits ! unat i) = fhe_logicalSize F (encryptScalar F call v))"

definition nodeAt :: "PredNode list \<Rightarrow> u32 \<Rightarrow> PredNode \<Rightarrow> bool" where
  "nodeAt nodes i n \<longleftrightarrow> unat i < length nodes \<and> nodes ! unat i = n"

inductive represents ::
  "'ct Fhe \<Rightarrow> TableSchema \<Rightarrow> PredNode list \<Rightarrow> EncryptedLiteralEntry list \<Rightarrow> u32 \<Rightarrow> ASTExpr \<Rightarrow> bool"
  for F schema nodes lits where
  column: "nodeAt nodes i (emptyNode\<lparr>pn_kind := PColumnRef, pn_columnName := n\<rparr>) \<Longrightarrow>
     represents F schema nodes lits i (ColumnRef n)"
| literal: "nodeAt nodes i (emptyNode\<lparr>pn_kind := PLiteralRef, pn_literalId := lid\<rparr>) \<Longrightarrow>
     holdsValue F lits lid ''INT64'' v \<Longrightarrow> represents F schema nodes lits i (IntLiteral v)"
| stringL: "nodeAt nodes i (stringNode k n firstId (cs_maxLength cs)) \<Longrightarrow>
     column schema (bareName n) = Inr cs \<Longrightarrow>
     (\<And>p. p < cs_maxLength cs \<Longrightarrow> holdsValue F lits (firstId + of_nat p) ''STRING_CHAR'' (charAt x p)) \<Longrightarrow>
     represents F schema nodes lits i (Comparison k (ColumnRef n) (StringLiteral x))"
| stringR: "nodeAt nodes i (stringNode k n firstId (cs_maxLength cs)) \<Longrightarrow>
     column schema (bareName n) = Inr cs \<Longrightarrow>
     (\<And>p. p < cs_maxLength cs \<Longrightarrow> holdsValue F lits (firstId + of_nat p) ''STRING_CHAR'' (charAt x p)) \<Longrightarrow>
     represents F schema nodes lits i (Comparison k (StringLiteral x) (ColumnRef n))"
| comparison: "nodeAt nodes i (emptyNode\<lparr>pn_left := li, pn_right := ri, pn_kind := cmpNodeKind k\<rparr>) \<Longrightarrow>
     li < i \<Longrightarrow> ri < i \<Longrightarrow> \<not> stringComparison l r \<Longrightarrow>
     represents F schema nodes lits li l \<Longrightarrow> represents F schema nodes lits ri r \<Longrightarrow>
     represents F schema nodes lits i (Comparison k l r)"
| conj: "nodeAt nodes i (emptyNode\<lparr>pn_left := li, pn_right := ri, pn_kind := PAnd\<rparr>) \<Longrightarrow>
     li < i \<Longrightarrow> ri < i \<Longrightarrow>
     represents F schema nodes lits li l \<Longrightarrow> represents F schema nodes lits ri r \<Longrightarrow>
     represents F schema nodes lits i (And l r)"
| disj: "nodeAt nodes i (emptyNode\<lparr>pn_left := li, pn_right := ri, pn_kind := POr\<rparr>) \<Longrightarrow>
     li < i \<Longrightarrow> ri < i \<Longrightarrow>
     represents F schema nodes lits li l \<Longrightarrow> represents F schema nodes lits ri r \<Longrightarrow>
     represents F schema nodes lits i (Or l r)"
| neg: "nodeAt nodes i (emptyNode\<lparr>pn_left := li, pn_kind := PNot\<rparr>) \<Longrightarrow>
     li < i \<Longrightarrow> represents F schema nodes lits li e \<Longrightarrow>
     represents F schema nodes lits i (NotExpr e)"


section \<open>The builder's state\<close>

text \<open>Literal ids count the entries; both vectors only grow and fit the 32-bit indices.\<close>

definition idsOk :: "EncState \<Rightarrow> bool" where
  "idsOk st \<longleftrightarrow> es_nextId st = of_nat (length (es_literals st))
     \<and> (\<forall>k < length (es_literals st). el_id (es_literals st ! k) = of_nat k)"

definition grows :: "EncState \<Rightarrow> EncState \<Rightarrow> bool" where
  "grows st st' \<longleftrightarrow> (\<exists>ns ls. es_nodes st' = es_nodes st @ ns \<and> es_literals st' = es_literals st @ ls)"

definition fits :: "EncState \<Rightarrow> bool" where
  "fits st \<longleftrightarrow> length (es_nodes st) < 2 ^ 32 \<and> length (es_literals st) < 2 ^ 32"

lemma grows_refl [simp]: "grows st st"
  by (simp add: grows_def)

lemma grows_trans: "grows a b \<Longrightarrow> grows b c \<Longrightarrow> grows a c"
  by (auto simp: grows_def)

lemma fits_grows: "fits st' \<Longrightarrow> grows st st' \<Longrightarrow> fits st"
  by (auto simp: fits_def grows_def)

lemma u32_index: "n < 2 ^ 32 \<Longrightarrow> unat (of_nat n :: u32) = n"
  by (simp add: unsigned_of_nat take_bit_nat_eq_self)

lemma u32_less: "m < n \<Longrightarrow> n < 2 ^ 32 \<Longrightarrow> (of_nat m :: u32) < of_nat n"
  by (simp add: word_less_nat_alt u32_index)

lemma pushNode_state:
  assumes "pushNode n st = (i, st')"
  shows "grows st st'" "idsOk st \<Longrightarrow> idsOk st'" "es_literals st' = es_literals st"
    "i = of_nat (length (es_nodes st))" "es_nodes st' = es_nodes st @ [n]"
    "fits st' \<Longrightarrow> nodeAt (es_nodes st') i n"
  using assms by (auto simp: pushNode_def grows_def idsOk_def nodeAt_def fits_def u32_index)

lemma pushLiteral_state:
  shows "grows st (pushLiteral F ty v st)" "idsOk st \<Longrightarrow> idsOk (pushLiteral F ty v st)"
    "es_nodes (pushLiteral F ty v st) = es_nodes st"
    "es_nextId (pushLiteral F ty v st) = es_nextId st + 1"
    "length (es_literals (pushLiteral F ty v st)) = Suc (length (es_literals st))"
  by (auto simp: pushLiteral_def grows_def idsOk_def Let_def nth_append less_Suc_eq)

lemma pushLiteral_holds:
  "idsOk st \<Longrightarrow> fits (pushLiteral F ty v st) \<Longrightarrow>
   holdsValue F (es_literals (pushLiteral F ty v st)) (es_nextId st) ty v"
  by (auto simp: pushLiteral_def idsOk_def fits_def holdsValue_def Let_def u32_index)

lemma holdsValue_mono: "holdsValue F lits i ty v \<Longrightarrow> holdsValue F (lits @ ls) i ty v"
  by (auto simp: holdsValue_def nth_append)

lemma nodeAt_mono: "nodeAt nodes i n \<Longrightarrow> nodeAt (nodes @ ns) i n"
  by (auto simp: nodeAt_def nth_append)

lemma represents_append:
  "represents F schema nodes lits i e \<Longrightarrow> represents F schema (nodes @ ns) (lits @ ls) i e"
proof (induction rule: represents.induct)
  case (column i n)
  then show ?case by (intro represents.column nodeAt_mono)
next
  case (literal i lid v)
  then show ?case by (intro represents.literal nodeAt_mono holdsValue_mono)
next
  case (stringL i k n firstId cs x)
  then show ?case by (intro represents.stringL nodeAt_mono holdsValue_mono)
next
  case (stringR i k n firstId cs x)
  then show ?case by (intro represents.stringR nodeAt_mono holdsValue_mono)
next
  case (comparison i li ri k l r)
  then show ?case by (intro represents.comparison nodeAt_mono)
next
  case (conj i li ri l r)
  then show ?case by (intro represents.conj nodeAt_mono)
next
  case (disj i li ri l r)
  then show ?case by (intro represents.disj nodeAt_mono)
next
  case (neg i li e)
  then show ?case by (intro represents.neg nodeAt_mono)
qed

lemma represents_mono:
  "represents F schema (es_nodes st) (es_literals st) i e \<Longrightarrow> grows st st' \<Longrightarrow>
   represents F schema (es_nodes st') (es_literals st') i e"
  by (auto simp: grows_def intro: represents_append)

text \<open>The characters of a string.\<close>

lemma pushChars:
  fixes F :: "'ct Fhe" and x :: string
  defines "push w st \<equiv> fold (\<lambda>p. pushLiteral F ''STRING_CHAR'' (charAt x p)) [0..<w] st"
  assumes "idsOk st"
  shows "grows st (push w st) \<and> idsOk (push w st) \<and> es_nodes (push w st) = es_nodes st
     \<and> es_nextId (push w st) = es_nextId st + of_nat w
     \<and> length (es_literals (push w st)) = length (es_literals st) + w
     \<and> (fits (push w st) \<longrightarrow> (\<forall>p < w. holdsValue F (es_literals (push w st)) (es_nextId st + of_nat p)
                                   ''STRING_CHAR'' (charAt x p)))"
proof (induction w)
  case 0
  with assms show ?case by simp
next
  case (Suc w)
  let ?l = "pushLiteral F ''STRING_CHAR'' (charAt x w) (push w st)"
  have e: "push (Suc w) st = ?l" by (simp add: push_def)
  have g: "grows (push w st) ?l" by (rule pushLiteral_state)
  have "holdsValue F (es_literals ?l) (es_nextId st + of_nat p) ''STRING_CHAR'' (charAt x p)"
    if f: "fits ?l" and p: "p < Suc w" for p
  proof (cases "p = w")
    case True
    then show ?thesis using pushLiteral_holds [OF _ f] Suc by simp
  next
    case False
    with p Suc fits_grows [OF f g]
    have "holdsValue F (es_literals (push w st)) (es_nextId st + of_nat p) ''STRING_CHAR'' (charAt x p)"
      by simp
    with g show ?thesis by (auto simp: grows_def intro: holdsValue_mono)
  qed
  with Suc g show ?case
    unfolding e by (auto simp: pushLiteral_state intro: grows_trans)
qed

lemma addEncryptedString_state:
  assumes "addEncryptedString F x w st = (firstId, st')" "idsOk st"
  shows "grows st st'" "idsOk st'" "es_nodes st' = es_nodes st"
    "length (es_literals st') = length (es_literals st) + w" "firstId = es_nextId st"
    "fits st' \<Longrightarrow> p < w \<Longrightarrow> holdsValue F (es_literals st') (firstId + of_nat p) ''STRING_CHAR'' (charAt x p)"
  using pushChars [OF assms(2), of F x w] assms(1) by (auto simp: addEncryptedString_def)

section \<open>The builder builds what the expression says\<close>

definition builds :: "'ct Fhe \<Rightarrow> TableSchema \<Rightarrow> ASTExpr \<Rightarrow> EncState \<Rightarrow> u32 \<Rightarrow> EncState \<Rightarrow> bool" where
  "builds F schema e st i st' \<longleftrightarrow>
     grows st st' \<and> idsOk st' \<and> length (es_nodes st) < length (es_nodes st')
     \<and> i = of_nat (length (es_nodes st') - 1)
     \<and> (fits st' \<longrightarrow> represents F schema (es_nodes st') (es_literals st') i e)"

lemma builds_push:
  assumes p: "pushNode n st1 = (i, st')" and g: "grows st st1" "idsOk st1"
    and r: "nodeAt (es_nodes st') i n \<Longrightarrow> fits st' \<Longrightarrow> represents F schema (es_nodes st') (es_literals st') i e"
  shows "builds F schema e st i st'"
proof -
  note s = pushNode_state [OF p]
  have "length (es_nodes st) < length (es_nodes st')"
    using g(1) s(5) by (auto simp: grows_def)
  with s g r show ?thesis
    by (auto simp: builds_def intro: grows_trans)
qed

text \<open>A child built before the parent stays where it is and has a smaller index.\<close>

lemma child_in_place:
  assumes b: "builds F schema e st li st1" and g: "grows st1 st2" and p: "pushNode n st2 = (i, st')"
    and f: "fits st'"
  shows "represents F schema (es_nodes st') (es_literals st') li e" "li < i"
proof -
  from g pushNode_state(1) [OF p] have g': "grows st1 st'" by (rule grows_trans)
  with b f have "represents F schema (es_nodes st1) (es_literals st1) li e"
    using fits_grows by (auto simp: builds_def)
  then show "represents F schema (es_nodes st') (es_literals st') li e" using g' by (rule represents_mono)
  have "length (es_nodes st1) \<le> length (es_nodes st2)" using g by (auto simp: grows_def)
  moreover have "length (es_nodes st2) < 2 ^ 32" "i = of_nat (length (es_nodes st2))"
    using f pushNode_state(4,5) [OF p] by (simp_all add: fits_def)
  moreover have "li = of_nat (length (es_nodes st1) - 1)"
    "length (es_nodes st) < length (es_nodes st1)"
    using b by (auto simp only: builds_def)
  ultimately show "li < i" by (simp only:) (rule u32_less, linarith+)
qed

lemma builds_binary:
  assumes l: "builds F schema a st li st1" and r: "builds F schema b st1 ri st2"
    and p: "pushNode n st2 = (i, st')"
    and node: "\<And>nodes lits. nodeAt nodes i n \<Longrightarrow> li < i \<Longrightarrow> ri < i \<Longrightarrow>
       represents F schema nodes lits li a \<Longrightarrow> represents F schema nodes lits ri b \<Longrightarrow>
       represents F schema nodes lits i e"
  shows "builds F schema e st i st'"
proof (rule builds_push [OF p])
  show "grows st st2" "idsOk st2" using l r by (auto simp: builds_def intro: grows_trans)
  have "grows st1 st2" using r by (simp add: builds_def)
  then show "represents F schema (es_nodes st') (es_literals st') i e"
    if "nodeAt (es_nodes st') i n" "fits st'"
    using that child_in_place [OF l _ p] child_in_place [OF r _ p] node by auto
qed

lemma builds_string:
  assumes k: "stringComparison l r" and st: "idsOk st"
    and b: "buildPredNode F schema (Comparison k l r) st = Inr (i, st')"
  shows "builds F schema (Comparison k l r) st i st'"
proof -
  obtain n x where e: "l = ColumnRef n \<and> r = StringLiteral x \<or> l = StringLiteral x \<and> r = ColumnRef n"
    using k by (cases l; cases r) (auto simp: stringComparison_def)
  with b k have "bindE (column schema (bareName n)) (\<lambda>cs.
      let (firstId, st1) = addEncryptedString F x (cs_maxLength cs) st in
      Inr (pushNode (stringNode k n firstId (cs_maxLength cs)) st1)) = Inr (i, st')"
    by (elim disjE) simp_all
  then obtain cs where cs: "column schema (bareName n) = Inr cs" and
    h: "(let (firstId, st1) = addEncryptedString F x (cs_maxLength cs) st in
      Inr (pushNode (stringNode k n firstId (cs_maxLength cs)) st1)) = (Inr (i, st') :: _ result)"
    unfolding bindE_eq_Inr by blast
  obtain firstId st1 where a: "addEncryptedString F x (cs_maxLength cs) st = (firstId, st1)"
    by (cases "addEncryptedString F x (cs_maxLength cs) st")
  with h have p: "pushNode (stringNode k n firstId (cs_maxLength cs)) st1 = (i, st')" by simp
  note s = addEncryptedString_state [OF a st]
  show ?thesis
  proof (rule builds_push [OF p])
    assume n: "nodeAt (es_nodes st') i (stringNode k n firstId (cs_maxLength cs))" and f: "fits st'"
    have "fits st1" using f pushNode_state(1) [OF p] by (rule fits_grows)
    then have "holdsValue F (es_literals st') (firstId + of_nat q) ''STRING_CHAR'' (charAt x q)"
      if "q < cs_maxLength cs" for q
      using s(6) that pushNode_state(3) [OF p] by simp
    with e n cs show "represents F schema (es_nodes st') (es_literals st') i (Comparison k l r)"
      by (auto intro: represents.stringL represents.stringR)
  qed (use s in simp_all)
qed

lemma buildPredNode_builds:
  "buildPredNode F schema e st = Inr (i, st') \<Longrightarrow> idsOk st \<Longrightarrow> builds F schema e st i st'"
proof (induction e arbitrary: st i st')
  case (ColumnRef n)
  then show ?case by (auto intro!: builds_push intro: represents.column)
next
  case (IntLiteral v)
  let ?st1 = "pushLiteral F ''INT64'' v st"
  from IntLiteral.prems(1) have p: "pushNode (emptyNode\<lparr>pn_kind := PLiteralRef, pn_literalId := es_nextId st\<rparr>) ?st1 = (i, st')"
    by (simp add: Let_def pushLiteral_state)
  show ?case
  proof (rule builds_push [OF p])
    assume "nodeAt (es_nodes st') i (emptyNode\<lparr>pn_kind := PLiteralRef, pn_literalId := es_nextId st\<rparr>)"
      and "fits st'"
    then show "represents F schema (es_nodes st') (es_literals st') i (IntLiteral v)"
      using pushLiteral_holds [OF IntLiteral.prems(2)] fits_grows pushNode_state(1,3) [OF p]
      by (metis represents.literal)
  qed (use IntLiteral.prems(2) in \<open>simp_all add: pushLiteral_state\<close>)
next
  case (StringLiteral x)
  then show ?case by simp
next
  case (Comparison k l r)
  show ?case
  proof (cases "stringComparison l r")
    case True
    then show ?thesis using Comparison.prems by (intro builds_string)
  next
    case False
    with Comparison.prems(1) obtain li st1 ri st2 where
      b: "buildPredNode F schema l st = Inr (li, st1)" "buildPredNode F schema r st1 = Inr (ri, st2)"
      and p: "pushNode (emptyNode\<lparr>pn_left := li, pn_right := ri, pn_kind := cmpNodeKind k\<rparr>) st2 = (i, st')"
      by (auto simp: bindE_eq_Inr)
    note L = Comparison.IH(1) [OF b(1) Comparison.prems(2)]
    have "idsOk st1" using L by (simp add: builds_def)
    note R = Comparison.IH(2) [OF b(2) this]
    show ?thesis using False by (intro builds_binary [OF L R p] represents.comparison)
  qed
next
  case (And l r)
  then obtain li st1 ri st2 where
    b: "buildPredNode F schema l st = Inr (li, st1)" "buildPredNode F schema r st1 = Inr (ri, st2)"
    and p: "pushNode (emptyNode\<lparr>pn_left := li, pn_right := ri, pn_kind := PAnd\<rparr>) st2 = (i, st')"
    by (auto simp: bindE_eq_Inr)
  note L = And.IH(1) [OF b(1) And.prems(2)]
  have "idsOk st1" using L by (simp add: builds_def)
  note R = And.IH(2) [OF b(2) this]
  show ?case by (intro builds_binary [OF L R p] represents.conj)
next
  case (Or l r)
  then obtain li st1 ri st2 where
    b: "buildPredNode F schema l st = Inr (li, st1)" "buildPredNode F schema r st1 = Inr (ri, st2)"
    and p: "pushNode (emptyNode\<lparr>pn_left := li, pn_right := ri, pn_kind := POr\<rparr>) st2 = (i, st')"
    by (auto simp: bindE_eq_Inr)
  note L = Or.IH(1) [OF b(1) Or.prems(2)]
  have "idsOk st1" using L by (simp add: builds_def)
  note R = Or.IH(2) [OF b(2) this]
  show ?case by (intro builds_binary [OF L R p] represents.disj)
next
  case (NotExpr e)
  then obtain li st1 where b: "buildPredNode F schema e st = Inr (li, st1)"
    and p: "pushNode (emptyNode\<lparr>pn_left := li, pn_kind := PNot\<rparr>) st1 = (i, st')"
    by (auto simp: bindE_eq_Inr)
  note L = NotExpr.IH [OF b NotExpr.prems(2)]
  show ?case
  proof (rule builds_push [OF p])
    show "represents F schema (es_nodes st') (es_literals st') i (NotExpr e)"
      if "nodeAt (es_nodes st') i (emptyNode\<lparr>pn_left := li, pn_kind := PNot\<rparr>)" "fits st'"
      using that child_in_place [OF L grows_refl p] by (auto intro: represents.neg)
  qed (use L in \<open>simp_all add: builds_def\<close>)
qed


lemma startState_ok [simp]: "idsOk startState" "es_nodes startState = []"
  by (simp_all add: idsOk_def startState_def)

lemma encryptWhere_builds:
  assumes "encryptWhere F schema (Some e) = Inr st"
  shows "\<exists>i. builds F schema e startState i st"
  using assms buildPredNode_builds [OF _ startState_ok(1)]
  by (fastforce simp: encryptWhere_def bindE_eq_Inr)

lemma encryptCatalog_where:
  assumes "encryptCatalog F stmt plan cat meta = Inr pkg" "st_whereClause stmt = Some e"
  obtains t st rs where "cat_tables cat (pp_tableName plan) = Some t"
    "encryptWhere F t (Some e) = Inr st" "pkg = packageOf plan meta rs st"
  using assms by (auto simp: encryptCatalog_def bindE_eq_Inr)

text \<open>Two expressions of the same shape: equal but for the values of their literals.\<close>

fun sameShape :: "ASTExpr \<Rightarrow> ASTExpr \<Rightarrow> bool" where
  "sameShape (ColumnRef n) (ColumnRef m) \<longleftrightarrow> n = m"
| "sameShape (IntLiteral i) (IntLiteral j) \<longleftrightarrow> True"
| "sameShape (StringLiteral x) (StringLiteral y) \<longleftrightarrow> True"
| "sameShape (Comparison k l r) (Comparison k' l' r') \<longleftrightarrow> k = k' \<and> sameShape l l' \<and> sameShape r r'"
| "sameShape (And l r) (And l' r') \<longleftrightarrow> sameShape l l' \<and> sameShape r r'"
| "sameShape (Or l r) (Or l' r') \<longleftrightarrow> sameShape l l' \<and> sameShape r r'"
| "sameShape (NotExpr e) (NotExpr e') \<longleftrightarrow> sameShape e e'"
| "sameShape _ _ \<longleftrightarrow> False"

text \<open>What is left of a package without the contents of its ciphertexts.\<close>

definition eraseLiteral :: "EncryptedLiteralEntry \<Rightarrow> u32 \<times> string \<times> u64" where
  "eraseLiteral l = (el_id l, el_logicalType l, el_logicalSize l)"

definition visible :: "EncState \<Rightarrow> PredNode list \<times> (u32 \<times> string \<times> u64) list \<times> u32 \<times> nat" where
  "visible st = (es_nodes st, map eraseLiteral (es_literals st), es_nextId st, es_calls st)"

lemma visible_push:
  assumes "visible st = visible st'"
  shows "fst (pushNode n st) = fst (pushNode n st')" "visible (snd (pushNode n st)) = visible (snd (pushNode n st'))"
    "scalarSizes F \<Longrightarrow> visible (pushLiteral F ty v st) = visible (pushLiteral F ty w st')"
  using assms unfolding scalarSizes_def by (auto simp: visible_def pushNode_def pushLiteral_def eraseLiteral_def Let_def)

lemma visible_nextId: "visible st = visible st' \<Longrightarrow> es_nextId st = es_nextId st'"
  by (simp add: visible_def)

lemma visible_string:
  assumes "visible st = visible st'" "scalarSizes F"
  shows "fst (addEncryptedString F x w st) = fst (addEncryptedString F y w st')"
    "visible (snd (addEncryptedString F x w st)) = visible (snd (addEncryptedString F y w st'))"
proof -
  have "visible (fold (\<lambda>p. pushLiteral F ''STRING_CHAR'' (charAt x p)) ps st)
      = visible (fold (\<lambda>p. pushLiteral F ''STRING_CHAR'' (charAt y p)) ps st')" for ps
    using assms(1)
  proof (induction ps arbitrary: st st')
    case (Cons p ps)
    show ?case using Cons.IH [OF visible_push(3) [OF Cons.prems assms(2)]] by simp
  qed simp
  then show "visible (snd (addEncryptedString F x w st)) = visible (snd (addEncryptedString F y w st'))"
    by (simp add: addEncryptedString_def)
qed (use assms in \<open>simp add: addEncryptedString_def visible_def\<close>)

text \<open>Two runs of the builder agree on the outcome, the index and everything visible.\<close>

definition agree :: "(u32 \<times> EncState) result \<Rightarrow> (u32 \<times> EncState) result \<Rightarrow> bool" where
  "agree a b \<longleftrightarrow> (case (a, b) of (Inl e, Inl e') \<Rightarrow> e = e'
     | (Inr (i, st), Inr (j, st')) \<Rightarrow> i = j \<and> visible st = visible st' | _ \<Rightarrow> False)"

lemma agree_bind:
  "agree m m' \<Longrightarrow> (\<And>i st st'. visible st = visible st' \<Longrightarrow> agree (f (i, st)) (f' (i, st'))) \<Longrightarrow>
   agree (bindE m f) (bindE m' f')"
  by (cases m; cases m') (auto simp: agree_def)

lemma agree_push: "visible st = visible st' \<Longrightarrow> agree (Inr (pushNode n st)) (Inr (pushNode n st'))"
  using visible_push(1,2) [of st st' n] by (auto simp: agree_def split: prod.splits)

lemma sameShape_kinds:
  "sameShape l l' \<Longrightarrow> isColumn l = isColumn l' \<and> isString l = isString l' \<and> columnNameOf l = columnNameOf l'"
  by (cases "(l, l')" rule: sameShape.cases) auto

lemma agree_binary:
  assumes "agree (bl st) (bl' st')" "\<And>s s'. visible s = visible s' \<Longrightarrow> agree (br s) (br' s')"
  shows "agree (bindE (bl st) (\<lambda>(li, st1). bindE (br st1) (\<lambda>(ri, st2). Inr (pushNode (node li ri) st2))))
    (bindE (bl' st') (\<lambda>(li, st1). bindE (br' st1) (\<lambda>(ri, st2). Inr (pushNode (node li ri) st2))))"
  using assms by (intro agree_bind) (auto intro!: agree_bind agree_push)

lemma agree_string:
  assumes "visible st = visible st'" "scalarSizes F"
  shows "agree (bindE m (\<lambda>cs. let (i, s1) = addEncryptedString F x (cs_maxLength cs) st in
                  Inr (pushNode (stringNode k n i (cs_maxLength cs)) s1)))
    (bindE m (\<lambda>cs. let (i, s1) = addEncryptedString F y (cs_maxLength cs) st' in
                  Inr (pushNode (stringNode k n i (cs_maxLength cs)) s1)))"
proof (cases m)
  case (Inr cs)
  obtain i s1 where s1: "addEncryptedString F x (cs_maxLength cs) st = (i, s1)"
    by (cases "addEncryptedString F x (cs_maxLength cs) st")
  obtain j s2 where s2: "addEncryptedString F y (cs_maxLength cs) st' = (j, s2)"
    by (cases "addEncryptedString F y (cs_maxLength cs) st'")
  have "i = j" "visible s1 = visible s2"
    using visible_string [OF assms, of x "cs_maxLength cs" y] s1 s2 by simp_all
  with s1 s2 Inr show ?thesis by (simp add: agree_push)
qed (simp add: agree_def)

lemma buildPredNode_agree:
  "sameShape e e' \<Longrightarrow> scalarSizes F \<Longrightarrow> visible st = visible st' \<Longrightarrow>
   agree (buildPredNode F schema e st) (buildPredNode F schema e' st')"
proof (induction e e' arbitrary: st st' rule: sameShape.induct)
  case (1 n m)
  then show ?case by (simp add: agree_push)
next
  case (2 i j)
  have "visible (pushLiteral F ''INT64'' i st) = visible (pushLiteral F ''INT64'' j st')"
    using 2(3,2) by (rule visible_push(3))
  moreover from this have "es_nextId (pushLiteral F ''INT64'' i st) = es_nextId (pushLiteral F ''INT64'' j st')"
    by (rule visible_nextId)
  ultimately show ?case by (simp add: Let_def agree_push)
next
  case (3 x y)
  then show ?case by (simp add: agree_def)
next
  case (4 k l r k' l' r')
  from "4.prems"(1) have sh: "k' = k" "sameShape l l'" "sameShape r r'" by simp_all
  note kinds = sameShape_kinds [OF sh(2)] sameShape_kinds [OF sh(3)]
  have sc: "stringComparison l' r' = stringComparison l r" using kinds by (simp add: stringComparison_def)
  have n: "columnNameOf (if isColumn l' then l' else r') = columnNameOf (if isColumn l then l else r)"
    using kinds by simp
  show ?case
  proof (cases "stringComparison l r")
    case True
    then show ?thesis
      unfolding buildPredNode.simps Let_def sc n sh(1) if_P [OF True]
      by (intro agree_string [unfolded Let_def] "4.prems"(2,3))
  next
    case False
    show ?thesis
      unfolding buildPredNode.simps sc sh(1) if_not_P [OF False]
      by (intro agree_binary "4.IH" sh "4.prems"(2,3))
  qed
next
  case (5 l r l' r')
  then show ?case unfolding buildPredNode.simps by (intro agree_binary) simp_all
next
  case (6 l r l' r')
  then show ?case unfolding buildPredNode.simps by (intro agree_binary) simp_all
next
  case (7 e e')
  then show ?case unfolding buildPredNode.simps by (intro agree_bind) (auto intro!: agree_push)
qed simp_all

lemma encryptWhere_visible:
  assumes "sameShape e e'" "encryptWhere F schema (Some e) = Inr st" "scalarSizes F"
  shows "\<exists>st'. encryptWhere F schema (Some e') = Inr st' \<and> visible st' = visible st"
  using buildPredNode_agree [OF assms(1,3) refl, where schema = schema and st = startState] assms(2)
  by (cases "buildPredNode F schema e' startState")
    (auto simp: encryptWhere_def bindE_eq_Inr agree_def)

definition erasePackage :: "QueryPackage \<Rightarrow> QueryPackage \<times> (u32 \<times> string \<times> u64) list" where
  "erasePackage p = (p\<lparr>pk_encryptedLiterals := []\<rparr>, map eraseLiteral (pk_encryptedLiterals p))"

lemma encrypted_represents:
  assumes "encryptCatalog F stmt plan cat meta = Inr pkg" "st_whereClause stmt = Some e"
    and "cat_tables cat (pp_tableName plan) = Some t"
    and "length (pk_predicateNodes pkg) < 2 ^ 32" "length (pk_encryptedLiterals pkg) < 2 ^ 32"
  shows "represents F t (pk_predicateNodes pkg) (pk_encryptedLiterals pkg)
           (of_nat (length (pk_predicateNodes pkg) - 1)) e"
proof -
  obtain t' st rs where "cat_tables cat (pp_tableName plan) = Some t'"
    "encryptWhere F t' (Some e) = Inr st" "pkg = packageOf plan meta rs st"
    by (rule encryptCatalog_where [OF assms(1,2)])
  with assms(3) have w: "encryptWhere F t (Some e) = Inr st" "pkg = packageOf plan meta rs st"
    by simp_all
  obtain i where "builds F t e startState i st" using encryptWhere_builds [OF w(1)] by blast
  with assms(4,5) w(2) show ?thesis by (auto simp: builds_def fits_def packageOf_def)
qed

lemma encrypted_ids:
  assumes "encryptCatalog F stmt plan cat meta = Inr pkg" "k < length (pk_encryptedLiterals pkg)"
  shows "el_id (pk_encryptedLiterals pkg ! k) = of_nat k"
proof (cases "st_whereClause stmt")
  case None
  with assms show ?thesis by (auto simp: encryptCatalog_def bindE_eq_Inr packageOf_def startState_def)
next
  case (Some e)
  obtain t st rs where w: "encryptWhere F t (Some e) = Inr st" "pkg = packageOf plan meta rs st"
    by (rule encryptCatalog_where [OF assms(1) Some])
  obtain i where "builds F t e startState i st" using encryptWhere_builds [OF w(1)] by blast
  with assms(2) w(2) show ?thesis by (simp add: builds_def idsOk_def packageOf_def)
qed

section \<open>A sample query\<close>

definition encSample :: SelectStatement where
  "encSample =
     \<lparr>st_projections = [''name'', ''age''], st_tableName = ''employees'', st_tableAlias = ''employees'',
      st_joins = [],
      st_whereClause = Some (And (Comparison GreaterThan (ColumnRef ''age'') (IntLiteral 30))
                                 (NotExpr (Comparison Equal (ColumnRef ''name'') (StringLiteral ''Bob'')))),
      st_orderByColumns = [], st_limitCount = - 1\<rparr>"

definition encPlan :: PhysicalPlan where
  "encPlan = \<lparr>pp_tableName = ''employees'', pp_tableAlias = ''employees'', pp_joinedTableName = [],
     pp_joinedTableAlias = [], pp_joinLeftColumn = [], pp_joinRightColumn = [], pp_hasJoin = False,
     pp_scanColumns = [''age'', ''name''], pp_projectColumns = [''name'', ''age''], pp_hasFilter = True\<rparr>"

definition encMeta :: FHEParamsMeta where
  "encMeta = \<lparr>fm_paramSetId = ''bfv-257-depth12'', fm_plaintextModulus = 257,
     fm_multiplicativeDepth = 12, fm_ringDimension = 128, fm_slotCount = 4, fm_keyId = []\<rparr>"

lemma encSample_plan: "planStatement encSample employeesSchema = Inr encPlan"
  by code_simp

lemma encSample_columns:
  "cat_tables makeEmployeesCatalog ''employees'' = Some employeesSchema"
  "column employeesSchema ''name'' = Inr \<lparr>cs_name = ''name'', cs_type = STRING, cs_maxLength = 16\<rparr>"
  "column employeesSchema ''age'' = Inr \<lparr>cs_name = ''age'', cs_type = INT64, cs_maxLength = 0\<rparr>"
  by (simp_all add: makeEmployeesCatalog_def registerTable_def departmentsSchema_def
      employeesSchema_def column_def)

lemma encSample_where:
  "\<exists>st. encryptWhere F employeesSchema (st_whereClause encSample) = Inr st
      \<and> length (es_nodes st) = 6 \<and> length (es_literals st) = 17"
proof -
  let ?s1 = "snd (pushNode (emptyNode\<lparr>pn_kind := PColumnRef, pn_columnName := ''age''\<rparr>) startState)"
  have bare: "bareName ''name'' = ''name''" by (rule bareName_undotted) (simp add: hasDot_iff)
  obtain i st where e: "buildPredNode F employeesSchema (the (st_whereClause encSample)) startState = Inr (i, st)"
    by (simp add: encSample_def pushNode_def stringComparison_def Let_def addEncryptedString_def
        encSample_columns bare)
  then have "length (es_nodes st) = 6 \<and> length (es_literals st) = 17"
    by (auto simp: encSample_def pushNode_def stringComparison_def Let_def addEncryptedString_def
        encSample_columns bare startState_def upt_rec pushLiteral_def)
  with e show ?thesis by (simp add: encryptWhere_def encSample_def)
qed

lemma encSample_package:
  "\<exists>st rs. encryptWhere F employeesSchema (st_whereClause encSample) = Inr st
      \<and> length (es_nodes st) = 6 \<and> length (es_literals st) = 17
      \<and> encryptCatalog F encSample encPlan makeEmployeesCatalog meta = Inr (packageOf encPlan meta rs st)"
proof -
  have "bareName ''name'' = ''name''" "bareName ''age'' = ''age''" "qualifier d ''name'' = d" "qualifier d ''age'' = d" for d
    by (simp_all add: hasDot_iff bareName_undotted qualifier_undotted)
  then obtain rs where "mapE (resultColumn encPlan makeEmployeesCatalog) (pp_projectColumns encPlan) = Inr rs"
    by (simp add: encPlan_def resultColumn_def getTable_def encSample_columns)
  moreover obtain st where "encryptWhere F employeesSchema (st_whereClause encSample) = Inr st"
    "length (es_nodes st) = 6" "length (es_literals st) = 17" using encSample_where by blast
  moreover have "getTable makeEmployeesCatalog (pp_tableName encPlan) = Inr employeesSchema"
    by (simp add: encSample_columns encPlan_def)
  ultimately show ?thesis by (auto simp: encryptCatalog_def encSample_def getTable_def)
qed

lemma literals_hidden:
  assumes "encryptCatalog F (s\<lparr>st_whereClause := Some e\<rparr>) plan cat meta = Inr p" "sameShape e e'" "scalarSizes F"
  shows "\<exists>p'. encryptCatalog F (s\<lparr>st_whereClause := Some e'\<rparr>) plan cat meta = Inr p'
              \<and> erasePackage p' = erasePackage p"
proof -
  from assms(1) obtain rs t st where r: "mapE (resultColumn plan cat) (pp_projectColumns plan) = Inr rs"
    "cat_tables cat (pp_tableName plan) = Some t" "encryptWhere F t (Some e) = Inr st"
    "p = packageOf plan meta rs st"
    by (auto simp: encryptCatalog_def bindE_eq_Inr)
  obtain st' where st': "encryptWhere F t (Some e') = Inr st'" "visible st' = visible st"
    using encryptWhere_visible [OF assms(2) r(3) assms(3)] by blast
  have "encryptCatalog F (s\<lparr>st_whereClause := Some e'\<rparr>) plan cat meta = Inr (packageOf plan meta rs st')"
    using r st'(1) by (simp add: encryptCatalog_def getTable_def)
  with st'(2) r(4) show ?thesis by (simp add: erasePackage_def packageOf_def visible_def)
qed

section \<open>Properties\<close>

text \<open>C11: the package that the client builds says what the WHERE clause says:
  read from its last node, the flat array is the tree of the expression, children before
  parents, every literal node names an entry that holds an encryption of the literal (of each
  character up to the column's width, padded with zero, for a string).\<close>

theorem encrypt_represents:
  assumes "encryptCatalog F stmt plan cat meta = Inr pkg" "st_whereClause stmt = Some e"
    and "cat_tables cat (pp_tableName plan) = Some t"
    and "length (pk_predicateNodes pkg) < 2 ^ 32" "length (pk_encryptedLiterals pkg) < 2 ^ 32"
  shows "represents F t (pk_predicateNodes pkg) (pk_encryptedLiterals pkg)
           (of_nat (length (pk_predicateNodes pkg) - 1)) e"
  using assms by (rule encrypted_represents)

theorem encrypt_represents_witness:
  "\<exists>pkg e. encryptCatalog plainFhe encSample encPlan makeEmployeesCatalog encMeta = Inr pkg
     \<and> st_whereClause encSample = Some e
     \<and> represents plainFhe employeesSchema (pk_predicateNodes pkg) (pk_encryptedLiterals pkg)
           (of_nat (length (pk_predicateNodes pkg) - 1)) e"
proof -
  obtain st rs where p: "length (es_nodes st) = 6" "length (es_literals st) = 17"
    "encryptCatalog plainFhe encSample encPlan makeEmployeesCatalog encMeta = Inr (packageOf encPlan encMeta rs st)"
    using encSample_package by blast
  obtain e where e: "st_whereClause encSample = Some e" by (simp add: encSample_def)
  have t: "cat_tables makeEmployeesCatalog (pp_tableName encPlan) = Some employeesSchema"
    by (simp add: encPlan_def encSample_columns)
  show ?thesis using encrypt_represents [OF p(3) e t] p e by (auto simp: packageOf_def)
qed

text \<open>The entries of the literals are numbered by their position, so no id
  is used twice (below 2^32 entries) and the first entry found with an id is the one meant.\<close>

lemma encrypt_literal_ids:
  assumes "encryptCatalog F stmt plan cat meta = Inr pkg" "k < length (pk_encryptedLiterals pkg)"
  shows "el_id (pk_encryptedLiterals pkg ! k) = of_nat k"
  using assms by (rule encrypted_ids)

lemma encrypt_literal_ids_example:
  "\<exists>pkg. encryptCatalog plainFhe encSample encPlan makeEmployeesCatalog encMeta = Inr pkg
     \<and> length (pk_encryptedLiterals pkg) = 17 \<and> el_id (pk_encryptedLiterals pkg ! 5) = of_nat 5"
proof -
  obtain st rs where p: "length (es_literals st) = 17"
    "encryptCatalog plainFhe encSample encPlan makeEmployeesCatalog encMeta = Inr (packageOf encPlan encMeta rs st)"
    using encSample_package by blast
  show ?thesis using encrypt_literal_ids [OF p(2), of 5] p by (auto simp: packageOf_def)
qed

text \<open>C13: two statements that differ only in the values of the literals of
  their WHERE clauses give packages that differ only in the bytes of the ciphertexts: everything else
  the server receives, the declared sizes of the literals among it, is the same.  The hypothesis is
  that the size of an encryption is the number of its values.\<close>

theorem encrypt_hides_literals:
  assumes "encryptCatalog F (s\<lparr>st_whereClause := Some e\<rparr>) plan cat meta = Inr p" "sameShape e e'" "fhe_size_law F"
  shows "\<exists>p'. encryptCatalog F (s\<lparr>st_whereClause := Some e'\<rparr>) plan cat meta = Inr p'
              \<and> erasePackage p' = erasePackage p"
  using assms by (intro literals_hidden scalarSizesI)

theorem encrypt_hides_literals_witness:
  "\<exists>p p'. encryptCatalog plainFhe encSample encPlan makeEmployeesCatalog encMeta = Inr p
     \<and> encryptCatalog plainFhe (encSample\<lparr>st_whereClause :=
          Some (And (Comparison GreaterThan (ColumnRef ''age'') (IntLiteral 99))
                    (NotExpr (Comparison Equal (ColumnRef ''name'') (StringLiteral ''Alice''))))\<rparr>)
          encPlan makeEmployeesCatalog encMeta = Inr p'
     \<and> erasePackage p' = erasePackage p"
proof -
  let ?e = "And (Comparison GreaterThan (ColumnRef ''age'') (IntLiteral 30))
                (NotExpr (Comparison Equal (ColumnRef ''name'') (StringLiteral ''Bob'')))"
  have s: "encSample\<lparr>st_whereClause := Some ?e\<rparr> = encSample" by (simp add: encSample_def)
  obtain p where p: "encryptCatalog plainFhe encSample encPlan makeEmployeesCatalog encMeta = Inr p"
    using encSample_package by blast
  have "encryptCatalog plainFhe (encSample\<lparr>st_whereClause := Some ?e\<rparr>) encPlan makeEmployeesCatalog encMeta = Inr p"
    using p by (simp only: s)
  from encrypt_hides_literals [OF this _ plainFhe_size] p show ?thesis by auto
qed

end
