(* ===== verification/Hega_Validator.thy ===== *)
theory Hega_Validator
  imports Hega_Encryptor
begin

text \<open>
  The server's validator (\<open>query/query_validator.cpp\<close>).  \<open>validatePredTree\<close> follows the child
  indices of a package that comes from the network, so nothing bounds its recursion: it is a
  \<open>partial_function\<close>, whose value \<open>None\<close> is "does not return".  Its result is a value of the
  error type; the loops over the literals are list functions.
\<close>

section \<open>Definitions\<close>

definition validationError :: "string \<Rightarrow> string \<Rightarrow> err" where
  "validationError a b = ValidationError (a @ b)"

text \<open>The table that a column of the package belongs to, and the membership test.\<close>

definition targetTable :: "Catalog \<Rightarrow> QueryPackage \<Rightarrow> TableSchema \<Rightarrow> string \<Rightarrow> TableSchema result" where
  "targetTable cat pkg schema name =
     (if pk_hasJoin pkg \<and> qualifier (pk_tableAlias pkg) name = pk_joinedTableAlias pkg
      then getTable cat (pk_joinedTableName pkg) else Inr schema)"

definition checkColumn :: "Catalog \<Rightarrow> QueryPackage \<Rightarrow> TableSchema \<Rightarrow> err \<Rightarrow> string \<Rightarrow> unit result" where
  "checkColumn cat pkg schema e name =
     bindE (targetTable cat pkg schema name) (\<lambda>target.
       throwIf (\<not> hasColumn target (bareName name)) e)"

definition checkStringPredicate :: "QueryPackage \<Rightarrow> TableSchema \<Rightarrow> PredNode \<Rightarrow> unit result" where
  "checkStringPredicate pkg schema node =
     bindE (throwIf (pn_columnName node = [] \<or> pn_stringWidth node = 0)
        (ValidationError ''String predicate is missing metadata'')) (\<lambda>_.
     bindE (column schema (pn_columnName node)) (\<lambda>c.
     bindE (throwIf (cs_type c \<noteq> STRING \<or> unat (pn_stringWidth node) \<noteq> cs_maxLength c)
        (validationError ''Invalid string predicate column: '' (pn_columnName node))) (\<lambda>_.
     forE (\<lambda>i. throwIf (\<not> list_ex (\<lambda>l. el_id l = pn_literalId node + of_nat i
                  \<and> el_logicalType l = ''STRING_CHAR'' \<and> el_ciphertextBytes l \<noteq> [])
                (pk_encryptedLiterals pkg))
               (ValidationError ''String predicate references missing literal''))
       [0..<unat (pn_stringWidth node)])))"

text \<open>The cases without children; the switch has no default, so a kind outside the enum passes.\<close>

definition leafKind :: "PredNodeKind \<Rightarrow> bool" where
  "leafKind k \<longleftrightarrow> k \<in> {PColumnRef, PLiteralRef, PStringEqual, PStringNotEqual, POther}"

definition checkLeaf :: "Catalog \<Rightarrow> QueryPackage \<Rightarrow> TableSchema \<Rightarrow> PredNode \<Rightarrow> unit result" where
  "checkLeaf cat pkg schema node =
     (if pn_kind node = PColumnRef
      then checkColumn cat pkg schema
             (validationError ''Unknown column in predicate: '' (pn_columnName node)) (pn_columnName node)
      else if pn_kind node = PLiteralRef
      then throwIf (\<not> list_ex (\<lambda>l. el_id l = pn_literalId node) (pk_encryptedLiterals pkg))
             (validationError ''Predicate references unknown literal id: ''
                (show_nat (unat (pn_literalId node))))
      else if pn_kind node = POther then Inr ()
      else checkStringPredicate pkg schema node)"

partial_function (option) validatePredTree ::
  "Catalog \<Rightarrow> QueryPackage \<Rightarrow> TableSchema \<Rightarrow> u32 \<Rightarrow> unit result option" where
  "validatePredTree cat pkg schema i =
     (if length (pk_predicateNodes pkg) \<le> unat i
      then Some (Inl (validationError ''Predicate node index out of range: '' (show_nat (unat i))))
      else let node = pk_predicateNodes pkg ! unat i in
        if leafKind (pn_kind node) then Some (checkLeaf cat pkg schema node)
        else if pn_kind node = PNot then
          (if pn_left node = UINT32_MAX
           then Some (Inl (ValidationError ''NOT predicate node missing child''))
           else validatePredTree cat pkg schema (pn_left node))
        else if pn_left node = UINT32_MAX \<or> pn_right node = UINT32_MAX
          then Some (Inl (ValidationError
                 (if pn_kind node = PAnd \<or> pn_kind node = POr
                  then ''Boolean predicate node missing children''
                  else ''Binary predicate node missing children'')))
        else Option.bind (validatePredTree cat pkg schema (pn_left node)) (\<lambda>r.
               if isOk r then validatePredTree cat pkg schema (pn_right node) else Some r))"

text \<open>The messages with a quoted name in them.\<close>

definition unknownColumnError :: "string \<Rightarrow> string \<Rightarrow> string \<Rightarrow> err" where
  "unknownColumnError what col table = ValidationError (''Unknown '' @ what @ '' column '' @ [quote]
     @ col @ [quote] @ '' in table '' @ [quote] @ table @ [quote])"

definition paramSetError :: "string \<Rightarrow> string \<Rightarrow> err" where
  "paramSetError client server = ValidationError (''FHE parameter set mismatch: client='' @ [quote]
     @ client @ [quote] @ '' server='' @ [quote] @ server @ [quote])"

definition emptyCiphertextError :: "u32 \<Rightarrow> err" where
  "emptyCiphertextError i =
     ValidationError (''Encrypted literal '' @ show_nat (unat i) @ '' has empty ciphertext'')"

text \<open>The checks before the predicate tree; the result is the schema of the table.\<close>

definition checkHeader :: "Catalog \<Rightarrow> string \<Rightarrow> QueryPackage \<Rightarrow> TableSchema result" where
  "checkHeader cat serverParamSetId pkg =
     bindE (throwIf (pk_protocolVersion pkg \<noteq> 2)
       (validationError ''Unsupported protocol version: '' (show_nat (unat (pk_protocolVersion pkg))))) (\<lambda>_.
     bindE (throwIf (\<not> hasTable cat (pk_tableName pkg))
       (validationError ''Unknown table: '' (pk_tableName pkg))) (\<lambda>_.
     bindE (getTable cat (pk_tableName pkg)) (\<lambda>schema.
     bindE (forE (\<lambda>col. throwIf (\<not> hasColumn schema col)
         (unknownColumnError ''scan'' col (pk_tableName pkg))) (pk_scanColumns pkg)) (\<lambda>_.
     bindE (forE (\<lambda>col. checkColumn cat pkg schema
         (unknownColumnError ''project'' col (pk_tableName pkg)) col) (pk_projectColumns pkg)) (\<lambda>_.
     bindE (throwIf (fm_paramSetId (pk_fheParams pkg) \<noteq> serverParamSetId)
       (paramSetError (fm_paramSetId (pk_fheParams pkg)) serverParamSetId)) (\<lambda>_.
     bindE (forE (\<lambda>l. throwIf (el_ciphertextBytes l = []) (emptyCiphertextError (el_id l)))
         (pk_encryptedLiterals pkg)) (\<lambda>_.
     Inr schema)))))))"

definition validate :: "Catalog \<Rightarrow> string \<Rightarrow> QueryPackage \<Rightarrow> unit result option" where
  "validate cat serverParamSetId pkg =
     (case checkHeader cat serverParamSetId pkg of
        Inl e \<Rightarrow> Some (Inl e)
      | Inr schema \<Rightarrow>
          if pk_predicateNodes pkg = [] then Some (Inr ())
          else validatePredTree cat pkg schema (of_nat (length (pk_predicateNodes pkg) - 1)))"

lemma checkHeader_iff:
  "checkHeader cat sid pkg = Inr t \<longleftrightarrow>
     pk_protocolVersion pkg = 2 \<and> cat_tables cat (pk_tableName pkg) = Some t
     \<and> (\<forall>c\<in>set (pk_scanColumns pkg). hasColumn t c)
     \<and> (\<forall>c\<in>set (pk_projectColumns pkg).
          checkColumn cat pkg t (unknownColumnError ''project'' c (pk_tableName pkg)) c = Inr ())
     \<and> fm_paramSetId (pk_fheParams pkg) = sid
     \<and> (\<forall>l\<in>set (pk_encryptedLiterals pkg). el_ciphertextBytes l \<noteq> [])"
  by (auto simp: checkHeader_def bindE_eq_Inr forE_eq_Inr hasTable_def getTable_def split: option.splits)

section \<open>Termination of the walk\<close>

definition binaryKind :: "PredNodeKind \<Rightarrow> bool" where
  "binaryKind k \<longleftrightarrow> k \<in> {PEqual, PNotEqual, PGreaterThan, PLessThan, PGreaterEqual, PLessEqual, PAnd, POr}"

text \<open>The nodes of a package in bottom-up order: every child index that a node uses is smaller
  than its own position (or the marker of a missing child).\<close>

definition childOk :: "nat \<Rightarrow> u32 \<Rightarrow> bool" where
  "childOk k c \<longleftrightarrow> c = UINT32_MAX \<or> unat c < k"

definition ordered :: "QueryPackage \<Rightarrow> bool" where
  "ordered pkg \<longleftrightarrow> (\<forall>k < length (pk_predicateNodes pkg).
     let node = pk_predicateNodes pkg ! k in
       (binaryKind (pn_kind node) \<longrightarrow> childOk k (pn_left node) \<and> childOk k (pn_right node))
     \<and> (pn_kind node = PNot \<longrightarrow> childOk k (pn_left node)))"

lemma bind_returns:
  "\<exists>r. m = Some r \<Longrightarrow> \<exists>r. n = Some r \<Longrightarrow>
   \<exists>r. Option.bind m (\<lambda>r. if isOk r then n else Some r) = Some (r :: unit result)"
  by auto

text \<open>A set of nodes that each have their first child in the set: no walk leaves it.  A node that
  is its own first child is such a set.\<close>

definition trapped :: "PredNode list \<Rightarrow> u32 set \<Rightarrow> bool" where
  "trapped nodes S \<longleftrightarrow> (\<forall>i\<in>S. unat i < length nodes \<and>
     (let node = nodes ! unat i in
        (pn_kind node = PNot \<or> (binaryKind (pn_kind node) \<and> pn_right node \<noteq> UINT32_MAX))
        \<and> pn_left node \<noteq> UINT32_MAX \<and> pn_left node \<in> S))"

lemma walk_leaves:
  assumes "validatePredTree cat pkg schema i = Some r"
  shows "trapped (pk_predicateNodes pkg) S \<longrightarrow> i \<notin> S"
proof (rule validatePredTree.raw_induct [OF _ assms], intro impI notI)
  fix walk :: "Catalog \<Rightarrow> QueryPackage \<Rightarrow> TableSchema \<Rightarrow> u32 \<Rightarrow> unit result option"
  fix cat schema r and i :: u32 and pkg :: QueryPackage
  let ?n = "pk_predicateNodes pkg ! unat i"
  assume IH: "\<And>cat pkg schema i r. walk cat pkg schema i = Some r \<Longrightarrow>
      trapped (pk_predicateNodes pkg) S \<longrightarrow> i \<notin> S"
    and b: "(if length (pk_predicateNodes pkg) \<le> unat i
      then Some (Inl (validationError ''Predicate node index out of range: '' (show_nat (unat i))))
      else let node = ?n in
        if leafKind (pn_kind node) then Some (checkLeaf cat pkg schema node)
        else if pn_kind node = PNot then
          (if pn_left node = UINT32_MAX
           then Some (Inl (ValidationError ''NOT predicate node missing child''))
           else walk cat pkg schema (pn_left node))
        else if pn_left node = UINT32_MAX \<or> pn_right node = UINT32_MAX
          then Some (Inl (ValidationError
                 (if pn_kind node = PAnd \<or> pn_kind node = POr
                  then ''Boolean predicate node missing children''
                  else ''Binary predicate node missing children'')))
        else Option.bind (walk cat pkg schema (pn_left node)) (\<lambda>r.
               if isOk r then walk cat pkg schema (pn_right node) else Some r)) = Some r"
    and t: "trapped (pk_predicateNodes pkg) S" and i: "i \<in> S"
  from t i have n: "unat i < length (pk_predicateNodes pkg)"
    "pn_kind ?n = PNot \<or> (binaryKind (pn_kind ?n) \<and> pn_right ?n \<noteq> UINT32_MAX)"
    "pn_left ?n \<noteq> UINT32_MAX" "pn_left ?n \<in> S"
    by (auto simp: trapped_def Let_def)
  then have "\<not> leafKind (pn_kind ?n)" by (auto simp: leafKind_def binaryKind_def)
  with n b obtain r' where "walk cat pkg schema (pn_left ?n) = Some r'"
    by (auto simp: Let_def bind_eq_Some_conv split: if_splits)
  from IH [OF this] t n(4) show False by blast
qed

section \<open>Client packages pass\<close>

text \<open>A WHERE clause over unqualified columns of one table.\<close>

fun plainWhere :: "TableSchema \<Rightarrow> ASTExpr \<Rightarrow> bool" where
  "plainWhere t (ColumnRef n) \<longleftrightarrow> \<not> hasDot n \<and> hasColumn t n"
| "plainWhere t (IntLiteral i) \<longleftrightarrow> True"
| "plainWhere t (StringLiteral x) \<longleftrightarrow> True"
| "plainWhere t (Comparison k l r) \<longleftrightarrow>
     (if stringComparison l r
      then let n = columnNameOf (if isColumn l then l else r) in
           \<not> hasDot n \<and> n \<noteq> [] \<and> (\<exists>c. columnOpt t n = Some c \<and> cs_type c = STRING \<and> 0 < cs_maxLength c \<and> cs_maxLength c < 2 ^ 32)
      else plainWhere t l \<and> plainWhere t r)"
| "plainWhere t (And l r) \<longleftrightarrow> plainWhere t l \<and> plainWhere t r"
| "plainWhere t (Or l r) \<longleftrightarrow> plainWhere t l \<and> plainWhere t r"
| "plainWhere t (NotExpr e) \<longleftrightarrow> plainWhere t e"

text \<open>What the literals of a package must satisfy: numbered by position, not empty.\<close>

definition literalsOk :: "EncryptedLiteralEntry list \<Rightarrow> bool" where
  "literalsOk lits \<longleftrightarrow> length lits < 2 ^ 32
     \<and> (\<forall>k < length lits. el_id (lits ! k) = of_nat k \<and> el_ciphertextBytes (lits ! k) \<noteq> [])"

lemma holdsValue_entry:
  assumes "holdsValue F lits i ty v" "literalsOk lits"
  shows "list_ex (\<lambda>l. el_id l = i \<and> el_logicalType l = ty \<and> el_ciphertextBytes l \<noteq> []) lits"
    "list_ex (\<lambda>l. el_id l = i) lits"
proof -
  have "unat i < length lits" "el_id (lits ! unat i) = i" "el_logicalType (lits ! unat i) = ty"
    "el_ciphertextBytes (lits ! unat i) \<noteq> []"
    using assms by (auto simp: holdsValue_def literalsOk_def)
  then show "list_ex (\<lambda>l. el_id l = i \<and> el_logicalType l = ty \<and> el_ciphertextBytes l \<noteq> []) lits"
    "list_ex (\<lambda>l. el_id l = i) lits"
    by (auto simp: list_ex_length intro: exI [of _ "unat i"])
qed

lemma walk_node:
  assumes "nodeAt (pk_predicateNodes pkg) i n"
  shows "leafKind (pn_kind n) \<Longrightarrow> validatePredTree cat pkg schema i = Some (checkLeaf cat pkg schema n)"
    "pn_kind n = PNot \<Longrightarrow> pn_left n \<noteq> UINT32_MAX \<Longrightarrow>
       validatePredTree cat pkg schema i = validatePredTree cat pkg schema (pn_left n)"
    "binaryKind (pn_kind n) \<Longrightarrow> pn_left n \<noteq> UINT32_MAX \<Longrightarrow> pn_right n \<noteq> UINT32_MAX \<Longrightarrow>
       validatePredTree cat pkg schema (pn_left n) = Some (Inr ()) \<Longrightarrow>
       validatePredTree cat pkg schema (pn_right n) = Some (Inr ()) \<Longrightarrow>
       validatePredTree cat pkg schema i = Some (Inr ())"
proof -
  from assms have u: "validatePredTree cat pkg schema i =
      (if leafKind (pn_kind n) then Some (checkLeaf cat pkg schema n)
       else if pn_kind n = PNot
         then (if pn_left n = UINT32_MAX
               then Some (Inl (ValidationError ''NOT predicate node missing child''))
               else validatePredTree cat pkg schema (pn_left n))
       else if pn_left n = UINT32_MAX \<or> pn_right n = UINT32_MAX
         then Some (Inl (ValidationError (if pn_kind n = PAnd \<or> pn_kind n = POr
                then ''Boolean predicate node missing children''
                else ''Binary predicate node missing children'')))
       else Option.bind (validatePredTree cat pkg schema (pn_left n)) (\<lambda>r.
              if isOk r then validatePredTree cat pkg schema (pn_right n) else Some r))"
    by (auto simp: validatePredTree.simps [of cat pkg schema i] nodeAt_def Let_def)
  show "leafKind (pn_kind n) \<Longrightarrow> validatePredTree cat pkg schema i = Some (checkLeaf cat pkg schema n)"
    unfolding u by simp
  show "pn_kind n = PNot \<Longrightarrow> pn_left n \<noteq> UINT32_MAX \<Longrightarrow>
      validatePredTree cat pkg schema i = validatePredTree cat pkg schema (pn_left n)"
    unfolding u by (simp add: leafKind_def)
  assume b: "binaryKind (pn_kind n)" "pn_left n \<noteq> UINT32_MAX" "pn_right n \<noteq> UINT32_MAX"
    "validatePredTree cat pkg schema (pn_left n) = Some (Inr ())"
    "validatePredTree cat pkg schema (pn_right n) = Some (Inr ())"
  then have "\<not> leafKind (pn_kind n)" "pn_kind n \<noteq> PNot" by (auto simp: leafKind_def binaryKind_def)
  with b show "validatePredTree cat pkg schema i = Some (Inr ())" unfolding u by simp
qed

lemma binary_cmp [simp]: "binaryKind (cmpNodeKind k)" "binaryKind PAnd" "binaryKind POr"
  by (cases k) (simp_all add: binaryKind_def)

lemma small_index: "i < (j :: u32) \<Longrightarrow> i \<noteq> UINT32_MAX"
  by (auto simp: UINT32_MAX_def word_less_nat_alt) (use unsigned_less [of j, where ?'a = nat] in simp)

lemma string_leaf_ok:
  assumes n: "nodeAt (pk_predicateNodes pkg) i (stringNode k name firstId (cs_maxLength c))"
    and c: "column schema (bareName name) = Inr c" "\<not> hasDot name" "name \<noteq> []" "cs_type c = STRING"
      "0 < cs_maxLength c" "cs_maxLength c < 2 ^ 32"
    and h: "\<And>p. p < cs_maxLength c \<Longrightarrow>
       holdsValue F (pk_encryptedLiterals pkg) (firstId + of_nat p) ''STRING_CHAR'' (charAt x p)"
    and l: "literalsOk (pk_encryptedLiterals pkg)"
  shows "validatePredTree cat pkg schema i = Some (Inr ())"
proof -
  have w: "unat (of_nat (cs_maxLength c) :: u32) = cs_maxLength c" using c(6) by (rule u32_index)
  have nz: "(of_nat (cs_maxLength c) :: u32) \<noteq> 0" using w c(5) by (metis unat_0 less_numeral_extra(3))
  have b: "column schema name = Inr c" using c(1,2) by simp
  have "checkStringPredicate pkg schema (stringNode k name firstId (cs_maxLength c)) = Inr ()"
    using holdsValue_entry(1) [OF h l] c b w nz
    by (auto simp: checkStringPredicate_def stringNode_def emptyNode_def bindE_eq_Inr forE_eq_Inr)
  then show ?thesis
    using walk_node(1) [OF n]
    by (auto simp: stringNode_def leafKind_def checkLeaf_def emptyNode_def)
qed

lemma represents_walk:
  assumes r: "represents F schema (pk_predicateNodes pkg) (pk_encryptedLiterals pkg) i e"
    and l: "literalsOk (pk_encryptedLiterals pkg)" and j: "\<not> pk_hasJoin pkg"
  shows "plainWhere schema e \<Longrightarrow> validatePredTree cat pkg schema i = Some (Inr ())"
  using r
proof (induction rule: represents.induct)
  case (column i n)
  then show ?case
    using walk_node(1) [OF column(1)] j
    by (simp add: leafKind_def checkLeaf_def checkColumn_def targetTable_def)
next
  case (literal i lid v)
  then show ?case
    using walk_node(1) [OF literal(1)] holdsValue_entry(2) [OF _ l]
    by (simp add: leafKind_def checkLeaf_def)
next
  case (stringL i k n firstId cs x)
  then show ?case
    by (intro string_leaf_ok [OF stringL(1,2)] stringL(3) l)
      (auto simp: stringComparison_def Let_def column_columnOpt)
next
  case (stringR i k n firstId cs x)
  then show ?case
    by (intro string_leaf_ok [OF stringR(1,2)] stringR(3) l)
      (auto simp: stringComparison_def Let_def column_columnOpt)
next
  case (comparison i li ri k l r)
  then show ?case using walk_node(3) [OF comparison(1)] small_index by auto
next
  case (conj i li ri l r)
  then show ?case using walk_node(3) [OF conj(1)] small_index by auto
next
  case (disj i li ri l r)
  then show ?case using walk_node(3) [OF disj(1)] small_index by auto
next
  case (neg i li e)
  then show ?case using walk_node(2) [OF neg(1)] small_index by auto
qed


text \<open>A statement over one table whose columns are all written without a qualifier.\<close>

definition unqualified :: "SelectStatement \<Rightarrow> bool" where
  "unqualified s \<longleftrightarrow> st_joins s = []
     \<and> (\<forall>n\<in>set (st_projections s) \<union> ob_columnName ` set (st_orderByColumns s) \<union> whereColumns s.
          n \<noteq> [] \<and> \<not> hasDot n)"

definition widthsFit :: "TableSchema \<Rightarrow> bool" where
  "widthsFit t \<longleftrightarrow> (\<forall>c\<in>set (ts_columns t). cs_maxLength c < 2 ^ 32)"

lemma columnOpt_member: "columnOpt t n = Some c \<Longrightarrow> c \<in> set (ts_columns t)"
  using column_Inr column_columnOpt by blast

lemma exprOk_plain:
  assumes "cat_tables cat (st_tableName s) = Some t" "st_joins s = []" "widthsFit t"
  shows "exprOk cat s e \<Longrightarrow> \<forall>n\<in>exprColumns e. n \<noteq> [] \<and> \<not> hasDot n \<Longrightarrow> plainWhere t e"
proof (induction e)
  case (ColumnRef n)
  then show ?case
    using assms by (auto simp: catalogHasColumn_def getTable_def split: option.splits)
next
  case (Comparison k l r)
  have env: "whereColumn cat s n = columnOpt t n" if "\<not> hasDot n" for n
    using that assms(1) by (simp add: whereColumn_def)
  note d = cmpOk_def literalFits_def stringComparison_def hasColumn_columnOpt
  have w: "columnOpt t n = Some c \<Longrightarrow> cs_maxLength c < 4294967296" for n c
    using assms(3) columnOpt_member by (fastforce simp: widthsFit_def)
  from Comparison.prems show ?case
    by (cases l; cases r) (auto simp: d env dest: w)
qed auto

lemma unqualified_columns:
  assumes "statementOk cat s" "unqualified s" "cat_tables cat (st_tableName s) = Some t" "wfSchema t"
  shows "n \<in> set (outputColumns s t) \<union> ob_columnName ` set (st_orderByColumns s) \<Longrightarrow>
     \<not> hasDot n \<and> hasColumn t n"
proof -
  have sc: "scopeOf cat s a = Some u \<Longrightarrow> u = t" for a u
    using assms(2,3) by (auto simp: scopeOf_def unqualified_def split: if_splits)
  have "\<not> hasDot n \<and> hasColumn t n"
    if n: "n \<in> set (st_projections s) \<union> ob_columnName ` set (st_orderByColumns s)"
  proof -
    from n assms(1) obtain c where c: "denotes cat s n c" unfolding statementOk_def by blast
    from n assms(2) have "\<not> hasDot n" by (auto simp: unqualified_def)
    with c sc show ?thesis by (auto simp: denotes_def hasColumn_columnOpt)
  qed
  moreover have "\<not> hasDot n \<and> hasColumn t n" if "n \<in> set (map cs_name (ts_columns t))"
    using that assms(4) by (auto simp: wfSchema_def list_all_iff hasColumn_iff)
  moreover assume "n \<in> set (outputColumns s t) \<union> ob_columnName ` set (st_orderByColumns s)"
  ultimately show "\<not> hasDot n \<and> hasColumn t n" by (auto simp: outputColumns_def split: if_splits)
qed

lemma where_columns_in:
  assumes "plainWhere t e" "n \<in> exprColumns e"
  shows "hasColumn t n"
  using assms
proof (induction e)
  case (Comparison k l r)
  then show ?case
    by (cases l; cases r)
      (auto simp: stringComparison_def Let_def hasColumn_columnOpt split: if_splits)
qed auto

lemma checkColumn_single:
  "\<not> pk_hasJoin pkg \<Longrightarrow> \<not> hasDot n \<Longrightarrow> hasColumn t n \<Longrightarrow> checkColumn cat pkg t e n = Inr ()"
  by (simp add: checkColumn_def targetTable_def)

text \<open>What holds of every entry that the builder can push holds of the whole table of literals.\<close>

lemma encrypted_entries:
  assumes new: "\<And>i ty call v. Q \<lparr>el_id = i, el_logicalType = ty,
      el_ciphertextBytes = fhe_serialize F (encryptScalar F call v),
      el_logicalSize = fhe_logicalSize F (encryptScalar F call v)\<rparr>"
    and b: "buildPredNode F schema e st = Inr (i, st')" "list_all Q (es_literals st)"
  shows "list_all Q (es_literals st')"
proof -
  have push: "list_all Q (es_literals (pushLiteral F ty v st))" if "list_all Q (es_literals st)" for ty v st
    using that new by (simp add: pushLiteral_def Let_def)
  have fold: "list_all Q (es_literals (fold (\<lambda>p. pushLiteral F ''STRING_CHAR'' (charAt x p)) ps st))"
    if "list_all Q (es_literals st)" for x ps st
    using that by (induction ps arbitrary: st) (simp_all add: push)
  show ?thesis
    using b
  proof (induction e arbitrary: st i st')
    case (Comparison k l r)
    then show ?case
      by (fastforce simp: bindE_eq_Inr pushNode_def addEncryptedString_def Let_def fold
          split: if_splits)
  qed (fastforce simp: bindE_eq_Inr pushNode_def push Let_def)+
qed

lemma package_entries:
  assumes e: "encryptCatalog F s plan cat meta = Inr pkg"
    and new: "\<And>i ty call v. Q \<lparr>el_id = i, el_logicalType = ty,
      el_ciphertextBytes = fhe_serialize F (encryptScalar F call v),
      el_logicalSize = fhe_logicalSize F (encryptScalar F call v)\<rparr>"
  shows "list_all Q (pk_encryptedLiterals pkg)"
proof (cases "st_whereClause s")
  case None
  with e show ?thesis by (auto simp: encryptCatalog_def bindE_eq_Inr packageOf_def startState_def)
next
  case (Some x)
  obtain t st rs where w: "encryptWhere F t (Some x) = Inr st" "pkg = packageOf plan meta rs st"
    by (rule encryptCatalog_where [OF e Some])
  with encrypted_entries [where Q = Q, OF new, of t x startState] show ?thesis
    by (auto simp: packageOf_def encryptWhere_def bindE_eq_Inr startState_def)
qed

lemma package_literalsOk:
  assumes e: "encryptCatalog F s plan cat meta = Inr pkg" and ser: "\<forall>ct. fhe_serialize F ct \<noteq> []"
    and small: "length (pk_encryptedLiterals pkg) < 2 ^ 32"
  shows "literalsOk (pk_encryptedLiterals pkg)"
proof -
  have "list_all (\<lambda>l. el_ciphertextBytes l \<noteq> []) (pk_encryptedLiterals pkg)"
    by (rule package_entries [OF e]) (simp add: ser)
  with encrypted_ids [OF e] small show ?thesis by (simp add: literalsOk_def list_all_length)
qed

lemma client_package_passes:
  assumes a: "analyze cat s = Inr t" and u: "unqualified s" and wf: "wfCatalog cat" "widthsFit t"
    and p: "planStatement s t = Inr plan" and e: "encryptCatalog F s plan cat meta = Inr pkg"
    and m: "fm_paramSetId meta = paramSetId" and ser: "\<forall>ct. fhe_serialize F ct \<noteq> []"
    and small: "length (pk_predicateNodes pkg) < 2 ^ 32" "length (pk_encryptedLiterals pkg) < 2 ^ 32"
  shows "validate cat paramSetId (pkg\<lparr>pk_queryId := qid\<rparr>) = Some (Inr ())"
proof -
  let ?p = "pkg\<lparr>pk_queryId := qid\<rparr>"
  from a have ok: "statementOk cat s" "cat_tables cat (st_tableName s) = Some t"
    by (simp_all add: analyze_accepts)
  have j: "st_joins s = []" using u by (simp add: unqualified_def)
  obtain pp where "planStatement s t = Inr pp" "planFor s t pp"
    using plan_meets_spec [of s t] j by auto
  with p have pf: "planFor s t plan" by simp
  obtain rs st where st: "pkg = packageOf plan meta rs st"
    "case st_whereClause s of None \<Rightarrow> st = startState | Some e \<Rightarrow> encryptWhere F t (Some e) = Inr st"
    using e ok(2) pf by (auto simp: encryptCatalog_def bindE_eq_Inr planFor_def split: option.splits)
  have wfS: "wfSchema t" using wf(1) ok(2) by (simp add: wfCatalog_def)
  note cols = unqualified_columns [OF ok(1) u ok(2) wfS]
  have plain: "plainWhere t e" if "st_whereClause s = Some e" for e
    using that ok(1) u exprOk_plain [OF ok(2) j wf(2), of e]
    by (auto simp: statementOk_def unqualified_def whereColumns_def)
  have proj: "\<not> hasDot n \<and> hasColumn t n" if "n \<in> set (pk_projectColumns ?p)" for n
    using that cols pf by (simp add: st(1) packageOf_def planFor_def)
  have w: "\<not> hasDot n \<and> hasColumn t n" if "n \<in> whereColumns s" for n
    using that u plain where_columns_in by (fastforce simp: unqualified_def whereColumns_def split: option.splits)
  have scan: "hasColumn t c" if c: "c \<in> set (pk_scanColumns ?p)" for c
  proof -
    from c pf have "c \<in> bareName ` whereColumns s \<union> bareName ` set (pk_projectColumns ?p)"
      by (auto simp: st(1) packageOf_def planFor_def)
    then obtain n where "c = bareName n" "n \<in> whereColumns s \<union> set (pk_projectColumns ?p)" by blast
    with w [of n] proj [of n] show ?thesis by auto
  qed
  have nj: "\<not> pk_hasJoin ?p" using pf j by (simp add: st(1) packageOf_def planFor_def)
  have litsOk: "literalsOk (pk_encryptedLiterals ?p)"
    using package_literalsOk [OF e ser small(2)] by simp
  then have lits: "\<forall>l\<in>set (pk_encryptedLiterals ?p). el_ciphertextBytes l \<noteq> []"
    by (auto simp: literalsOk_def in_set_conv_nth)
  have tree: "pk_predicateNodes ?p = []
      \<or> validatePredTree cat ?p t (of_nat (length (pk_predicateNodes ?p) - 1)) = Some (Inr ())"
  proof (cases "st_whereClause s")
    case None
    with st show ?thesis by (simp add: packageOf_def)
  next
    case (Some x)
    have "cat_tables cat (pp_tableName plan) = Some t" using pf ok(2) by (simp add: planFor_def)
    from encrypted_represents [OF e Some this small]
    have "represents F t (pk_predicateNodes ?p) (pk_encryptedLiterals ?p)
        (of_nat (length (pk_predicateNodes ?p) - 1)) x" by simp
    from represents_walk [OF this litsOk nj plain [OF Some]] show ?thesis by blast
  qed
  have "pk_protocolVersion ?p = 2" "pk_tableName ?p = st_tableName s" "fm_paramSetId (pk_fheParams ?p) = paramSetId"
    using pf m by (simp_all add: st(1) packageOf_def planFor_def)
  then have "checkHeader cat paramSetId ?p = Inr t"
    using ok(2) scan proj nj lits by (simp add: checkHeader_iff checkColumn_single list_all_iff)
  with tree show ?thesis by (auto simp: validate_def)
qed

section \<open>Properties\<close>

text \<open>C17: the server accepts what the client sends: for a statement over
  one table with unqualified columns that the analyzer accepts, the planned and encrypted
  package passes every check of the validator, if both sides use the same parameter set and the
  counts fit in 32 bits.\<close>

theorem client_package_accepted:
  assumes a: "analyze cat s = Inr t" and u: "unqualified s" and wf: "wfCatalog cat" "widthsFit t"
    and p: "planStatement s t = Inr plan" and e: "encryptCatalog F s plan cat meta = Inr pkg"
    and m: "fm_paramSetId meta = paramSetId" and ser: "\<forall>ct. fhe_serialize F ct \<noteq> []"
    and small: "length (pk_predicateNodes pkg) < 2 ^ 32" "length (pk_encryptedLiterals pkg) < 2 ^ 32"
  shows "validate cat paramSetId (pkg\<lparr>pk_queryId := qid\<rparr>) = Some (Inr ())"
  using assms by (rule client_package_passes)

text \<open>The walk has no check for a cycle.  When the last node of a package lies in a
  set of inner nodes that each have their left child in the set (a NOT node that is its own
  child is the smallest), and the checks before the tree pass, \<open>validate\<close> does not return:
  the server's thread recurses until the stack is exhausted.\<close>

lemma validate_diverges:
  assumes h: "checkHeader cat sid pkg = Inr t" and tr: "trapped (pk_predicateNodes pkg) S"
    and root: "pk_predicateNodes pkg \<noteq> []" "of_nat (length (pk_predicateNodes pkg) - 1) \<in> S"
  shows "validate cat sid pkg = None"
  using walk_leaves [of cat pkg t "of_nat (length (pk_predicateNodes pkg) - 1)"] tr root
  by (cases "validatePredTree cat pkg t (of_nat (length (pk_predicateNodes pkg) - 1))")
    (auto simp: validate_def h)

lemma validate_diverges_example:
  "validate makeEmployeesCatalog ''p''
     (samplePackage\<lparr>pk_predicateNodes := [emptyNode\<lparr>pn_kind := PNot, pn_left := 0\<rparr>]\<rparr>) = None"
proof (rule validate_diverges)
  let ?p = "samplePackage\<lparr>pk_predicateNodes := [emptyNode\<lparr>pn_kind := PNot, pn_left := 0\<rparr>]\<rparr>"
  have "bareName ''age'' = ''age''" "hasColumn employeesSchema ''age''"
    by (rule bareName_undotted) (simp_all add: hasDot_iff hasColumn_iff employeesSchema_def)
  then show "checkHeader makeEmployeesCatalog ''p'' ?p = Inr employeesSchema"
    by (simp add: checkHeader_iff samplePackage_def checkColumn_def targetTable_def encSample_columns)
  show "trapped (pk_predicateNodes ?p) {0}" by (simp add: trapped_def UINT32_MAX_def)
qed simp_all

theorem client_package_accepted_witness:
  "\<exists>pkg. encryptCatalog plainFhe encSample encPlan makeEmployeesCatalog encMeta = Inr pkg
     \<and> validate makeEmployeesCatalog ''bfv-257-depth12'' (pkg\<lparr>pk_queryId := ''q7''\<rparr>) = Some (Inr ())"
proof -
  obtain st rs where p: "length (es_nodes st) = 6" "length (es_literals st) = 17"
    "encryptCatalog plainFhe encSample encPlan makeEmployeesCatalog encMeta = Inr (packageOf encPlan encMeta rs st)"
    using encSample_package by blast
  have a: "analyze makeEmployeesCatalog encSample = Inr employeesSchema" by code_simp
  have u: "unqualified encSample"
    by (simp add: unqualified_def encSample_def whereColumns_def hasDot_iff)
  have w: "widthsFit employeesSchema" by (simp add: widthsFit_def employeesSchema_def)
  have m: "fm_paramSetId encMeta = ''bfv-257-depth12''" by (simp add: encMeta_def)
  have ser: "\<forall>ct. fhe_serialize plainFhe ct \<noteq> []"
    using plainFhe_laws(1) by (simp add: fhe_wire_law_def)
  from client_package_accepted [OF a u makeEmployeesCatalog_wf w encSample_plan p(3) m ser, of "''q7''"] p
  show ?thesis by (auto simp: packageOf_def)
qed

text \<open>C35: a string comparison whose column is written with its table alias
  (\<open>WHERE e.name = 'Alice'\<close>) passes the analyzer and the encryptor, and the server rejects the
  package: the validator looks the qualified name up in the schema as it stands.\<close>

theorem qualified_string_rejected:
  assumes e: "encryptCatalog F s plan cat meta = Inr pkg"
    and w: "st_whereClause s = Some (Comparison k (ColumnRef n) (StringLiteral x))" "hasDot n"
    and t: "cat_tables cat (pp_tableName plan) = Some t" "wfSchema t" "widthsFit t"
      "columnOpt t (bareName n) = Some cs" "0 < cs_maxLength cs"
    and small: "length (pk_predicateNodes pkg) < 2 ^ 32" "length (pk_encryptedLiterals pkg) < 2 ^ 32"
    and h: "checkHeader cat sid pkg = Inr t"
  shows "validate cat sid pkg = Some (Inl (columnNotFound n))"
proof -
  let ?i = "of_nat (length (pk_predicateNodes pkg) - 1) :: u32"
  from encrypted_represents [OF e w(1) t(1) small]
  have "represents F t (pk_predicateNodes pkg) (pk_encryptedLiterals pkg) ?i
      (Comparison k (ColumnRef n) (StringLiteral x))" .
  then obtain firstId where node: "nodeAt (pk_predicateNodes pkg) ?i (stringNode k n firstId (cs_maxLength cs))"
    using t(4) by (cases rule: represents.cases) (auto simp: column_columnOpt stringComparison_def)
  then have ne: "pk_predicateNodes pkg \<noteq> []" by (auto simp: nodeAt_def)
  have "\<not> hasColumn t n" using t(2) w(2) by (auto simp: hasColumn_iff wfSchema_def list_all_iff)
  then have "column t n = Inl (columnNotFound n)"
    by (auto simp: column_def hasColumn_iff find_None_iff split: option.splits dest: find_Some_iff [THEN iffD1])
  moreover have "cs_maxLength cs < 2 ^ 32" using t(3) columnOpt_member [OF t(4)] by (simp add: widthsFit_def)
  then have "(of_nat (cs_maxLength cs) :: u32) \<noteq> 0" using t(5) u32_index by (metis less_numeral_extra(3) unat_0)
  moreover have "n \<noteq> []" using w(2) by (auto simp: hasDot_iff)
  ultimately have "checkLeaf cat pkg t (stringNode k n firstId (cs_maxLength cs)) = Inl (columnNotFound n)"
    by (simp add: checkLeaf_def stringNode_def emptyNode_def checkStringPredicate_def)
  with walk_node(1) [OF node, of cat t] ne h show ?thesis
    by (simp add: validate_def stringNode_def leafKind_def)
qed

theorem qualified_string_rejected_witness:
  "\<exists>pkg. encryptCatalog plainFhe
        (encSample\<lparr>st_whereClause := Some (Comparison Equal (ColumnRef ''e.name'') (StringLiteral ''Alice''))\<rparr>)
        (encPlan\<lparr>pp_tableAlias := ''e''\<rparr>) makeEmployeesCatalog encMeta = Inr pkg
     \<and> validate makeEmployeesCatalog ''bfv-257-depth12'' pkg = Some (Inl (columnNotFound ''e.name''))"
proof -
  let ?w = "Comparison Equal (ColumnRef ''e.name'') (StringLiteral ''Alice'')"
  let ?s = "encSample\<lparr>st_whereClause := Some ?w\<rparr>"
  let ?plan = "encPlan\<lparr>pp_tableAlias := ''e''\<rparr>"
  have n: "bareName ''name'' = ''name''" "bareName ''age'' = ''age''" "qualifier d ''name'' = d"
    "qualifier d ''age'' = d" for d
    by (simp_all add: hasDot_iff bareName_undotted qualifier_undotted)
  have q: "bareName ''e.name'' = ''name''" using qualified_parts(2) [of "''e''" "''name''"] by simp
  from n obtain rs where rs: "mapE (resultColumn ?plan makeEmployeesCatalog) (pp_projectColumns ?plan) = Inr rs"
    by (simp add: encPlan_def resultColumn_def getTable_def encSample_columns)
  obtain i st where b: "buildPredNode plainFhe employeesSchema ?w startState = Inr (i, st)"
    by (simp add: pushNode_def stringComparison_def Let_def addEncryptedString_def encSample_columns q)
  then have len: "length (es_nodes st) = 1 \<and> length (es_literals st) = 16
      \<and> (\<forall>l\<in>set (es_literals st). el_ciphertextBytes l \<noteq> [])"
    using plainFhe_laws(1)
    by (auto simp: pushNode_def stringComparison_def Let_def addEncryptedString_def
        encSample_columns q startState_def upt_rec pushLiteral_def fhe_wire_law_def)
  let ?pkg = "packageOf ?plan encMeta rs st"
  have p: "encryptCatalog plainFhe ?s ?plan makeEmployeesCatalog encMeta = Inr ?pkg"
    using rs b by (simp add: encryptCatalog_def encryptWhere_def getTable_def encSample_columns encPlan_def)
  have hc: "hasColumn employeesSchema ''age''" "hasColumn employeesSchema ''name''"
    by (simp_all add: hasColumn_iff employeesSchema_def)
  have h: "checkHeader makeEmployeesCatalog ''bfv-257-depth12'' ?pkg = Inr employeesSchema"
    using len hc n
    by (simp add: checkHeader_iff packageOf_def encPlan_def encMeta_def encSample_columns checkColumn_def
        targetTable_def)
  have t: "cat_tables makeEmployeesCatalog (pp_tableName ?plan) = Some employeesSchema"
    by (simp add: encPlan_def encSample_columns)
  have wf: "wfSchema employeesSchema"
    using makeEmployeesCatalog_wf encSample_columns(1) by (simp add: wfCatalog_def)
  have c: "columnOpt employeesSchema (bareName ''e.name'') = Some \<lparr>cs_name = ''name'', cs_type = STRING, cs_maxLength = 16\<rparr>"
    unfolding q by (simp add: columnOpt_def employeesSchema_def)
  have "validate makeEmployeesCatalog ''bfv-257-depth12'' ?pkg = Some (Inl (columnNotFound ''e.name''))"
    by (rule qualified_string_rejected [OF p _ _ t wf _ c _ _ _ h])
      (use len in \<open>simp_all add: hasDot_iff widthsFit_def employeesSchema_def packageOf_def\<close>)
  with p show ?thesis by blast
qed

end
