(* ===== verification/Hega_Executor.thy ===== *)
theory Hega_Executor
  imports Hega_Validator
begin

text \<open>
  The server's executor (\<open>include/proto2/query_executor.h\<close>, \<open>execution/query_executor.cpp\<close>).
  Expressions, physical operators and the encrypted storage belong to the \<open>proto1\<close> library,
  which is not part of the repository: they are the fields of the parameter \<open>Proto1\<close>.  The tree
  of a package is read by a \<open>partial_function\<close>, as in the validator.
\<close>

section \<open>Definitions\<close>

subsection \<open>What the executor uses of proto1\<close>

record ChunkMeta =
  cm_partitionId :: u32
  cm_chunkId :: u32

record 'ct Chunk =
  ch_logicalRowCount :: int
  ch_ciphertexts :: "'ct list"

record 'ct EncBatch =
  eb_logicalRowCount :: int
  eb_columns :: "string \<rightharpoonup> 'ct Chunk"
  eb_selectionMask :: "'ct option"

text \<open>Expression factories and \<open>ExpressionExecutor::evaluate\<close>; \<open>stringPhysicalColumn\<close>; the storage;
  the operators, with the results of the successive calls of \<open>EncryptedResultStream::next\<close>.\<close>

record ('ct, 'e, 'op) Proto1 =
  p1_columnRef :: "string \<Rightarrow> 'e"
  p1_encLiteral :: "'ct \<Rightarrow> 'e"
  p1_equal :: "'e \<Rightarrow> 'e \<Rightarrow> 'e"
  p1_gt :: "'e \<Rightarrow> 'e \<Rightarrow> 'e"
  p1_lt :: "'e \<Rightarrow> 'e \<Rightarrow> 'e"
  p1_andExpr :: "'e \<Rightarrow> 'e \<Rightarrow> 'e"
  p1_orExpr :: "'e \<Rightarrow> 'e \<Rightarrow> 'e"
  p1_notExpr :: "'e \<Rightarrow> 'e"
  p1_evaluate :: "'e \<Rightarrow> 'ct EncBatch \<Rightarrow> 'ct result"
  p1_stringPhysicalColumn :: "string \<Rightarrow> nat \<Rightarrow> string"
  p1_listChunks :: "string \<Rightarrow> string \<Rightarrow> ChunkMeta list result"
  p1_getChunk :: "string \<Rightarrow> string \<Rightarrow> u32 \<Rightarrow> u32 \<Rightarrow> 'ct Chunk result"
  p1_tableScan :: "string \<Rightarrow> string list \<Rightarrow> 'op"
  p1_filter :: "'op \<Rightarrow> 'e \<Rightarrow> 'op"
  p1_project :: "'op \<Rightarrow> string list \<Rightarrow> 'op"
  p1_batches :: "'op \<Rightarrow> 'ct EncBatch result list"

subsection \<open>Expressions\<close>

definition loadLiteral :: "'ct Fhe \<Rightarrow> QueryPackage \<Rightarrow> err \<Rightarrow> u32 \<Rightarrow> 'ct result" where
  "loadLiteral F pkg e i =
     (case find (\<lambda>l. el_id l = i) (pk_encryptedLiterals pkg) of
        None \<Rightarrow> Inl e
      | Some entry \<Rightarrow> fhe_deserializeWithSize F (el_ciphertextBytes entry) (unat (el_logicalSize entry)))"

text \<open>The balanced conjunction of \<open>comparisons[lo, hi)\<close>; the range is never empty.\<close>

function combine :: "('ct, 'e, 'op) Proto1 \<Rightarrow> 'e list \<Rightarrow> nat \<Rightarrow> nat \<Rightarrow> 'e" where
  "combine P comparisons lo hi =
     (if hi - lo \<le> 1 then comparisons ! lo
      else let middle = lo + (hi - lo) div 2 in
        p1_andExpr P (combine P comparisons lo middle) (combine P comparisons middle hi))"
  by pat_completeness auto
termination
  by (relation "measure (\<lambda>(P, cs, lo, hi). hi - lo)") auto

declare combine.simps [simp del]

definition stringLiteralNotFound :: err where
  "stringLiteralNotFound = RuntimeError ''buildExpression: string literal not found''"

definition stringComparisons ::
  "'ct Fhe \<Rightarrow> ('ct, 'e, 'op) Proto1 \<Rightarrow> QueryPackage \<Rightarrow> PredNode \<Rightarrow> 'e list result" where
  "stringComparisons F P pkg node =
     mapE (\<lambda>position.
       bindE (loadLiteral F pkg stringLiteralNotFound
                (pn_literalId node + of_nat position)) (\<lambda>literal.
       Inr (p1_equal P (p1_columnRef P (p1_stringPhysicalColumn P (pn_columnName node) position))
                       (p1_encLiteral P literal))))
     [0..<unat (pn_stringWidth node)]"

definition literalNotFound :: "u32 \<Rightarrow> err" where
  "literalNotFound i = RuntimeError (''buildExpression: literal not found: '' @ show_nat (unat i))"

definition unknownNodeKind :: err where
  "unknownNodeKind = RuntimeError ''buildExpression: unknown node kind''"

text \<open>The cases without children, and what falls out of the switch.\<close>

definition buildLeaf :: "'ct Fhe \<Rightarrow> ('ct, 'e, 'op) Proto1 \<Rightarrow> QueryPackage \<Rightarrow> PredNode \<Rightarrow> 'e result" where
  "buildLeaf F P pkg node =
     (if pn_kind node = PColumnRef then Inr (p1_columnRef P (pn_columnName node))
      else if pn_kind node = PLiteralRef then
        bindE (loadLiteral F pkg (literalNotFound (pn_literalId node)) (pn_literalId node)) (\<lambda>ct.
          Inr (p1_encLiteral P ct))
      else if pn_kind node = POther then Inl unknownNodeKind
      else bindE (stringComparisons F P pkg node) (\<lambda>comparisons.
           if comparisons = [] then Inl (RuntimeError ''buildExpression: empty string width'')
           else let result = combine P comparisons 0 (length comparisons) in
             Inr (if pn_kind node = PStringNotEqual then p1_notExpr P result else result)))"

text \<open>The cases with two children; \<open>!=\<close>, \<open>>=\<close> and \<open><=\<close> are composed.\<close>

definition binaryExpr :: "('ct, 'e, 'op) Proto1 \<Rightarrow> PredNodeKind \<Rightarrow> 'e \<Rightarrow> 'e \<Rightarrow> 'e" where
  "binaryExpr P k l r =
     (case k of
        PEqual \<Rightarrow> p1_equal P l r
      | PNotEqual \<Rightarrow> p1_notExpr P (p1_equal P l r)
      | PGreaterThan \<Rightarrow> p1_gt P l r
      | PLessThan \<Rightarrow> p1_lt P l r
      | PGreaterEqual \<Rightarrow> p1_orExpr P (p1_gt P l r) (p1_equal P l r)
      | PLessEqual \<Rightarrow> p1_orExpr P (p1_lt P l r) (p1_equal P l r)
      | PAnd \<Rightarrow> p1_andExpr P l r
      | _ \<Rightarrow> p1_orExpr P l r)"

partial_function (option) buildExpression ::
  "'ct Fhe \<Rightarrow> ('ct, 'e, 'op) Proto1 \<Rightarrow> QueryPackage \<Rightarrow> u32 \<Rightarrow> 'e result option" where
  "buildExpression F P pkg i =
     (if length (pk_predicateNodes pkg) \<le> unat i
      then Some (Inl (RuntimeError ''buildExpression: node index out of range''))
      else let node = pk_predicateNodes pkg ! unat i in
        if leafKind (pn_kind node) then Some (buildLeaf F P pkg node)
        else if pn_kind node = PNot then
          Option.bind (buildExpression F P pkg (pn_left node)) (\<lambda>l.
            Some (bindE l (\<lambda>l. Inr (p1_notExpr P l))))
        else Option.bind (buildExpression F P pkg (pn_left node)) (\<lambda>l.
          if isOk l
          then Option.bind (buildExpression F P pkg (pn_right node)) (\<lambda>r.
                 Some (bindE l (\<lambda>l. bindE r (\<lambda>r. Inr (binaryExpr P (pn_kind node) l r)))))
          else Some l))"

text \<open>The root of the predicate, when there is one.\<close>

definition buildWhere ::
  "'ct Fhe \<Rightarrow> ('ct, 'e, 'op) Proto1 \<Rightarrow> QueryPackage \<Rightarrow> 'e option result option" where
  "buildWhere F P pkg =
     (if pk_predicateNodes pkg = [] then Some (Inr None)
      else Option.bind (buildExpression F P pkg (of_nat (length (pk_predicateNodes pkg) - 1))) (\<lambda>r.
             Some (bindE r (\<lambda>ex. Inr (Some ex)))))"

subsection \<open>Columns of the result\<close>

definition physicalNames :: "('ct, 'e, 'op) Proto1 \<Rightarrow> string \<Rightarrow> ColumnSchema \<Rightarrow> string list" where
  "physicalNames P name cs =
     (if cs_type cs = STRING then map (p1_stringPhysicalColumn P name) [0..<cs_maxLength cs]
      else [name])"

definition columnResult ::
  "'ct Fhe \<Rightarrow> string \<Rightarrow> ColumnSchema \<Rightarrow> nat \<Rightarrow> 'ct \<Rightarrow> EncryptedColumnResult" where
  "columnResult F name cs position ct =
     \<lparr>cr_columnName = name,
      cr_logicalType = (if cs_type cs = STRING then ''STRING'' else ''INT64''),
      cr_stringPosition = of_nat position, cr_ciphertextBytes = fhe_serialize F ct,
      cr_logicalSize = fhe_logicalSize F ct\<rparr>"

text \<open>One result per physical column, from a lookup that may throw.\<close>

definition columnResults ::
  "'ct Fhe \<Rightarrow> ('ct, 'e, 'op) Proto1 \<Rightarrow> (string \<Rightarrow> 'ct Chunk result) \<Rightarrow> (string \<Rightarrow> err) \<Rightarrow>
   string \<Rightarrow> string \<Rightarrow> ColumnSchema \<Rightarrow> EncryptedColumnResult list result" where
  "columnResults F P lookup noCiphertext name physical cs =
     mapE (\<lambda>(position, physicalName).
       bindE (lookup physicalName) (\<lambda>chunk.
       case ch_ciphertexts chunk of
         [] \<Rightarrow> Inl (noCiphertext physicalName)
       | ct # _ \<Rightarrow> Inr (columnResult F name cs position ct)))
     (enumerate 0 (physicalNames P physical cs))"

subsection \<open>JOIN\<close>

definition addTableColumns ::
  "('ct, 'e, 'op) Proto1 \<Rightarrow> Catalog \<Rightarrow> string \<Rightarrow> string \<Rightarrow> u32 \<Rightarrow> 'ct EncBatch \<Rightarrow> 'ct EncBatch result" where
  "addTableColumns P cat table alias chunkId batch =
     bindE (getTable cat table) (\<lambda>t.
       foldE (\<lambda>physical b.
           bindE (p1_getChunk P table physical 0 chunkId) (\<lambda>chunk.
             Inr (b\<lparr>eb_columns := (eb_columns b)(alias @ CHR ''.'' # physical \<mapsto> chunk)\<rparr>)))
         (concat (map (\<lambda>cs. physicalNames P (cs_name cs) cs) (ts_columns t))) batch)"

definition whereUsesJoinedTable :: "QueryPackage \<Rightarrow> bool" where
  "whereUsesJoinedTable pkg \<longleftrightarrow>
     list_ex (\<lambda>node. pn_kind node = PColumnRef
       \<and> startsWith (pn_columnName node) (pk_joinedTableAlias pkg @ ''.'')) (pk_predicateNodes pkg)"

definition emptyBatch :: "'ct EncBatch" where
  "emptyBatch = \<lparr>eb_logicalRowCount = 1, eb_columns = Map.empty, eb_selectionMask = None\<rparr>"

definition joinColumn ::
  "'ct Fhe \<Rightarrow> ('ct, 'e, 'op) Proto1 \<Rightarrow> Catalog \<Rightarrow> QueryPackage \<Rightarrow> ChunkMeta \<Rightarrow> ChunkMeta \<Rightarrow> string \<Rightarrow>
   EncryptedColumnResult list result" where
  "joinColumn F P cat pkg lm rm name =
     (let left = (qualifier (pk_tableAlias pkg) name = pk_tableAlias pkg);
          bare = bareName name;
          table = (if left then pk_tableName pkg else pk_joinedTableName pkg);
          chunkId = (if left then cm_chunkId lm else cm_chunkId rm) in
      bindE (getTable cat table) (\<lambda>t.
      bindE (column t bare) (\<lambda>cs.
        columnResults F P (\<lambda>physical. p1_getChunk P table physical 0 chunkId)
          (\<lambda>_. RuntimeError ''JOIN result column has no ciphertext'') name bare cs)))"

definition checkChunkSize :: "'ct Chunk \<Rightarrow> unit result" where
  "checkChunkSize chunk = throwIf (ch_logicalRowCount chunk \<noteq> 1)
     (RuntimeError ''JOIN requires setup data ingested with chunk size 1'')"

definition joinPair ::
  "'ct Fhe \<Rightarrow> ('ct, 'e, 'op) Proto1 \<Rightarrow> Catalog \<Rightarrow> QueryPackage \<Rightarrow> string \<Rightarrow> 'e option \<Rightarrow>
   ChunkMeta \<Rightarrow> 'ct option \<Rightarrow> ChunkMeta \<Rightarrow> EncryptedResultBatch list \<Rightarrow> EncryptedResultBatch list result" where
  "joinPair F P cat pkg rightKey w lm leftMask rm results =
     bindE (p1_getChunk P (pk_joinedTableName pkg) rightKey (cm_partitionId rm) (cm_chunkId rm)) (\<lambda>rightJoin.
     bindE (checkChunkSize rightJoin) (\<lambda>_.
     bindE (addTableColumns P cat (pk_tableName pkg) (pk_tableAlias pkg) (cm_chunkId lm) emptyBatch) (\<lambda>b.
     bindE (addTableColumns P cat (pk_joinedTableName pkg) (pk_joinedTableAlias pkg) (cm_chunkId rm) b) (\<lambda>pair.
     bindE (p1_evaluate P (p1_equal P (p1_columnRef P (pk_joinLeftColumn pkg))
                                     (p1_columnRef P (pk_joinRightColumn pkg))) pair) (\<lambda>mask.
     bindE (case w of
              Some ex \<Rightarrow>
                if whereUsesJoinedTable pkg
                then bindE (p1_evaluate P ex pair) (\<lambda>m. Inr (fhe_evalMult F mask m))
                else Inr (case leftMask of Some m \<Rightarrow> fhe_evalMult F mask m | None \<Rightarrow> mask)
            | None \<Rightarrow> Inr mask) (\<lambda>mask.
     bindE (mapE (joinColumn F P cat pkg lm rm) (pk_projectColumns pkg)) (\<lambda>cols.
     Inr (results @
       [\<lparr>rb_batchId = of_nat (length results), rb_logicalRowCount = 1, rb_columns = concat cols,
         rb_selectionMaskBytes = fhe_serialize F mask, rb_hasMask = True\<rparr>]))))))))"

definition joinLeft ::
  "'ct Fhe \<Rightarrow> ('ct, 'e, 'op) Proto1 \<Rightarrow> Catalog \<Rightarrow> QueryPackage \<Rightarrow> string \<Rightarrow> string \<Rightarrow> 'e option \<Rightarrow>
   ChunkMeta list \<Rightarrow> ChunkMeta \<Rightarrow> EncryptedResultBatch list \<Rightarrow> EncryptedResultBatch list result" where
  "joinLeft F P cat pkg leftKey rightKey w rightChunks lm results =
     bindE (p1_getChunk P (pk_tableName pkg) leftKey (cm_partitionId lm) (cm_chunkId lm)) (\<lambda>leftJoin.
     bindE (checkChunkSize leftJoin) (\<lambda>_.
     bindE (case w of
              Some ex \<Rightarrow>
                if whereUsesJoinedTable pkg then Inr None
                else bindE (addTableColumns P cat (pk_tableName pkg) (pk_tableAlias pkg) (cm_chunkId lm) emptyBatch)
                       (\<lambda>leftOnly. bindE (p1_evaluate P ex leftOnly) (\<lambda>m. Inr (Some m)))
            | None \<Rightarrow> Inr None) (\<lambda>leftMask.
     foldE (joinPair F P cat pkg rightKey w lm leftMask) rightChunks results)))"

definition executeJoin ::
  "'ct Fhe \<Rightarrow> ('ct, 'e, 'op) Proto1 \<Rightarrow> Catalog \<Rightarrow> QueryPackage \<Rightarrow> EncryptedResultBatch list result option" where
  "executeJoin F P cat pkg =
     (let leftPrefix = pk_tableAlias pkg @ ''.''; rightPrefix = pk_joinedTableAlias pkg @ ''.'' in
      if \<not> startsWith (pk_joinLeftColumn pkg) leftPrefix \<or> \<not> startsWith (pk_joinRightColumn pkg) rightPrefix
      then Some (Inl (RuntimeError ''JOIN columns must be qualified by their aliases''))
      else let leftKey = drop (length leftPrefix) (pk_joinLeftColumn pkg);
               rightKey = drop (length rightPrefix) (pk_joinRightColumn pkg) in
        case bindE (p1_listChunks P (pk_tableName pkg) leftKey) (\<lambda>leftChunks.
             bindE (p1_listChunks P (pk_joinedTableName pkg) rightKey) (\<lambda>rightChunks.
               Inr (leftChunks, rightChunks))) of
          Inl e \<Rightarrow> Some (Inl e)
        | Inr (leftChunks, rightChunks) \<Rightarrow>
            Option.bind (buildWhere F P pkg) (\<lambda>w. Some (bindE w (\<lambda>w.
              foldE (joinLeft F P cat pkg leftKey rightKey w rightChunks) leftChunks []))))"

subsection \<open>One table\<close>

definition expandColumns ::
  "('ct, 'e, 'op) Proto1 \<Rightarrow> Catalog \<Rightarrow> QueryPackage \<Rightarrow> string list \<Rightarrow> string list result" where
  "expandColumns P cat pkg names =
     bindE (mapE (\<lambda>name. bindE (getTable cat (pk_tableName pkg)) (\<lambda>t.
                         bindE (column t name) (\<lambda>cs. Inr (physicalNames P name cs)))) names) (\<lambda>ps.
     Inr (concat ps))"

definition missingColumn :: "string \<Rightarrow> err" where
  "missingColumn name = RuntimeError (''QueryExecutor: missing column: '' @ name)"

definition emptyCiphertext :: "string \<Rightarrow> err" where
  "emptyCiphertext name = RuntimeError (''QueryExecutor: empty ciphertext for: '' @ name)"

definition batchColumn ::
  "'ct Fhe \<Rightarrow> ('ct, 'e, 'op) Proto1 \<Rightarrow> Catalog \<Rightarrow> QueryPackage \<Rightarrow> 'ct EncBatch \<Rightarrow> string \<Rightarrow>
   EncryptedColumnResult list result" where
  "batchColumn F P cat pkg batch name =
     bindE (getTable cat (pk_tableName pkg)) (\<lambda>t.
     bindE (column t name) (\<lambda>cs.
       columnResults F P
         (\<lambda>physical. case eb_columns batch physical of None \<Rightarrow> Inl (missingColumn physical) | Some c \<Rightarrow> Inr c)
         emptyCiphertext name name cs))"

definition serializeResult ::
  "'ct Fhe \<Rightarrow> ('ct, 'e, 'op) Proto1 \<Rightarrow> Catalog \<Rightarrow> QueryPackage \<Rightarrow> 'ct EncBatch result \<Rightarrow>
   EncryptedResultBatch list \<Rightarrow> EncryptedResultBatch list result" where
  "serializeResult F P cat pkg next results =
     bindE next (\<lambda>batch.
     bindE (mapE (batchColumn F P cat pkg batch) (pk_projectColumns pkg)) (\<lambda>cols.
     Inr (results @
       [\<lparr>rb_batchId = of_nat (length results), rb_logicalRowCount = eb_logicalRowCount batch,
         rb_columns = concat cols,
         rb_selectionMaskBytes = (case eb_selectionMask batch of None \<Rightarrow> [] | Some m \<Rightarrow> fhe_serialize F m),
         rb_hasMask = (eb_selectionMask batch \<noteq> None)\<rparr>])))"

definition executeScan ::
  "'ct Fhe \<Rightarrow> ('ct, 'e, 'op) Proto1 \<Rightarrow> Catalog \<Rightarrow> QueryPackage \<Rightarrow> EncryptedResultBatch list result option" where
  "executeScan F P cat pkg =
     (case expandColumns P cat pkg (pk_scanColumns pkg) of
        Inl e \<Rightarrow> Some (Inl e)
      | Inr scanColumns \<Rightarrow>
          Option.bind (buildWhere F P pkg) (\<lambda>w. Some (bindE w (\<lambda>w.
            let scan = p1_tableScan P (pk_tableName pkg) scanColumns;
                root = (case w of None \<Rightarrow> scan | Some ex \<Rightarrow> p1_filter P scan ex) in
            bindE (expandColumns P cat pkg (pk_projectColumns pkg)) (\<lambda>projectColumns.
              foldE (serializeResult F P cat pkg) (p1_batches P (p1_project P root projectColumns)) [])))))"

definition execute ::
  "'ct Fhe \<Rightarrow> ('ct, 'e, 'op) Proto1 \<Rightarrow> Catalog \<Rightarrow> QueryPackage \<Rightarrow> EncryptedResultBatch list result option" where
  "execute F P cat pkg =
     (if pk_hasJoin pkg then executeJoin F P cat pkg else executeScan F P cat pkg)"

section \<open>Building expressions\<close>

text \<open>The library can load the ciphertexts that the package carries.\<close>

definition literalsLoad :: "'ct Fhe \<Rightarrow> QueryPackage \<Rightarrow> bool" where
  "literalsLoad F pkg \<longleftrightarrow> (\<forall>l\<in>set (pk_encryptedLiterals pkg).
     \<exists>ct. fhe_deserializeWithSize F (el_ciphertextBytes l) (unat (el_logicalSize l)) = Inr ct)"

lemma loadLiteral_found:
  assumes "list_ex (\<lambda>l. el_id l = i) (pk_encryptedLiterals pkg)" "literalsLoad F pkg"
  shows "\<exists>ct. loadLiteral F pkg e i = Inr ct"
proof -
  from assms(1) obtain l where "find (\<lambda>l. el_id l = i) (pk_encryptedLiterals pkg) = Some l"
    by (cases "find (\<lambda>l. el_id l = i) (pk_encryptedLiterals pkg)") (auto simp: list_ex_iff find_None_iff)
  moreover from this have "l \<in> set (pk_encryptedLiterals pkg)" by (auto simp: find_Some_iff)
  ultimately show ?thesis using assms(2) by (auto simp: loadLiteral_def literalsLoad_def)
qed

text \<open>A leaf that the validator accepts is built, unless its kind is outside the enum.\<close>

lemma checked_leaf_builds:
  assumes k: "leafKind (pn_kind node)" and c: "checkLeaf cat pkg schema node = Inr ()"
    and d: "literalsLoad F pkg"
  shows "if pn_kind node = POther then buildLeaf F P pkg node = Inl unknownNodeKind
    else \<exists>ex. buildLeaf F P pkg node = Inr ex"
proof -
  have str: "\<exists>ex. buildLeaf F P pkg node = Inr ex"
    if s: "pn_kind node = PStringEqual \<or> pn_kind node = PStringNotEqual"
  proof -
    let ?w = "unat (pn_stringWidth node)"
    from s c have ok: "pn_stringWidth node \<noteq> 0" "\<forall>p\<in>set [0..<?w].
        list_ex (\<lambda>l. el_id l = pn_literalId node + of_nat p) (pk_encryptedLiterals pkg)"
      by (fastforce simp: checkLeaf_def checkStringPredicate_def bindE_eq_Inr forE_eq_Inr list_ex_iff)+
    then have "0 < ?w" by (simp add: unat_gt_0)
    have "\<forall>p. p < ?w \<longrightarrow> (\<exists>ct. loadLiteral F pkg stringLiteralNotFound (pn_literalId node + of_nat p) = Inr ct)"
      using ok(2) loadLiteral_found [OF _ d] by simp
    then obtain ct where "\<And>p. p < ?w \<Longrightarrow>
        loadLiteral F pkg stringLiteralNotFound (pn_literalId node + of_nat p) = Inr (ct p)"
      by metis
    then have "stringComparisons F P pkg node = Inr (map (\<lambda>p. p1_equal P
        (p1_columnRef P (p1_stringPhysicalColumn P (pn_columnName node) p))
        (p1_encLiteral P (ct p))) [0..<?w])"
      unfolding stringComparisons_def by (intro mapE_total) simp
    with s \<open>0 < ?w\<close> show ?thesis by (auto simp: buildLeaf_def Let_def)
  qed
  from k consider "pn_kind node = PColumnRef" | "pn_kind node = PLiteralRef"
    | "pn_kind node = PStringEqual \<or> pn_kind node = PStringNotEqual" | "pn_kind node = POther"
    by (auto simp: leafKind_def)
  then show ?thesis
  proof cases
    case 2
    with c loadLiteral_found [OF _ d, of "pn_literalId node" "literalNotFound (pn_literalId node)"]
    show ?thesis by (auto simp: buildLeaf_def checkLeaf_def)
  qed (use str in \<open>auto simp: buildLeaf_def\<close>)
qed

text \<open>The expression of a tree that the validator accepts: it is built, or the builder stops at a kind
  outside the enum.\<close>

definition built :: "QueryPackage \<Rightarrow> 'e result option \<Rightarrow> bool" where
  "built pkg r \<longleftrightarrow> (\<exists>ex. r = Some (Inr ex))
     \<or> r = Some (Inl unknownNodeKind) \<and> (\<exists>n\<in>set (pk_predicateNodes pkg). pn_kind n = POther)"

lemma built_not: "built pkg r \<Longrightarrow> built pkg (Option.bind r (\<lambda>l. Some (bindE l (\<lambda>l. Inr (f l)))))"
  by (auto simp: built_def)

lemma built_binary:
  "built pkg r \<Longrightarrow> built pkg r' \<Longrightarrow>
   built pkg (Option.bind r (\<lambda>l. if isOk l
     then Option.bind r' (\<lambda>r. Some (bindE l (\<lambda>l. bindE r (\<lambda>r. Inr (f l r))))) else Some l))"
  by (auto simp: built_def)

lemma accepted_tree_builds:
  assumes w: "validatePredTree cat pkg schema i = Some r"
  shows "r = Inr () \<and> literalsLoad F pkg \<longrightarrow> built pkg (buildExpression F P pkg i)"
proof (rule validatePredTree.raw_induct [OF _ w], intro impI)
  fix walk :: "Catalog \<Rightarrow> QueryPackage \<Rightarrow> TableSchema \<Rightarrow> u32 \<Rightarrow> unit result option"
  fix cat schema r and i :: u32 and pkg :: QueryPackage
  let ?n = "pk_predicateNodes pkg ! unat i"
  assume IH: "\<And>cat pkg schema i r. walk cat pkg schema i = Some r \<Longrightarrow>
      r = Inr () \<and> literalsLoad F pkg \<longrightarrow> built pkg (buildExpression F P pkg i)"
    and b: "(if length (pk_predicateNodes pkg) \<le> unat i
      then Some (Inl (validationError ''Predicate node index out of range: '' (show_nat (unat i))))
      else let node = ?n in
        if leafKind (pn_kind node) then Some (checkLeaf cat pkg schema node)
        else if pn_kind node = PNot then
          (if pn_left node = UINT32_MAX
           then Some (Inl (ValidationError ''NOT predicate node missing child''))
           else walk cat pkg schema (pn_left node))
        else if pn_left node = UINT32_MAX \<or> pn_right node = UINT32_MAX
          then Some (Inl (ValidationError
                 (if pn_kind node = PAnd \<or> pn_kind node = POr
                  then ''Boolean predicate node missing children''
                  else ''Binary predicate node missing children'')))
        else Option.bind (walk cat pkg schema (pn_left node)) (\<lambda>r.
               if isOk r then walk cat pkg schema (pn_right node) else Some r)) = Some r"
    and rd: "r = Inr () \<and> literalsLoad F pkg"
  from rd have r: "r = Inr ()" and d: "literalsLoad F pkg" by simp_all
  have i: "unat i < length (pk_predicateNodes pkg)" using b r by (auto split: if_splits)
  note unfold = buildExpression.simps [of F P pkg i]
  consider "leafKind (pn_kind ?n)" "checkLeaf cat pkg schema ?n = Inr ()"
    | "\<not> leafKind (pn_kind ?n)" "pn_kind ?n = PNot" "walk cat pkg schema (pn_left ?n) = Some (Inr ())"
    | "\<not> leafKind (pn_kind ?n)" "pn_kind ?n \<noteq> PNot" "walk cat pkg schema (pn_left ?n) = Some (Inr ())"
      "walk cat pkg schema (pn_right ?n) = Some (Inr ())"
    using b i r by (auto simp: Let_def bind_eq_Some_conv isOk_iff split: if_splits)
  then show "built pkg (buildExpression F P pkg i)"
  proof cases
    case 1
    from i have "?n \<in> set (pk_predicateNodes pkg)" by simp
    with checked_leaf_builds [OF 1 d, of P] 1 i show ?thesis
      by (auto simp: unfold Let_def built_def split: if_splits)
  next
    case 2
    with IH [OF 2(3)] i d show ?thesis by (simp add: unfold Let_def built_not)
  next
    case 3
    with IH [OF 3(3)] IH [OF 3(4)] i d show ?thesis by (simp add: unfold Let_def built_binary)
  qed
qed

section \<open>The depth of a balanced conjunction\<close>

text \<open>The nesting of \<open>combine\<close> over n comparisons, and its logarithmic bound.\<close>

fun treeDepth :: "nat \<Rightarrow> nat" where
  "treeDepth n = (if n \<le> 1 then 0 else Suc (treeDepth (n - n div 2)))"

declare treeDepth.simps [simp del]

lemma treeDepth_mono: "m \<le> n \<Longrightarrow> treeDepth m \<le> treeDepth n"
proof (induction n arbitrary: m rule: less_induct)
  case (less n)
  show ?case
  proof (cases "m \<le> 1")
    case True
    then show ?thesis by (simp add: treeDepth.simps [of m])
  next
    case False
    with less.prems have "m - m div 2 \<le> n - n div 2" "n - n div 2 < n" by linarith+
    from less.IH [OF this(2,1)] False less.prems show ?thesis
      by (simp add: treeDepth.simps [of m] treeDepth.simps [of n])
  qed
qed

lemma treeDepth_power: "n \<le> 2 ^ k \<Longrightarrow> treeDepth n \<le> k"
proof (induction k arbitrary: n)
  case 0
  then show ?case by (simp add: treeDepth.simps)
next
  case (Suc k)
  then have "n - n div 2 \<le> 2 ^ k" by simp
  from Suc.IH [OF this] show ?case by (simp add: treeDepth.simps [of n])
qed

lemma combine_depth:
  fixes cost :: "'e \<Rightarrow> nat"
  assumes a: "\<And>x y. cost (p1_andExpr P x y) \<le> Suc (max (cost x) (cost y))"
    and c: "\<And>i. lo \<le> i \<Longrightarrow> i < hi \<Longrightarrow> cost (comparisons ! i) \<le> c" and "lo < hi"
  shows "cost (combine P comparisons lo hi) \<le> c + treeDepth (hi - lo)"
  using a c \<open>lo < hi\<close>
proof (induction P comparisons lo hi rule: combine.induct)
  case (1 P comparisons lo hi)
  show ?case
  proof (cases "hi - lo \<le> 1")
    case True
    have "cost (comparisons ! lo) \<le> c" using "1.prems" by simp
    with True show ?thesis by (simp add: combine.simps [of P comparisons lo hi])
  next
    case False
    let ?n = "hi - lo" and ?m = "lo + (hi - lo) div 2"
    from False have n: "lo < ?m" "?m < hi" "hi - ?m = ?n - ?n div 2" "?m - lo \<le> ?n - ?n div 2"
      "treeDepth ?n = Suc (treeDepth (?n - ?n div 2))"
      by (simp_all add: treeDepth.simps [of "hi - lo"])
    have "cost (combine P comparisons lo ?m) \<le> c + treeDepth (?m - lo)"
      "cost (combine P comparisons ?m hi) \<le> c + treeDepth (hi - ?m)"
      using "1.IH" [OF False refl] "1.prems" n(1,2) by simp_all
    moreover have "treeDepth (?m - lo) \<le> treeDepth (?n - ?n div 2)" using n(4) by (rule treeDepth_mono)
    ultimately have "max (cost (combine P comparisons lo ?m)) (cost (combine P comparisons ?m hi))
        \<le> c + treeDepth (?n - ?n div 2)" unfolding n(3) by simp
    moreover have "combine P comparisons lo hi =
        p1_andExpr P (combine P comparisons lo ?m) (combine P comparisons ?m hi)"
      using False by (simp add: combine.simps [of P comparisons lo hi] Let_def)
    ultimately show ?thesis
      using "1.prems"(1) [of "combine P comparisons lo ?m" "combine P comparisons ?m hi"] n(5)
      by (simp add: max_def split: if_splits)
  qed
qed

section \<open>The result batches\<close>

lemma mapE_elem: "mapE f xs = Inr ys \<Longrightarrow> x \<in> set xs \<Longrightarrow> \<exists>y. f x = Inr y"
  by (induction xs arbitrary: ys) (auto simp: bindE_eq_Inr)

text \<open>Batches are numbered by their position; those of a JOIN have one row and a mask.\<close>

definition numbered :: "EncryptedResultBatch list \<Rightarrow> bool" where
  "numbered rs \<longleftrightarrow> (\<forall>k < length rs. rb_batchId (rs ! k) = of_nat k)"

definition joinBatch :: "EncryptedResultBatch \<Rightarrow> bool" where
  "joinBatch b \<longleftrightarrow> rb_logicalRowCount b = 1 \<and> rb_hasMask b"

lemma numbered_snoc:
  "numbered rs \<Longrightarrow> rb_batchId b = of_nat (length rs) \<Longrightarrow> numbered (rs @ [b])"
  by (auto simp: numbered_def nth_append less_Suc_eq)

definition joinInv :: "EncryptedResultBatch list \<Rightarrow> bool" where
  "joinInv rs \<longleftrightarrow> numbered rs \<and> list_all joinBatch rs"

lemma joinPair_step:
  assumes "joinPair F P cat pkg rightKey w lm leftMask rm rs = Inr rs'" "joinInv rs"
  shows "joinInv rs' \<and> length rs' = length rs + 1"
  using assms by (auto simp: joinPair_def bindE_eq_Inr joinInv_def joinBatch_def intro: numbered_snoc)

lemma joinLeft_step:
  assumes "joinLeft F P cat pkg leftKey rightKey w rightChunks lm rs = Inr rs'" "joinInv rs"
  shows "joinInv rs' \<and> length rs' = length rs + length rightChunks"
proof -
  from assms(1) obtain leftMask where
    f: "foldE (joinPair F P cat pkg rightKey w lm leftMask) rightChunks rs = Inr rs'"
    by (auto simp: joinLeft_def bindE_eq_Inr)
  have "joinInv rs' \<and> length rs' = length rs + 1 * length rightChunks"
    by (rule foldE_grows [where I = joinInv and m = length, OF _ assms(2) f]) (rule joinPair_step)
  then show ?thesis by simp
qed

lemma executeJoin_batches:
  assumes "executeJoin F P cat pkg = Some (Inr rs)"
  shows "\<exists>ls rcs. p1_listChunks P (pk_tableName pkg) (drop (length (pk_tableAlias pkg) + 1) (pk_joinLeftColumn pkg)) = Inr ls
     \<and> p1_listChunks P (pk_joinedTableName pkg)
         (drop (length (pk_joinedTableAlias pkg) + 1) (pk_joinRightColumn pkg)) = Inr rcs
     \<and> length rs = length ls * length rcs \<and> joinInv rs"
proof -
  from assms obtain ls rcs w where
    c: "p1_listChunks P (pk_tableName pkg) (drop (length (pk_tableAlias pkg) + 1) (pk_joinLeftColumn pkg)) = Inr ls"
      "p1_listChunks P (pk_joinedTableName pkg)
         (drop (length (pk_joinedTableAlias pkg) + 1) (pk_joinRightColumn pkg)) = Inr rcs"
    and f: "foldE (joinLeft F P cat pkg (drop (length (pk_tableAlias pkg) + 1) (pk_joinLeftColumn pkg))
         (drop (length (pk_joinedTableAlias pkg) + 1) (pk_joinRightColumn pkg)) w rcs) ls [] = Inr rs"
    by (auto simp: executeJoin_def Let_def bind_eq_Some_conv bindE_eq_Inr bindE_eq_Inl
        split: if_splits sum.splits prod.splits)
  have i: "joinInv []" by (simp add: joinInv_def numbered_def)
  have "joinInv rs \<and> length rs = length ([] :: EncryptedResultBatch list) + length rcs * length ls"
    by (rule foldE_grows [where I = joinInv and m = length, OF _ i f]) (rule joinLeft_step)
  with c show ?thesis by (simp add: mult.commute)
qed

lemma executeScan_numbered:
  assumes "executeScan F P cat pkg = Some (Inr rs)"
  shows "numbered rs"
proof -
  from assms obtain ns where "foldE (serializeResult F P cat pkg) ns [] = Inr rs"
    by (auto simp: executeScan_def Let_def bind_eq_Some_conv bindE_eq_Inr split: sum.splits)
  moreover have "numbered []" by (simp add: numbered_def)
  moreover have "numbered s' \<and> length s' = length s + 1"
    if "numbered s" "serializeResult F P cat pkg n s = Inr s'" for n s s'
    using that by (auto simp: serializeResult_def bindE_eq_Inr intro: numbered_snoc)
  ultimately show ?thesis
    using foldE_grows [where I = numbered and m = length and k = 1, of ns "serializeResult F P cat pkg" "[]" rs]
    by simp
qed

section \<open>A concrete library\<close>

text \<open>An instance of \<open>Proto1\<close> over the ciphertexts of \<open>plainFhe\<close>: an expression is a function of the
  columns and the slot, every column has two chunks of one row, and a scan is a list of batches.\<close>

definition plainEnv :: "int list EncBatch \<Rightarrow> string \<Rightarrow> nat \<Rightarrow> int" where
  "plainEnv b c i =
     (case eb_columns b c of None \<Rightarrow> 0
      | Some chunk \<Rightarrow> (case ch_ciphertexts chunk of [] \<Rightarrow> 0 | ct # _ \<Rightarrow> ct ! i))"

type_synonym plainExpr = "(string \<Rightarrow> nat \<Rightarrow> int) \<Rightarrow> nat \<Rightarrow> int"

definition plainChunk :: "u32 \<Rightarrow> int list Chunk" where
  "plainChunk k = \<lparr>ch_logicalRowCount = 1, ch_ciphertexts = [[int (unat k) + 1, 0, 0, 0]]\<rparr>"

definition plainProto1 :: "(int list, plainExpr, int list EncBatch list) Proto1" where
  "plainProto1 =
     \<lparr>p1_columnRef = (\<lambda>n env. env n), p1_encLiteral = (\<lambda>ct _ i. ct ! i),
      p1_equal = (\<lambda>x y env i. of_bool (x env i = y env i)),
      p1_gt = (\<lambda>x y env i. of_bool (x env i > y env i)),
      p1_lt = (\<lambda>x y env i. of_bool (x env i < y env i)),
      p1_andExpr = (\<lambda>x y env i. x env i * y env i),
      p1_orExpr = (\<lambda>x y env i. x env i + y env i - x env i * y env i),
      p1_notExpr = (\<lambda>x env i. 1 - x env i),
      p1_evaluate = (\<lambda>ex b. Inr (map (ex (plainEnv b)) [0..<4])),
      p1_stringPhysicalColumn = (\<lambda>n p. n @ replicate (Suc p) CHR ''#''),
      p1_listChunks = (\<lambda>_ _. Inr [\<lparr>cm_partitionId = 0, cm_chunkId = 0\<rparr>, \<lparr>cm_partitionId = 0, cm_chunkId = 1\<rparr>]),
      p1_getChunk = (\<lambda>_ _ _ k. Inr (plainChunk k)),
      p1_tableScan = (\<lambda>_ cs. map (\<lambda>k. \<lparr>eb_logicalRowCount = 1,
         eb_columns = (\<lambda>c. if c \<in> set cs then Some (plainChunk k) else None),
         eb_selectionMask = None\<rparr>) [0, 1]),
      p1_filter = (\<lambda>op ex. map (\<lambda>b. b\<lparr>eb_selectionMask := Some (map (ex (plainEnv b)) [0..<4])\<rparr>) op),
      p1_project = (\<lambda>op cs. map (\<lambda>b. b\<lparr>eb_columns := (\<lambda>c. if c \<in> set cs then eb_columns b c else None)\<rparr>) op),
      p1_batches = map Inr\<rparr>"

text \<open>A library that measures: the depth of every expression, 8 for a comparison.\<close>

definition depthProto1 :: "(int list, nat, unit) Proto1" where
  "depthProto1 =
     \<lparr>p1_columnRef = (\<lambda>_. 0), p1_encLiteral = (\<lambda>_. 0),
      p1_equal = (\<lambda>x y. 8 + max x y), p1_gt = (\<lambda>x y. 8 + max x y), p1_lt = (\<lambda>x y. 8 + max x y),
      p1_andExpr = (\<lambda>x y. Suc (max x y)), p1_orExpr = (\<lambda>x y. Suc (max x y)), p1_notExpr = (\<lambda>x. x),
      p1_evaluate = (\<lambda>_ _. Inr []), p1_stringPhysicalColumn = (\<lambda>n p. n), p1_listChunks = (\<lambda>_ _. Inr []),
      p1_getChunk = (\<lambda>_ _ _ k. Inr (plainChunk k)), p1_tableScan = (\<lambda>_ _. ()), p1_filter = (\<lambda>_ _. ()),
      p1_project = (\<lambda>_ _. ()), p1_batches = (\<lambda>_. [])\<rparr>"

text \<open>A JOIN of the two sample tables, and a projection with a qualified column.\<close>

definition joinPackage :: QueryPackage where
  "joinPackage = samplePackage\<lparr>pk_tableAlias := ''e'', pk_joinedTableName := ''departments'',
     pk_joinedTableAlias := ''d'', pk_joinLeftColumn := ''e.department_id'', pk_joinRightColumn := ''d.id'',
     pk_hasJoin := True, pk_projectColumns := [''e.id''], pk_predicateNodes := []\<rparr>"

text \<open>With this library the JOIN of the sample package runs.\<close>

lemma foldE_total: "(\<And>x s. \<exists>s'. f x s = Inr s') \<Longrightarrow> \<exists>s'. foldE f xs s = Inr s'"
  by (induction xs arbitrary: s) (auto simp: bindE_eq_Inr, metis)

lemma plain_addTableColumns:
  "cat_tables cat table = Some t \<Longrightarrow> \<exists>b'. addTableColumns plainProto1 cat table alias chunkId b = Inr b'"
  by (simp add: addTableColumns_def getTable_def plainProto1_def foldE_total)

lemma joinPackage_runs: "\<exists>rs. execute plainFhe plainProto1 makeEmployeesCatalog joinPackage = Some (Inr rs)"
proof -
  let ?cat = makeEmployeesCatalog and ?pkg = joinPackage
  have q: "qualifier ''e'' ''e.id'' = ''e''" "bareName ''e.id'' = ''id''"
    using qualified_parts(1) [of "''e''" "''e''" "''id''"] qualified_parts(2) [of "''e''" "''id''"] by simp_all
  have t: "cat_tables ?cat ''departments'' = Some departmentsSchema"
    by (simp add: makeEmployeesCatalog_def registerTable_def departmentsSchema_def)
  have c: "column employeesSchema ''id'' = Inr \<lparr>cs_name = ''id'', cs_type = INT64, cs_maxLength = 0\<rparr>"
    by (simp add: column_def employeesSchema_def)
  have "\<exists>cs. mapE (joinColumn plainFhe plainProto1 ?cat ?pkg lm rm) (pk_projectColumns ?pkg) = Inr cs" for lm rm
    by (simp add: joinPackage_def samplePackage_def joinColumn_def q encSample_columns getTable_def c
        columnResults_def physicalNames_def plainProto1_def plainChunk_def Let_def)
  then have "\<exists>rs'. joinPair plainFhe plainProto1 ?cat ?pkg k None lm None rm rs = Inr rs'" for k lm rm rs
    using plain_addTableColumns [OF encSample_columns(1)] plain_addTableColumns [OF t]
    by (fastforce simp: joinPair_def bindE_eq_Inr checkChunkSize_def joinPackage_def samplePackage_def
        plainProto1_def plainChunk_def)
  then have "\<exists>rs'. joinLeft plainFhe plainProto1 ?cat ?pkg lk k None rcs lm rs = Inr rs'" for lk k rcs lm rs
    by (simp add: joinLeft_def checkChunkSize_def plainProto1_def plainChunk_def foldE_total)
  then have "\<exists>rs. foldE (joinLeft plainFhe plainProto1 ?cat ?pkg lk k None rcs) ls [] = Inr rs" for lk k rcs ls
    by (rule foldE_total)
  moreover have "pk_hasJoin ?pkg" "pk_predicateNodes ?pkg = []"
    "startsWith (pk_joinLeftColumn ?pkg) (pk_tableAlias ?pkg @ ''.'')"
    "startsWith (pk_joinRightColumn ?pkg) (pk_joinedTableAlias ?pkg @ ''.'')"
    by (simp_all add: joinPackage_def startsWith_def)
  moreover have "\<exists>cs. p1_listChunks plainProto1 tn k = Inr cs" for tn k by (simp add: plainProto1_def)
  then obtain cs where "p1_listChunks plainProto1 tn k = Inr (cs tn k)" for tn k by metis
  ultimately show ?thesis by (simp add: execute_def executeJoin_def buildWhere_def Let_def)
qed

lemma accepted_builds:
  assumes v: "validate cat sid pkg = Some (Inr ())" and n: "pk_predicateNodes pkg \<noteq> []" and d: "literalsLoad F pkg"
  shows "(\<exists>ex. buildWhere F P pkg = Some (Inr (Some ex)))
    \<or> buildWhere F P pkg = Some (Inl unknownNodeKind) \<and> (\<exists>n\<in>set (pk_predicateNodes pkg). pn_kind n = POther)"
proof -
  from v n obtain t where
    w: "validatePredTree cat pkg t (of_nat (length (pk_predicateNodes pkg) - 1)) = Some (Inr ())"
    by (auto simp: validate_def split: sum.splits)
  from accepted_tree_builds [OF w, of F P] n d show ?thesis by (auto simp: buildWhere_def built_def)
qed

text \<open>The sample package with a ciphertext that can be loaded.\<close>

definition loadedPackage :: QueryPackage where
  "loadedPackage = samplePackage\<lparr>pk_encryptedLiterals :=
     [\<lparr>el_id = 0, el_logicalType = ''INT64'', el_ciphertextBytes = fhe_serialize plainFhe [30, 30, 30, 30], el_logicalSize = 4\<rparr>]\<rparr>"

lemma loadedPackage_accepted: "validate makeEmployeesCatalog ''p'' loadedPackage = Some (Inr ())"
proof -
  have n: "bareName ''age'' = ''age''" "hasColumn employeesSchema ''age''"
    by (rule bareName_undotted) (simp_all add: hasDot_iff hasColumn_iff employeesSchema_def)
  have "fhe_serialize plainFhe [30, 30, 30, 30] \<noteq> []" using plainFhe_laws(1) by (simp add: fhe_wire_law_def)
  with n have h: "checkHeader makeEmployeesCatalog ''p'' loadedPackage = Inr employeesSchema"
    by (simp add: checkHeader_iff loadedPackage_def samplePackage_def checkColumn_def targetTable_def encSample_columns)
  have "validatePredTree makeEmployeesCatalog loadedPackage employeesSchema 0 = Some (Inr ())"
    "validatePredTree makeEmployeesCatalog loadedPackage employeesSchema 1 = Some (Inr ())"
    using n by (simp_all add: validatePredTree.simps [of _ _ _ 0] validatePredTree.simps [of _ _ _ 1]
        loadedPackage_def samplePackage_def leafKind_def checkLeaf_def checkColumn_def targetTable_def emptyNode_def)
  then have "validatePredTree makeEmployeesCatalog loadedPackage employeesSchema 2 = Some (Inr ())"
    by (simp add: validatePredTree.simps [of _ _ _ 2])
      (simp add: loadedPackage_def samplePackage_def leafKind_def emptyNode_def UINT32_MAX_def)
  with h show ?thesis by (simp add: validate_def) (simp add: loadedPackage_def samplePackage_def)
qed

text \<open>A node of a kind outside the enum passes the validator and makes the builder throw.\<close>

lemma unknown_kind_accepted:
  assumes h: "checkHeader cat sid pkg = Inr t" and n: "pk_predicateNodes pkg = [node]" "pn_kind node = POther"
  shows "validate cat sid pkg = Some (Inr ())" "buildWhere F P pkg = Some (Inl unknownNodeKind)"
proof -
  have "validatePredTree cat pkg t 0 = Some (Inr ())" "buildExpression F P pkg 0 = Some (Inl unknownNodeKind)"
    using n by (simp_all add: validatePredTree.simps [of cat pkg t 0] buildExpression.simps [of F P pkg 0]
        leafKind_def checkLeaf_def buildLeaf_def)
  with h n show "validate cat sid pkg = Some (Inr ())" "buildWhere F P pkg = Some (Inl unknownNodeKind)"
    by (simp_all add: validate_def buildWhere_def)
qed

section \<open>Properties\<close>

text \<open>C18: what the validator accepts, the executor can build, if the library loads the ciphertexts that
  the package carries: \<open>buildExpression\<close> returns an expression for the root, with no missing literal, no
  index out of range and no empty string.  The one exception is a node whose kind is a byte outside
  the enum, which the validator lets pass and the builder rejects.\<close>

theorem validated_builds:
  assumes "validate cat sid pkg = Some (Inr ())" "pk_predicateNodes pkg \<noteq> []" "literalsLoad F pkg"
  shows "(\<exists>ex. buildWhere F P pkg = Some (Inr (Some ex)))
    \<or> buildWhere F P pkg = Some (Inl unknownNodeKind) \<and> (\<exists>n\<in>set (pk_predicateNodes pkg). pn_kind n = POther)"
  using assms by (rule accepted_builds)

theorem validated_builds_witness:
  "\<exists>ex. buildWhere plainFhe plainProto1 loadedPackage = Some (Inr (Some ex))"
proof -
  have "literalsLoad plainFhe loadedPackage" by (simp add: literalsLoad_def loadedPackage_def plain_wire)
  moreover have "pk_predicateNodes loadedPackage \<noteq> []" "\<forall>n\<in>set (pk_predicateNodes loadedPackage). pn_kind n \<noteq> POther"
    by (simp_all add: loadedPackage_def samplePackage_def emptyNode_def)
  ultimately show ?thesis using validated_builds [OF loadedPackage_accepted, of plainFhe plainProto1] by blast
qed

text \<open>The balanced conjunction of the character comparisons nests AND at most
  k deep for up to 2^k characters (4 for the 16 of the sample columns), whatever measure of
  depth grows by one per AND.\<close>

lemma combine_logarithmic:
  fixes cost :: "'e \<Rightarrow> nat" and P :: "('ct, 'e, 'op) Proto1"
  assumes "\<forall>x y. cost (p1_andExpr P x y) \<le> Suc (max (cost x) (cost y))"
    and "comparisons \<noteq> []" "\<forall>x\<in>set comparisons. cost x \<le> c" "length comparisons \<le> 2 ^ k"
  shows "cost (combine P comparisons 0 (length comparisons)) \<le> c + k"
proof -
  have "cost (combine P comparisons 0 (length comparisons)) \<le> c + treeDepth (length comparisons - 0)"
    using assms(1-3) by (intro combine_depth) simp_all
  with treeDepth_power [OF assms(4)] show ?thesis by simp
qed

lemma combine_logarithmic_example:
  "combine depthProto1 (replicate 16 8) 0 16 \<le> 8 + 4"
  using combine_logarithmic [of "\<lambda>x. x" depthProto1 "replicate 16 8" 8 4] by (simp add: depthProto1_def)

text \<open>A JOIN that succeeds answers one batch of one row with a mask for every
  pair of a left and a right chunk, numbered from 0.\<close>

lemma join_cross_product:
  assumes "pk_hasJoin pkg" "execute F P cat pkg = Some (Inr rs)"
  shows "\<exists>ls rcs. p1_listChunks P (pk_tableName pkg) (drop (length (pk_tableAlias pkg) + 1) (pk_joinLeftColumn pkg)) = Inr ls
     \<and> p1_listChunks P (pk_joinedTableName pkg)
         (drop (length (pk_joinedTableAlias pkg) + 1) (pk_joinRightColumn pkg)) = Inr rcs
     \<and> length rs = length ls * length rcs
     \<and> (\<forall>k < length rs. rb_batchId (rs ! k) = of_nat k \<and> rb_logicalRowCount (rs ! k) = 1 \<and> rb_hasMask (rs ! k))"
proof -
  from assms have "executeJoin F P cat pkg = Some (Inr rs)" by (simp add: execute_def)
  from executeJoin_batches [OF this] show ?thesis
    by (fastforce simp: joinInv_def numbered_def joinBatch_def list_all_length)
qed

lemma join_cross_product_example:
  "\<exists>rs. execute plainFhe plainProto1 makeEmployeesCatalog joinPackage = Some (Inr rs)
     \<and> length rs = 4 \<and> rb_batchId (rs ! 3) = 3 \<and> rb_hasMask (rs ! 3)"
proof -
  obtain rs where rs: "execute plainFhe plainProto1 makeEmployeesCatalog joinPackage = Some (Inr rs)"
    using joinPackage_runs by blast
  have "pk_hasJoin joinPackage" by (simp add: joinPackage_def)
  from join_cross_product [OF this rs] rs show ?thesis by (auto simp: plainProto1_def)
qed

text \<open>Over one table, a column of the select list that carries the table
  alias (\<open>SELECT e.id FROM employees e\<close>) passes the analyzer and the validator, but \<open>execute\<close>
  never answers with batches: it looks the qualified name up in the schema as it stands.\<close>

lemma qualified_projection_fails:
  assumes "\<not> pk_hasJoin pkg" "cat_tables cat (pk_tableName pkg) = Some t" "wfSchema t"
    and "n \<in> set (pk_projectColumns pkg)" "hasDot n"
  shows "execute F P cat pkg \<noteq> Some (Inr rs)"
proof
  assume "execute F P cat pkg = Some (Inr rs)"
  with assms(1) have "executeScan F P cat pkg = Some (Inr rs)" by (simp add: execute_def)
  then obtain cols where "expandColumns P cat pkg (pk_projectColumns pkg) = Inr cols"
    by (auto simp: executeScan_def Let_def bind_eq_Some_conv bindE_eq_Inr split: sum.splits)
  then obtain ps where "mapE (\<lambda>name. bindE (getTable cat (pk_tableName pkg)) (\<lambda>t.
      bindE (column t name) (\<lambda>cs. Inr (physicalNames P name cs)))) (pk_projectColumns pkg) = Inr ps"
    by (auto simp: expandColumns_def bindE_eq_Inr [of "mapE _ _"])
  from mapE_elem [OF this assms(4)] assms(2) obtain cs where "column t n = Inr cs"
    by (auto simp: bindE_eq_Inr getTable_def)
  then show False using assms(3,5) column_Inr [of t n cs] by (auto simp: wfSchema_def list_all_iff)
qed

lemma qualified_projection_fails_example:
  "execute plainFhe plainProto1 makeEmployeesCatalog
     (samplePackage\<lparr>pk_projectColumns := [''e.id'']\<rparr>) \<noteq> Some (Inr [])"
proof -
  have "wfSchema employeesSchema"
    using makeEmployeesCatalog_wf encSample_columns(1) by (simp add: wfCatalog_def)
  then show ?thesis
    by (intro qualified_projection_fails [where n = "''e.id''" and t = employeesSchema])
      (simp_all add: samplePackage_def encSample_columns hasDot_iff)
qed

end
