(* ===== verification/Hega_Filter.thy ===== *)
theory Hega_Filter
  imports Hega_Executor
begin

text \<open>
  What the encrypted WHERE means.  The documented behaviour of the \<open>proto1\<close> expressions
  (\<open>docs/architecture.md\<close>: EQ, GT and LT are correct on values in [0, 128], the boolean operators
  work on 0/1 masks; \<open>docs/security-model.md\<close>: a comparison costs 8 levels of multiplication, AND
  one more) is the hypothesis \<open>expr_law\<close>.  Under it, the mask that the server computes from a
  package decrypts to the truth of the client's WHERE expression on every row.
\<close>

section \<open>Rows\<close>

text \<open>A row source: the value of a column in a slot.  The truth of a WHERE expression on the row in
  slot \<open>i\<close> is defined on the syntax tree, as \<open>evalPlain\<close> of the client does.\<close>

record Rows =
  rw_int :: "string \<Rightarrow> nat \<Rightarrow> int"
  rw_string :: "string \<Rightarrow> nat \<Rightarrow> string"

fun termValue :: "Rows \<Rightarrow> nat \<Rightarrow> ASTExpr \<Rightarrow> int" where
  "termValue R i (ColumnRef n) = rw_int R n i"
| "termValue R i (IntLiteral v) = v"
| "termValue R i _ = 0"

fun cmpInt :: "CmpKind \<Rightarrow> int \<Rightarrow> int \<Rightarrow> bool" where
  "cmpInt Equal a b \<longleftrightarrow> a = b"
| "cmpInt NotEqual a b \<longleftrightarrow> a \<noteq> b"
| "cmpInt GreaterThan a b \<longleftrightarrow> a > b"
| "cmpInt LessThan a b \<longleftrightarrow> a < b"
| "cmpInt GreaterEqual a b \<longleftrightarrow> a \<ge> b"
| "cmpInt LessEqual a b \<longleftrightarrow> a \<le> b"

definition stringColumn :: "ASTExpr \<Rightarrow> ASTExpr \<Rightarrow> string" where
  "stringColumn l r = columnNameOf (if isColumn l then l else r)"

definition stringLiteral :: "ASTExpr \<Rightarrow> ASTExpr \<Rightarrow> string" where
  "stringLiteral l r = stringValueOf (if isString l then l else r)"

fun rowMatches :: "Rows \<Rightarrow> nat \<Rightarrow> ASTExpr \<Rightarrow> bool" where
  "rowMatches R i (Comparison k l r) \<longleftrightarrow>
     (if stringComparison l r
      then (k = Equal) = (rw_string R (stringColumn l r) i = stringLiteral l r)
      else cmpInt k (termValue R i l) (termValue R i r))"
| "rowMatches R i (And l r) \<longleftrightarrow> rowMatches R i l \<and> rowMatches R i r"
| "rowMatches R i (Or l r) \<longleftrightarrow> rowMatches R i l \<or> rowMatches R i r"
| "rowMatches R i (NotExpr e) \<longleftrightarrow> \<not> rowMatches R i e"
| "rowMatches R i _ \<longleftrightarrow> False"

section \<open>The documented behaviour of the library\<close>

definition small :: "int \<Rightarrow> bool" where
  "small v \<longleftrightarrow> 0 \<le> v \<and> v \<le> 128"

definition decryptsTo :: "'ct Fhe \<Rightarrow> 'ct \<Rightarrow> (nat \<Rightarrow> int) \<Rightarrow> bool" where
  "decryptsTo F ct f \<longleftrightarrow> (\<forall>n \<le> fhe_slotCount F. fhe_decrypt F ct n = map f [0..<n])"

text \<open>The meaning of an expression on a batch: its value per slot, bounds of its multiplicative depth
  and of the columns it reads.\<close>

record 'e ExprSem =
  es_val :: "'e \<Rightarrow> nat \<Rightarrow> int"
  es_cost :: "'e \<Rightarrow> nat"
  es_columns :: "'e \<Rightarrow> string set"

definition leaf_law :: "'ct Fhe \<Rightarrow> ('ct, 'e, 'op) Proto1 \<Rightarrow> 'ct EncBatch \<Rightarrow> 'e ExprSem \<Rightarrow> bool" where
  "leaf_law F P b S \<longleftrightarrow>
     (\<forall>c chunk ct cts f. eb_columns b c = Some chunk \<longrightarrow> ch_ciphertexts chunk = ct # cts \<longrightarrow> decryptsTo F ct f \<longrightarrow>
        (\<forall>i < fhe_slotCount F. es_val S (p1_columnRef P c) i = f i))
     \<and> (\<forall>ct f. decryptsTo F ct f \<longrightarrow> (\<forall>i < fhe_slotCount F. es_val S (p1_encLiteral P ct) i = f i))
     \<and> (\<forall>c. es_cost S (p1_columnRef P c) = 0 \<and> es_columns S (p1_columnRef P c) \<subseteq> {c})
     \<and> (\<forall>ct. es_cost S (p1_encLiteral P ct) = 0 \<and> es_columns S (p1_encLiteral P ct) = {})"

definition cmp_law :: "'e ExprSem \<Rightarrow> ('e \<Rightarrow> 'e \<Rightarrow> 'e) \<Rightarrow> (int \<Rightarrow> int \<Rightarrow> bool) \<Rightarrow> bool" where
  "cmp_law S op cmp \<longleftrightarrow> (\<forall>x y.
     (\<forall>i. small (es_val S x i) \<longrightarrow> small (es_val S y i) \<longrightarrow>
        es_val S (op x y) i = of_bool (cmp (es_val S x i) (es_val S y i)))
     \<and> es_cost S (op x y) \<le> 8 + max (es_cost S x) (es_cost S y)
     \<and> es_columns S (op x y) \<subseteq> es_columns S x \<union> es_columns S y)"

definition bool_law :: "'e ExprSem \<Rightarrow> ('e \<Rightarrow> 'e \<Rightarrow> 'e) \<Rightarrow> (bool \<Rightarrow> bool \<Rightarrow> bool) \<Rightarrow> bool" where
  "bool_law S op bop \<longleftrightarrow> (\<forall>x y.
     (\<forall>i p q. es_val S x i = of_bool p \<longrightarrow> es_val S y i = of_bool q \<longrightarrow> es_val S (op x y) i = of_bool (bop p q))
     \<and> es_cost S (op x y) \<le> Suc (max (es_cost S x) (es_cost S y))
     \<and> es_columns S (op x y) \<subseteq> es_columns S x \<union> es_columns S y)"

definition not_law :: "'e ExprSem \<Rightarrow> ('e \<Rightarrow> 'e) \<Rightarrow> bool" where
  "not_law S op \<longleftrightarrow> (\<forall>x.
     (\<forall>i p. es_val S x i = of_bool p \<longrightarrow> es_val S (op x) i = of_bool (\<not> p))
     \<and> es_cost S (op x) = es_cost S x \<and> es_columns S (op x) \<subseteq> es_columns S x)"

text \<open>Within the depth that the parameters allow, evaluation on a batch that has the columns gives a
  ciphertext of the values.\<close>

definition readable :: "'ct EncBatch \<Rightarrow> string set" where
  "readable b = {c. \<exists>chunk. eb_columns b c = Some chunk \<and> ch_ciphertexts chunk \<noteq> []}"

definition eval_law ::
  "'ct Fhe \<Rightarrow> ('ct, 'e, 'op) Proto1 \<Rightarrow> nat \<Rightarrow> 'ct EncBatch \<Rightarrow> 'e ExprSem \<Rightarrow> bool" where
  "eval_law F P depth b S \<longleftrightarrow> (\<forall>ex. es_cost S ex \<le> depth \<longrightarrow> es_columns S ex \<subseteq> readable b \<longrightarrow>
     (\<exists>ct. p1_evaluate P ex b = Inr ct \<and> decryptsTo F ct (es_val S ex)))"

definition expr_law ::
  "'ct Fhe \<Rightarrow> ('ct, 'e, 'op) Proto1 \<Rightarrow> nat \<Rightarrow> 'ct EncBatch \<Rightarrow> 'e ExprSem \<Rightarrow> bool" where
  "expr_law F P depth b S \<longleftrightarrow> leaf_law F P b S
     \<and> cmp_law S (p1_equal P) (=) \<and> cmp_law S (p1_gt P) (>) \<and> cmp_law S (p1_lt P) (<)
     \<and> bool_law S (p1_andExpr P) (\<and>) \<and> bool_law S (p1_orExpr P) (\<or>) \<and> not_law S (p1_notExpr P)
     \<and> eval_law F P depth b S"

section \<open>Clauses that can be filtered\<close>

text \<open>The batch holds the columns that the clause reads, under the names it uses, with values and
  literals in range.\<close>

definition heldAs :: "'ct Fhe \<Rightarrow> 'ct EncBatch \<Rightarrow> string \<Rightarrow> (nat \<Rightarrow> int) \<Rightarrow> bool" where
  "heldAs F b c f \<longleftrightarrow>
     (\<exists>chunk ct cts. eb_columns b c = Some chunk \<and> ch_ciphertexts chunk = ct # cts \<and> decryptsTo F ct f)
     \<and> (\<forall>i < fhe_slotCount F. small (f i))"

definition textOk :: "nat \<Rightarrow> string \<Rightarrow> bool" where
  "textOk w x \<longleftrightarrow> length x \<le> w \<and> (\<forall>c\<in>set x. 0 < code c \<and> code c \<le> 127)"

fun termOk :: "'ct Fhe \<Rightarrow> 'ct EncBatch \<Rightarrow> Rows \<Rightarrow> ASTExpr \<Rightarrow> bool" where
  "termOk F b R (ColumnRef n) \<longleftrightarrow> heldAs F b n (rw_int R n)"
| "termOk F b R (IntLiteral v) \<longleftrightarrow> small v"
| "termOk F b R _ \<longleftrightarrow> False"

definition stringOk ::
  "'ct Fhe \<Rightarrow> ('ct, 'e, 'op) Proto1 \<Rightarrow> TableSchema \<Rightarrow> 'ct EncBatch \<Rightarrow> Rows \<Rightarrow> string \<Rightarrow> string \<Rightarrow> bool" where
  "stringOk F P t b R n x \<longleftrightarrow> (\<exists>cs. column t (bareName n) = Inr cs
     \<and> 0 < cs_maxLength cs \<and> cs_maxLength cs < 2 ^ 32 \<and> textOk (cs_maxLength cs) x
     \<and> (\<forall>i < fhe_slotCount F. textOk (cs_maxLength cs) (rw_string R n i))
     \<and> (\<forall>p < cs_maxLength cs. heldAs F b (p1_stringPhysicalColumn P n p) (\<lambda>i. charAt (rw_string R n i) p)))"

fun filterable ::
  "'ct Fhe \<Rightarrow> ('ct, 'e, 'op) Proto1 \<Rightarrow> TableSchema \<Rightarrow> 'ct EncBatch \<Rightarrow> Rows \<Rightarrow> ASTExpr \<Rightarrow> bool" where
  "filterable F P t b R (Comparison k l r) \<longleftrightarrow>
     (if stringComparison l r then stringOk F P t b R (stringColumn l r) (stringLiteral l r)
      else termOk F b R l \<and> termOk F b R r)"
| "filterable F P t b R (And l r) \<longleftrightarrow> filterable F P t b R l \<and> filterable F P t b R r"
| "filterable F P t b R (Or l r) \<longleftrightarrow> filterable F P t b R l \<and> filterable F P t b R r"
| "filterable F P t b R (NotExpr e) \<longleftrightarrow> filterable F P t b R e"
| "filterable F P t b R _ \<longleftrightarrow> False"

text \<open>The multiplicative depth of a clause.\<close>

fun whereDepth :: "TableSchema \<Rightarrow> ASTExpr \<Rightarrow> nat" where
  "whereDepth t (Comparison k l r) =
     (if stringComparison l r
      then 8 + treeDepth (case column t (bareName (stringColumn l r)) of Inl _ \<Rightarrow> 0 | Inr cs \<Rightarrow> cs_maxLength cs)
      else if k = GreaterEqual \<or> k = LessEqual then 9 else 8)"
| "whereDepth t (And l r) = Suc (max (whereDepth t l) (whereDepth t r))"
| "whereDepth t (Or l r) = Suc (max (whereDepth t l) (whereDepth t r))"
| "whereDepth t (NotExpr e) = whereDepth t e"
| "whereDepth t _ = 0"

text \<open>Bounds of compound expressions.\<close>

lemma op_columns:
  "cmp_law S op c \<Longrightarrow> es_columns S x \<subseteq> A \<Longrightarrow> es_columns S y \<subseteq> A \<Longrightarrow> es_columns S (op x y) \<subseteq> A"
  "bool_law S op bop \<Longrightarrow> es_columns S x \<subseteq> A \<Longrightarrow> es_columns S y \<subseteq> A \<Longrightarrow> es_columns S (op x y) \<subseteq> A"
  "not_law S neg \<Longrightarrow> es_columns S x \<subseteq> A \<Longrightarrow> es_columns S (neg x) \<subseteq> A"
  unfolding cmp_law_def bool_law_def not_law_def by (meson Un_least subset_trans)+

lemma cmp_cost: "cmp_law S op c \<Longrightarrow> es_cost S x = 0 \<Longrightarrow> es_cost S y = 0 \<Longrightarrow> es_cost S (op x y) \<le> 8"
  unfolding cmp_law_def by (metis add.right_neutral max.idem)

section \<open>Loading literals\<close>

lemma find_literal:
  assumes "literalsOk lits" "unat i < length lits"
  shows "find (\<lambda>l. el_id l = i) lits = Some (lits ! unat i)"
proof -
  have "el_id (lits ! unat i) = i" using assms by (simp add: literalsOk_def)
  moreover have "el_id (lits ! j) \<noteq> i" if "j < unat i" for j
  proof
    assume "el_id (lits ! j) = i"
    with assms that have "of_nat j = i" by (simp add: literalsOk_def)
    then have "unat i = j" using assms that u32_index [of j] by (auto simp: literalsOk_def)
    with that show False by simp
  qed
  ultimately show ?thesis using assms(2) by (auto simp: find_Some_iff)
qed

lemma encryptScalar_decrypts:
  assumes "fhe_decrypt_law F" "small v"
  shows "decryptsTo F (encryptScalar F call v) (\<lambda>_. v)"
  using assms
  by (simp add: decryptsTo_def fhe_decrypt_law_def encryptScalar_def small_def list_all_iff map_replicate_const min_def)

lemma load_held:
  assumes "holdsValue F (pk_encryptedLiterals pkg) i ty v" "literalsOk (pk_encryptedLiterals pkg)"
    and "fhe_wire_law F" "fhe_decrypt_law F" "small v"
  shows "\<exists>ct. loadLiteral F pkg e i = Inr ct \<and> decryptsTo F ct (\<lambda>_. v)"
  using assms(1,3) find_literal [OF assms(2), of i] encryptScalar_decrypts [OF assms(4,5)]
  by (auto simp: loadLiteral_def holdsValue_def fhe_wire_law_def)

section \<open>Text\<close>

text \<open>Padded texts agree position by position exactly when they are equal.\<close>

lemma charAt_equal:
  assumes "textOk w x" "textOk w y"
  shows "(\<forall>p < w. charAt x p = charAt y p) \<longleftrightarrow> x = y"
proof
  assume h: "\<forall>p < w. charAt x p = charAt y p"
  have pos: "0 < charAt z p" if "textOk w z" "p < length z" for z p
    using that by (simp add: charAt_def textOk_def)
  have zero: "charAt z p = 0" if "length z \<le> p" for z p
    using that by (simp add: charAt_def)
  have le: "length u \<le> length v" if "textOk w u" "textOk w v" "\<forall>p < w. charAt u p = charAt v p" for u v
  proof (rule ccontr)
    assume "\<not> length u \<le> length v"
    then have "length v < length u" by simp
    with pos [OF that(1), of "length v"] zero [of v "length v"] that(3) that(1)
    show False by (auto simp: textOk_def)
  qed
  have "length x = length y" using le [of x y] le [of y x] assms h by simp
  then show "x = y"
  proof (rule nth_equalityI)
    fix i assume "i < length x"
    moreover from this assms(1) have "i < w" by (simp add: textOk_def)
    with h have "charAt x i = charAt y i" by simp
    ultimately have "code (x ! i) = code (y ! i)"
      using \<open>length x = length y\<close> by (simp add: charAt_def)
    then show "x ! i = y ! i" by (simp add: code_def)
  qed
qed simp

lemma charAt_small: "textOk w x \<Longrightarrow> small (charAt x p)"
  by (auto simp: charAt_def textOk_def small_def dest!: bspec [OF _ nth_mem])

section \<open>The balanced conjunction\<close>

lemma combine_step:
  assumes "\<not> hi - lo \<le> 1"
  shows "combine P cs lo hi =
    p1_andExpr P (combine P cs lo (lo + (hi - lo) div 2)) (combine P cs (lo + (hi - lo) div 2) hi)"
    "lo < lo + (hi - lo) div 2" "lo + (hi - lo) div 2 < hi"
  using assms by (simp_all add: combine.simps [of P cs lo hi] Let_def)

lemma combine_one: "combine P cs lo (Suc lo) = cs ! lo"
  by (simp add: combine.simps [of P cs lo "Suc lo"])

lemma combine_columns:
  assumes "bool_law S (p1_andExpr P) (\<and>)"
    and "\<And>k. lo \<le> k \<Longrightarrow> k < hi \<Longrightarrow> es_columns S (cs ! k) \<subseteq> C" and "lo < hi"
  shows "es_columns S (combine P cs lo hi) \<subseteq> C"
  using assms
proof (induction P cs lo hi rule: combine.induct)
  case (1 P cs lo hi)
  show ?case
  proof (cases "hi - lo \<le> 1")
    case True
    with "1.prems"(3) have "hi = Suc lo" by simp
    with "1.prems"(2) [of lo] show ?thesis by (simp add: combine_one)
  next
    case False
    note m = combine_step(1) [OF False, of P cs] combine_step(2,3) [OF False]
    have "es_columns S (combine P cs lo (lo + (hi - lo) div 2)) \<subseteq> C"
      "es_columns S (combine P cs (lo + (hi - lo) div 2) hi) \<subseteq> C"
      using "1.IH" [OF False refl "1.prems"(1)] "1.prems"(2) m(2,3) by simp_all
    then show ?thesis using op_columns(2) [OF "1.prems"(1)] by (simp add: m(1))
  qed
qed

lemma combine_value:
  assumes "bool_law S (p1_andExpr P) (\<and>)"
    and "\<And>k. lo \<le> k \<Longrightarrow> k < hi \<Longrightarrow> es_val S (cs ! k) i = of_bool (p k)" and "lo < hi"
  shows "es_val S (combine P cs lo hi) i = of_bool (\<forall>k. lo \<le> k \<longrightarrow> k < hi \<longrightarrow> p k)"
  using assms
proof (induction P cs lo hi rule: combine.induct)
  case (1 P cs lo hi)
  let ?m = "lo + (hi - lo) div 2"
  show ?case
  proof (cases "hi - lo \<le> 1")
    case True
    with "1.prems"(3) have "hi = Suc lo" by simp
    with "1.prems"(2) [of lo] show ?thesis by (auto simp: combine_one le_less_Suc_eq)
  next
    case False
    note m = combine_step(1) [OF False, of P cs] combine_step(2,3) [OF False]
    have split: "(\<forall>k. lo \<le> k \<longrightarrow> k < ?m \<longrightarrow> p k) \<and> (\<forall>k. ?m \<le> k \<longrightarrow> k < hi \<longrightarrow> p k)
        \<longleftrightarrow> (\<forall>k. lo \<le> k \<longrightarrow> k < hi \<longrightarrow> p k)"
      using m(2,3) by (meson le_trans less_imp_le_nat less_le_trans not_less)
    have "es_val S (combine P cs lo ?m) i = of_bool (\<forall>k. lo \<le> k \<longrightarrow> k < ?m \<longrightarrow> p k)"
      "es_val S (combine P cs ?m hi) i = of_bool (\<forall>k. ?m \<le> k \<longrightarrow> k < hi \<longrightarrow> p k)"
      using "1.IH" [OF False refl "1.prems"(1)] "1.prems"(2) m(2,3) by simp_all
    then show ?thesis using "1.prems"(1) by (simp add: m(1) bool_law_def split [symmetric])
  qed
qed

section \<open>Building gives the meaning\<close>

text \<open>The expression \<open>ex\<close> is built for the node and has these values, depth and columns.\<close>

definition buildsTo ::
  "'ct Fhe \<Rightarrow> ('ct, 'e, 'op) Proto1 \<Rightarrow> QueryPackage \<Rightarrow> 'ct EncBatch \<Rightarrow> 'e ExprSem \<Rightarrow> u32 \<Rightarrow>
   (nat \<Rightarrow> int) \<Rightarrow> nat \<Rightarrow> bool" where
  "buildsTo F P pkg b S i f d \<longleftrightarrow> (\<exists>ex. buildExpression F P pkg i = Some (Inr ex)
     \<and> (\<forall>j < fhe_slotCount F. es_val S ex j = f j) \<and> es_cost S ex \<le> d \<and> es_columns S ex \<subseteq> readable b)"

lemma build_node:
  assumes "nodeAt (pk_predicateNodes pkg) i n"
  shows "leafKind (pn_kind n) \<Longrightarrow> buildExpression F P pkg i = Some (buildLeaf F P pkg n)"
    "pn_kind n = PNot \<Longrightarrow> buildExpression F P pkg (pn_left n) = Some (Inr l) \<Longrightarrow>
       buildExpression F P pkg i = Some (Inr (p1_notExpr P l))"
    "binaryKind (pn_kind n) \<Longrightarrow> buildExpression F P pkg (pn_left n) = Some (Inr l) \<Longrightarrow>
       buildExpression F P pkg (pn_right n) = Some (Inr r) \<Longrightarrow>
       buildExpression F P pkg i = Some (Inr (binaryExpr P (pn_kind n) l r))"
  using assms
  by (auto simp: buildExpression.simps [of F P pkg i] nodeAt_def Let_def leafKind_def binaryKind_def)

lemma heldAs_readable: "heldAs F b c f \<Longrightarrow> c \<in> readable b"
  by (auto simp: heldAs_def readable_def)

lemma column_value:
  assumes "expr_law F P D b S" "heldAs F b n f"
  shows "j < fhe_slotCount F \<Longrightarrow> es_val S (p1_columnRef P n) j = f j"
    "es_cost S (p1_columnRef P n) = 0" "es_columns S (p1_columnRef P n) \<subseteq> readable b"
  using assms heldAs_readable [OF assms(2)] by (auto simp: expr_law_def leaf_law_def heldAs_def)

lemma literal_value:
  assumes "expr_law F P D b S" "decryptsTo F ct f"
  shows "j < fhe_slotCount F \<Longrightarrow> es_val S (p1_encLiteral P ct) j = f j"
    "es_cost S (p1_encLiteral P ct) = 0" "es_columns S (p1_encLiteral P ct) = {}"
  using assms by (auto simp: expr_law_def leaf_law_def)

text \<open>The two operands of a comparison that is not one of strings.\<close>

lemma term_builds:
  assumes laws: "expr_law F P D b S" "fhe_wire_law F" "fhe_decrypt_law F"
    and l: "literalsOk (pk_encryptedLiterals pkg)"
    and r: "represents F t (pk_predicateNodes pkg) (pk_encryptedLiterals pkg) i e"
    and ok: "termOk F b R e"
  shows "buildsTo F P pkg b S i (\<lambda>j. termValue R j e) 0"
  using r
proof cases
  case (column n)
  then have "heldAs F b n (rw_int R n)" using ok by simp
  from column_value [OF laws(1) this] build_node(1) [OF column(2), of F P] column(1)
  show ?thesis by (auto simp: buildsTo_def leafKind_def buildLeaf_def)
next
  case (literal lid v)
  then have v: "small v" using ok by simp
  obtain ct where ct: "loadLiteral F pkg (literalNotFound lid) lid = Inr ct" "decryptsTo F ct (\<lambda>_. v)"
    using load_held [OF literal(3) l laws(2,3) v] by blast
  from literal_value [OF laws(1) ct(2)] build_node(1) [OF literal(2), of F P] literal(1) ct(1)
  show ?thesis by (auto simp: buildsTo_def leafKind_def buildLeaf_def)
qed (use ok in simp_all)

lemma string_builds:
  assumes laws: "expr_law F P D b S" "fhe_wire_law F" "fhe_decrypt_law F"
    and l: "literalsOk (pk_encryptedLiterals pkg)"
    and node: "nodeAt (pk_predicateNodes pkg) i (stringNode k n firstId (cs_maxLength cs))"
    and cs: "column t (bareName n) = Inr cs" and ok: "stringOk F P t b R n x"
    and h: "\<And>p. p < cs_maxLength cs \<Longrightarrow>
       holdsValue F (pk_encryptedLiterals pkg) (firstId + of_nat p) ''STRING_CHAR'' (charAt x p)"
  shows "buildsTo F P pkg b S i (\<lambda>j. of_bool ((k = Equal) = (rw_string R n j = x))) (8 + treeDepth (cs_maxLength cs))"
proof -
  let ?w = "cs_maxLength cs" and ?node = "stringNode k n firstId (cs_maxLength cs)"
  let ?col = "\<lambda>p. p1_columnRef P (p1_stringPhysicalColumn P n p)"
  from ok cs have w: "0 < ?w" "?w < 2 ^ 32" and tx: "textOk ?w x"
    and tr: "\<And>j. j < fhe_slotCount F \<Longrightarrow> textOk ?w (rw_string R n j)"
    and held: "\<And>p. p < ?w \<Longrightarrow> heldAs F b (p1_stringPhysicalColumn P n p) (\<lambda>j. charAt (rw_string R n j) p)"
    by (auto simp: stringOk_def)
  have "\<forall>p. p < ?w \<longrightarrow> (\<exists>ct. loadLiteral F pkg stringLiteralNotFound (firstId + of_nat p) = Inr ct
      \<and> decryptsTo F ct (\<lambda>_. charAt x p))"
    using load_held [OF h l laws(2,3) charAt_small [OF tx]] by blast
  then obtain ct where ct: "\<And>p. p < ?w \<Longrightarrow> loadLiteral F pkg stringLiteralNotFound (firstId + of_nat p) = Inr (ct p)"
    "\<And>p. p < ?w \<Longrightarrow> decryptsTo F (ct p) (\<lambda>_. charAt x p)" by metis
  let ?eq = "\<lambda>p. p1_equal P (?col p) (p1_encLiteral P (ct p))"
  let ?cs = "map ?eq [0..<?w]" and ?all = "combine P (map ?eq [0..<?w]) 0 ?w"
  have eqlaw: "cmp_law S (p1_equal P) (=)" and andlaw: "bool_law S (p1_andExpr P) (\<and>)"
    and notlaw: "not_law S (p1_notExpr P)" using laws(1) by (simp_all add: expr_law_def)
  have "stringComparisons F P pkg ?node = Inr ?cs"
    unfolding stringComparisons_def stringNode_def
    using ct(1) u32_index [OF w(2)] by (simp add: emptyNode_def) (intro mapE_total, simp)
  then have leaf: "buildLeaf F P pkg ?node = Inr (if k = Equal then ?all else p1_notExpr P ?all)"
    using w(1) by (cases "k = Equal") (simp_all add: buildLeaf_def Let_def stringNode_def emptyNode_def)
  have one: "es_val S (?eq p) j = of_bool (charAt (rw_string R n j) p = charAt x p)"
    if "p < ?w" "j < fhe_slotCount F" for p j
    using eqlaw column_value(1) [OF laws(1) held [OF that(1)] that(2)]
      literal_value(1) [OF laws(1) ct(2) [OF that(1)] that(2)] charAt_small [OF tx] charAt_small [OF tr [OF that(2)]]
    by (simp add: cmp_law_def)
  have rest: "es_cost S (?eq p) \<le> 8" "es_columns S (?eq p) \<subseteq> readable b" if "p < ?w" for p
    using column_value(2,3) [OF laws(1) held [OF that]] literal_value(2,3) [OF laws(1) ct(2) [OF that]]
    by (intro cmp_cost [OF eqlaw] op_columns(1) [OF eqlaw]; simp)+
  have "es_val S ?all j = of_bool (rw_string R n j = x)" if "j < fhe_slotCount F" for j
    using combine_value [OF andlaw, of 0 ?w ?cs j "\<lambda>p. charAt (rw_string R n j) p = charAt x p"]
      one [OF _ that] w(1) charAt_equal [OF tr [OF that] tx] by simp
  moreover have "es_cost S ?all \<le> 8 + treeDepth ?w"
    using combine_depth [of "es_cost S" P 0 ?w ?cs 8] andlaw rest(1) w(1) by (simp add: bool_law_def)
  moreover have "es_columns S ?all \<subseteq> readable b"
    using rest(2) w(1) by (intro combine_columns [OF andlaw]) simp_all
  ultimately show ?thesis
    using build_node(1) [OF node, of F P] leaf notlaw
    by (auto simp: buildsTo_def stringNode_def leafKind_def emptyNode_def not_law_def)
qed

lemmas law_parts = expr_law_def cmp_law_def bool_law_def not_law_def

lemma comparison_builds:
  assumes laws: "expr_law F P D b S"
    and node: "nodeAt (pk_predicateNodes pkg) i (emptyNode\<lparr>pn_left := li, pn_right := ri, pn_kind := cmpNodeKind k\<rparr>)"
    and l: "buildsTo F P pkg b S li f 0" "\<And>j. j < fhe_slotCount F \<Longrightarrow> small (f j)"
    and r: "buildsTo F P pkg b S ri g 0" "\<And>j. j < fhe_slotCount F \<Longrightarrow> small (g j)"
  shows "buildsTo F P pkg b S i (\<lambda>j. of_bool (cmpInt k (f j) (g j)))
     (if k = GreaterEqual \<or> k = LessEqual then 9 else 8)"
proof -
  from l(1) r(1) obtain x y where x: "buildExpression F P pkg li = Some (Inr x)"
      "\<forall>j < fhe_slotCount F. es_val S x j = f j" "es_cost S x = 0" "es_columns S x \<subseteq> readable b"
    and y: "buildExpression F P pkg ri = Some (Inr y)"
      "\<forall>j < fhe_slotCount F. es_val S y j = g j" "es_cost S y = 0" "es_columns S y \<subseteq> readable b"
    by (auto simp: buildsTo_def)
  let ?ex = "binaryExpr P (cmpNodeKind k) x y"
  have "buildExpression F P pkg i = Some (Inr ?ex)"
    using build_node(3) [OF node, of F P x y] x(1) y(1) by simp
  moreover have ops: "es_val S (p1_equal P x y) j = of_bool (f j = g j)"
    "es_val S (p1_gt P x y) j = of_bool (f j > g j)" "es_val S (p1_lt P x y) j = of_bool (f j < g j)"
    if "j < fhe_slotCount F" for j
    using laws x(2) y(2) l(2) [OF that] r(2) [OF that] that by (simp_all add: law_parts)
  then have "es_val S ?ex j = of_bool (cmpInt k (f j) (g j))" if "j < fhe_slotCount F" for j
    using laws ops [OF that] unfolding law_parts
    by (cases k) (auto simp: binaryExpr_def)
  moreover have cost: "es_cost S (p1_equal P x y) \<le> 8" "es_cost S (p1_gt P x y) \<le> 8" "es_cost S (p1_lt P x y) \<le> 8"
    using laws x(3) y(3) by (auto simp: expr_law_def intro: cmp_cost)
  have orc: "es_cost S (p1_orExpr P u v) \<le> 9" if "es_cost S u \<le> 8" "es_cost S v \<le> 8" for u v
  proof -
    have "es_cost S (p1_orExpr P u v) \<le> Suc (max (es_cost S u) (es_cost S v))"
      using laws unfolding law_parts by blast
    with that show ?thesis by simp
  qed
  have "es_cost S (p1_notExpr P u) = es_cost S u" for u using laws unfolding law_parts by blast
  with cost orc have "es_cost S ?ex \<le> (if k = GreaterEqual \<or> k = LessEqual then 9 else 8)"
    by (cases k) (simp_all add: binaryExpr_def)
  moreover have "es_columns S ?ex \<subseteq> readable b"
  proof -
    have "es_columns S (p1_equal P x y) \<subseteq> readable b" "es_columns S (p1_gt P x y) \<subseteq> readable b"
      "es_columns S (p1_lt P x y) \<subseteq> readable b"
      using laws op_columns(1) [OF _ x(4) y(4)] by (auto simp only: expr_law_def)
    moreover have "es_columns S (p1_orExpr P u v) \<subseteq> readable b" "es_columns S (p1_notExpr P u) \<subseteq> readable b"
      if "es_columns S u \<subseteq> readable b" "es_columns S v \<subseteq> readable b" for u v
      using laws op_columns(2) [OF _ that] op_columns(3) [OF _ that(1)] by (auto simp only: expr_law_def)
    ultimately show ?thesis by (cases k) (simp_all add: binaryExpr_def)
  qed
  ultimately show ?thesis unfolding buildsTo_def by blast
qed

lemma connective_builds:
  assumes laws: "expr_law F P D b S" and op: "bool_law S op bop" "\<And>x y. binaryExpr P kd x y = op x y"
    and kd: "binaryKind kd"
    and node: "nodeAt (pk_predicateNodes pkg) i (emptyNode\<lparr>pn_left := li, pn_right := ri, pn_kind := kd\<rparr>)"
    and l: "buildsTo F P pkg b S li (\<lambda>j. of_bool (p j)) c" and r: "buildsTo F P pkg b S ri (\<lambda>j. of_bool (q j)) d"
  shows "buildsTo F P pkg b S i (\<lambda>j. of_bool (bop (p j) (q j))) (Suc (max c d))"
proof -
  from l r obtain x y where x: "buildExpression F P pkg li = Some (Inr x)"
      "\<forall>j < fhe_slotCount F. es_val S x j = of_bool (p j)" "es_cost S x \<le> c" "es_columns S x \<subseteq> readable b"
    and y: "buildExpression F P pkg ri = Some (Inr y)"
      "\<forall>j < fhe_slotCount F. es_val S y j = of_bool (q j)" "es_cost S y \<le> d" "es_columns S y \<subseteq> readable b"
    by (auto simp: buildsTo_def)
  have "buildExpression F P pkg i = Some (Inr (op x y))"
    using build_node(3) [OF node, of F P x y] x(1) y(1) kd op(2) by simp
  moreover have "es_cost S (op x y) \<le> Suc (max c d)"
  proof -
    have "es_cost S (op x y) \<le> Suc (max (es_cost S x) (es_cost S y))" using op(1) by (simp add: bool_law_def)
    with x(3) y(3) show ?thesis by linarith
  qed
  moreover have "\<forall>j < fhe_slotCount F. es_val S (op x y) j = of_bool (bop (p j) (q j))"
    using op(1) x(2) y(2) by (simp add: bool_law_def)
  moreover have "es_columns S (op x y) \<subseteq> readable b" using op_columns(2) [OF op(1) x(4) y(4)] .
  ultimately show ?thesis unfolding buildsTo_def by blast
qed

lemma negation_builds:
  assumes laws: "not_law S (p1_notExpr P)"
    and node: "nodeAt (pk_predicateNodes pkg) i (emptyNode\<lparr>pn_left := li, pn_kind := PNot\<rparr>)"
    and l: "buildsTo F P pkg b S li (\<lambda>j. of_bool (p j)) c"
  shows "buildsTo F P pkg b S i (\<lambda>j. of_bool (\<not> p j)) c"
proof -
  from l obtain x where x: "buildExpression F P pkg li = Some (Inr x)"
    "\<forall>j < fhe_slotCount F. es_val S x j = of_bool (p j)" "es_cost S x \<le> c" "es_columns S x \<subseteq> readable b"
    by (auto simp: buildsTo_def)
  moreover from x(1) have "buildExpression F P pkg i = Some (Inr (p1_notExpr P x))"
    using build_node(2) [OF node, of F P x] by simp
  ultimately show ?thesis
    using laws op_columns(3) [OF laws x(4)] by (auto simp: buildsTo_def not_law_def)
qed

lemma termOk_small: "termOk F b R e \<Longrightarrow> j < fhe_slotCount F \<Longrightarrow> small (termValue R j e)"
  by (cases e) (auto simp: heldAs_def)

lemma where_builds:
  assumes laws: "expr_law F P D b S" "fhe_wire_law F" "fhe_decrypt_law F"
    and l: "literalsOk (pk_encryptedLiterals pkg)"
    and r: "represents F t (pk_predicateNodes pkg) (pk_encryptedLiterals pkg) i e"
  shows "filterable F P t b R e \<Longrightarrow>
    buildsTo F P pkg b S i (\<lambda>j. of_bool (rowMatches R j e)) (whereDepth t e)"
  using r
proof (induction rule: represents.induct)
  case (stringL i k n firstId cs x)
  note d = stringColumn_def stringLiteral_def stringComparison_def
  from stringL.prems have "stringOk F P t b R n x" by (simp add: d)
  from string_builds [OF laws l stringL(1,2) this stringL(3)] stringL(2) show ?case by (simp add: d)
next
  case (stringR i k n firstId cs x)
  note d = stringColumn_def stringLiteral_def stringComparison_def
  from stringR.prems have "stringOk F P t b R n x" by (simp add: d)
  from string_builds [OF laws l stringR(1,2) this stringR(3)] stringR(2) show ?case by (simp add: d)
next
  case (comparison i li ri k l' r')
  then have t: "termOk F b R l'" "termOk F b R r'" by simp_all
  from comparison_builds [OF laws(1) comparison(1) term_builds [OF laws l comparison(5) t(1)] termOk_small [OF t(1)]
      term_builds [OF laws l comparison(6) t(2)] termOk_small [OF t(2)]] comparison(4)
  show ?case by simp
next
  case (conj i li ri l' r')
  have "bool_law S (p1_andExpr P) (\<and>)" using laws(1) by (simp add: expr_law_def)
  from connective_builds [OF laws(1) this _ _ conj(1) conj.IH(1) conj.IH(2)] conj.prems
  show ?case by (simp add: binaryExpr_def)
next
  case (disj i li ri l' r')
  have "bool_law S (p1_orExpr P) (\<or>)" using laws(1) by (simp add: expr_law_def)
  from connective_builds [OF laws(1) this _ _ disj(1) disj.IH(1) disj.IH(2)] disj.prems
  show ?case by (simp add: binaryExpr_def)
next
  case (neg i li e)
  have "not_law S (p1_notExpr P)" using laws(1) by (simp add: expr_law_def)
  from negation_builds [OF this neg(1) neg.IH] neg.prems show ?case by simp
qed simp_all

section \<open>A concrete batch\<close>

lemma plain_decrypts: "decryptsTo plainFhe ct f \<Longrightarrow> i < 4 \<Longrightarrow> ct ! i = f i"
proof -
  assume "decryptsTo plainFhe ct f" "i < 4"
  then have "take 4 ct = map f [0..<4]" by (simp add: decryptsTo_def plainFhe_def)
  then have "take 4 ct ! i = map f [0..<4] ! i" by simp
  with \<open>i < 4\<close> show "ct ! i = f i" by simp
qed

lemma plain_map: "decryptsTo plainFhe (map f [0..<4]) f"
  by (simp add: decryptsTo_def plainFhe_def take_map)

definition plainSem :: "int list EncBatch \<Rightarrow> plainExpr ExprSem" where
  "plainSem b = \<lparr>es_val = (\<lambda>ex. ex (plainEnv b)), es_cost = (\<lambda>_. 0), es_columns = (\<lambda>_. {})\<rparr>"

lemma plain_expr_law: "expr_law plainFhe plainProto1 depth b (plainSem b)"
proof -
  have "leaf_law plainFhe plainProto1 b (plainSem b)"
    using plain_decrypts by (auto simp: leaf_law_def plainSem_def plainProto1_def plainEnv_def plainFhe_def)
  moreover have "eval_law plainFhe plainProto1 depth b (plainSem b)"
    using plain_map by (auto simp: eval_law_def plainSem_def plainProto1_def)
  ultimately show ?thesis
    by (simp add: expr_law_def cmp_law_def bool_law_def not_law_def)
      (simp add: plainSem_def plainProto1_def)
qed

text \<open>Four employees.\<close>

definition sampleRows :: Rows where
  "sampleRows = \<lparr>rw_int = (\<lambda>_ i. [25, 31, 40, 50] ! i), rw_string = (\<lambda>_ i. [''Al'', ''Bob'', ''Cy'', ''Di''] ! i)\<rparr>"

definition sampleBatch :: "int list EncBatch" where
  "sampleBatch = \<lparr>eb_logicalRowCount = 4,
     eb_columns = (\<lambda>c. Some \<lparr>ch_logicalRowCount = 4,
       ch_ciphertexts = [if c = ''age'' then map (rw_int sampleRows c) [0..<4]
         else map (\<lambda>i. charAt (rw_string sampleRows ''name'' i) (length c - 5)) [0..<4]]\<rparr>),
     eb_selectionMask = None\<rparr>"

lemma less_four: "i < 4 \<longleftrightarrow> i = 0 \<or> i = 1 \<or> i = 2 \<or> i = (3 :: nat)"
  by auto

lemma sample_filterable:
  "filterable plainFhe plainProto1 employeesSchema sampleBatch sampleRows (the (st_whereClause encSample))"
proof -
  have slots: "fhe_slotCount plainFhe = 4" by (simp add: plainFhe_def)
  have names: "textOk 16 (rw_string sampleRows n i)" if "i < 4" for n i
    using that by (auto simp: less_four sampleRows_def textOk_def code_def)
  have "heldAs plainFhe sampleBatch ''age'' (rw_int sampleRows ''age'')"
  proof -
    have "decryptsTo plainFhe (map (rw_int sampleRows ''age'') [0..<4]) (rw_int sampleRows ''age'')"
      by (rule plain_map)
    moreover have "small (rw_int sampleRows ''age'' i)" if "i < 4" for i
      using that by (auto simp: less_four sampleRows_def small_def)
    ultimately show ?thesis by (simp add: heldAs_def sampleBatch_def slots)
  qed
  moreover have "heldAs plainFhe sampleBatch (p1_stringPhysicalColumn plainProto1 ''name'' p)
      (\<lambda>i. charAt (rw_string sampleRows ''name'' i) p)" if "p < 16" for p
    using plain_map charAt_small [OF names] by (simp add: heldAs_def sampleBatch_def plainProto1_def slots)
  moreover have "bareName ''name'' = ''name''" by (rule bareName_undotted) (simp add: hasDot_iff)
  moreover have "textOk 16 ''Bob''" by (simp add: textOk_def code_def)
  ultimately show ?thesis
    using names slots
    by (simp add: encSample_def stringComparison_def stringColumn_def stringLiteral_def stringOk_def
        encSample_columns small_def)
qed

lemma represented_expression:
  assumes r: "represents F t (pk_predicateNodes pkg) (pk_encryptedLiterals pkg) (of_nat (length (pk_predicateNodes pkg) - 1)) e"
    and l: "literalsOk (pk_encryptedLiterals pkg)"
    and laws: "fhe_wire_law F" "fhe_decrypt_law F" "expr_law F P depth b S" and ok: "filterable F P t b R e"
  shows "\<exists>ex. buildWhere F P pkg = Some (Inr (Some ex)) \<and> es_cost S ex \<le> whereDepth t e \<and> es_columns S ex \<subseteq> readable b
     \<and> (\<forall>j < fhe_slotCount F. es_val S ex j = of_bool (rowMatches R j e))"
proof -
  let ?i = "of_nat (length (pk_predicateNodes pkg) - 1) :: u32"
  from where_builds [OF laws(3,1,2) l r ok] obtain ex where
    ex: "buildExpression F P pkg ?i = Some (Inr ex)" "es_cost S ex \<le> whereDepth t e" "es_columns S ex \<subseteq> readable b"
      "\<And>j. j < fhe_slotCount F \<Longrightarrow> es_val S ex j = of_bool (rowMatches R j e)"
    by (auto simp: buildsTo_def)
  from ex(1) have "pk_predicateNodes pkg \<noteq> []" by (auto simp: buildExpression.simps [of F P pkg])
  with ex show ?thesis by (simp add: buildWhere_def)
qed

lemma eval_decrypts:
  assumes "expr_law F P depth b S" "es_cost S ex \<le> depth" "es_columns S ex \<subseteq> readable b"
    and "\<forall>j < fhe_slotCount F. es_val S ex j = f j"
  shows "\<exists>ct. p1_evaluate P ex b = Inr ct \<and> decryptsTo F ct f"
proof -
  obtain ct where "p1_evaluate P ex b = Inr ct" "decryptsTo F ct (es_val S ex)"
    using assms(1-3) by (auto simp: expr_law_def eval_law_def)
  with assms(4) show ?thesis by (auto simp: decryptsTo_def)
qed

lemma represented_mask:
  assumes r: "represents F t (pk_predicateNodes pkg) (pk_encryptedLiterals pkg) (of_nat (length (pk_predicateNodes pkg) - 1)) e"
    and l: "literalsOk (pk_encryptedLiterals pkg)"
    and laws: "fhe_wire_law F" "fhe_decrypt_law F" "expr_law F P depth b S"
    and ok: "filterable F P t b R e" and depth: "whereDepth t e \<le> depth"
  shows "\<exists>ex ct. buildWhere F P pkg = Some (Inr (Some ex)) \<and> p1_evaluate P ex b = Inr ct
     \<and> decryptsTo F ct (\<lambda>i. of_bool (rowMatches R i e))"
proof -
  obtain ex where ex: "buildWhere F P pkg = Some (Inr (Some ex))" "es_cost S ex \<le> whereDepth t e"
    "es_columns S ex \<subseteq> readable b" "\<forall>j < fhe_slotCount F. es_val S ex j = of_bool (rowMatches R j e)"
    using represented_expression [OF r l laws ok] by blast
  with eval_decrypts [OF laws(3) _ ex(3,4)] depth show ?thesis by fastforce
qed

lemma where_mask:
  assumes e: "encryptCatalog F s plan cat meta = Inr pkg" and w: "st_whereClause s = Some e"
    and t: "cat_tables cat (pp_tableName plan) = Some t"
    and size: "length (pk_predicateNodes pkg) < 2 ^ 32" "length (pk_encryptedLiterals pkg) < 2 ^ 32"
    and laws: "fhe_wire_law F" "fhe_decrypt_law F" "expr_law F P depth b S"
    and ok: "filterable F P t b R e" and depth: "whereDepth t e \<le> depth"
  shows "\<exists>ex ct. buildWhere F P pkg = Some (Inr (Some ex)) \<and> p1_evaluate P ex b = Inr ct
     \<and> decryptsTo F ct (\<lambda>i. of_bool (rowMatches R i e))"
proof (rule represented_mask [OF _ _ laws ok depth])
  show "represents F t (pk_predicateNodes pkg) (pk_encryptedLiterals pkg) (of_nat (length (pk_predicateNodes pkg) - 1)) e"
    using encrypted_represents [OF e w t size] .
  show "literalsOk (pk_encryptedLiterals pkg)"
    using package_literalsOk [OF e _ size(2)] laws(1) by (simp add: fhe_wire_law_def)
qed

section \<open>Properties\<close>

text \<open>C12: the encrypted filter is right.  From the package that the client builds for
  a statement, the executor builds an expression; evaluated on a batch that holds the columns of
  the WHERE clause, it gives a ciphertext that decrypts, in every slot, to 1 if the row matches
  the clause and to 0 otherwise, as long as values and literals are in [0, 128], texts are ASCII
  and fit, and the clause stays within the multiplicative depth of the parameters.\<close>

theorem where_mask_correct:
  assumes e: "encryptCatalog F s plan cat meta = Inr pkg" and w: "st_whereClause s = Some e"
    and t: "cat_tables cat (pp_tableName plan) = Some t"
    and size: "length (pk_predicateNodes pkg) < 2 ^ 32" "length (pk_encryptedLiterals pkg) < 2 ^ 32"
    and laws: "fhe_wire_law F" "fhe_decrypt_law F" "expr_law F P depth b S"
    and ok: "filterable F P t b R e" and depth: "whereDepth t e \<le> depth"
  shows "\<exists>ex ct. buildWhere F P pkg = Some (Inr (Some ex)) \<and> p1_evaluate P ex b = Inr ct
     \<and> decryptsTo F ct (\<lambda>i. of_bool (rowMatches R i e))"
  using assms by (rule where_mask)

theorem where_mask_correct_witness:
  "\<exists>pkg ex ct. encryptCatalog plainFhe encSample encPlan makeEmployeesCatalog encMeta = Inr pkg
     \<and> buildWhere plainFhe plainProto1 pkg = Some (Inr (Some ex))
     \<and> p1_evaluate plainProto1 ex sampleBatch = Inr ct
     \<and> decryptsTo plainFhe ct (\<lambda>i. of_bool (rowMatches sampleRows i (the (st_whereClause encSample))))"
proof -
  obtain st rs where p: "length (es_nodes st) = 6" "length (es_literals st) = 17"
    "encryptCatalog plainFhe encSample encPlan makeEmployeesCatalog encMeta = Inr (packageOf encPlan encMeta rs st)"
    using encSample_package by blast
  have w: "st_whereClause encSample = Some (the (st_whereClause encSample))" by (simp add: encSample_def)
  have t: "cat_tables makeEmployeesCatalog (pp_tableName encPlan) = Some employeesSchema"
    by (simp add: encPlan_def encSample_columns)
  from where_mask_correct [OF p(3) w t _ _ plainFhe_laws plain_expr_law sample_filterable order_refl] p
  show ?thesis by (auto simp: packageOf_def)
qed

end
