(* ===== verification/Hega_Result.thy ===== *)
theory Hega_Result
  imports Hega_Filter "HOL-Library.AList" "HOL-Library.List_Lexorder"
begin

text \<open>
  The client's result decoder (\<open>include/proto2/result_decoder.h\<close>, \<open>result/result_decoder.cpp\<close>):
  decryption of the mask and of the columns, reconstruction of the rows, ORDER BY and LIMIT.
  The two \<open>unordered_map\<close>s of \<open>decode\<close> are association lists in the order of first insertion;
  their iteration order shows only in which of several broken columns raises the error.
  \<open>std::stable_sort\<close> is insertion by the comparator.
\<close>

section \<open>Definitions\<close>

record ResultRow =
  rr_values :: "string \<rightharpoonup> int"
  rr_stringValues :: "string \<rightharpoonup> string"

text \<open>\<open>static_cast<size_t>\<close> of an \<open>int64_t\<close>.\<close>

definition size_of_int64 :: "int \<Rightarrow> nat" where
  "size_of_int64 n = unat (word_of_int n :: u64)"

text \<open>\<open>std::vector<int64_t>(n, 1)\<close> throws \<open>std::length_error\<close> beyond \<open>max_size()\<close>.\<close>

definition decryptMask :: "'ct Fhe \<Rightarrow> EncryptedResultBatch \<Rightarrow> int list result" where
  "decryptMask F batch =
     (let n = size_of_int64 (rb_logicalRowCount batch) in
      if \<not> rb_hasMask batch
      then (if n < 2 ^ 60 then Inr (replicate n 1) else Inl LengthError)
      else bindE (fhe_deserializeWithSize F (rb_selectionMaskBytes batch) n) (\<lambda>ct.
             Inr (decryptVector F ct n)))"

text \<open>\<open>positions.resize(pos + 1)\<close> in \<open>uint32_t\<close> arithmetic, then \<open>positions[pos] = values\<close>.\<close>

definition resize :: "nat \<Rightarrow> 'a \<Rightarrow> 'a list \<Rightarrow> 'a list" where
  "resize n d xs = take n xs @ replicate (n - length xs) d"

definition setPosition :: "u32 \<Rightarrow> int list \<Rightarrow> int list list \<Rightarrow> int list list result" where
  "setPosition pos values positions =
     (let ps = (if length positions \<le> unat pos then resize (unat (pos + 1)) [] positions else positions) in
      if unat pos < length ps then Inr (ps[unat pos := values])
      else Inl (UndefinedBehaviour ''index out of range''))"

type_synonym columns = "(string \<times> int list) list \<times> (string \<times> int list list) list"

definition decodeColumn :: "'ct Fhe \<Rightarrow> nat \<Rightarrow> EncryptedColumnResult \<Rightarrow> columns \<Rightarrow> columns result" where
  "decodeColumn F rowCount cr = (\<lambda>(cols, stringCols).
     bindE (fhe_deserializeWithSize F (cr_ciphertextBytes cr) rowCount) (\<lambda>ct.
     let values = decryptVector F ct rowCount in
     if cr_logicalType cr = ''STRING'' then
       bindE (setPosition (cr_stringPosition cr) values
                (case map_of stringCols (cr_columnName cr) of None \<Rightarrow> [] | Some ps \<Rightarrow> ps)) (\<lambda>ps.
       Inr (cols, AList.update (cr_columnName cr) ps stringCols))
     else Inr (AList.update (cr_columnName cr) values cols, stringCols)))"

definition invalidAscii :: err where
  "invalidAscii = RuntimeError ''Decoded string contains invalid ASCII''"

fun decodeString :: "nat \<Rightarrow> int list list \<Rightarrow> string result" where
  "decodeString i [] = Inr []"
| "decodeString i (chars # positions) =
     (if length chars \<le> i \<or> chars ! i = 0 then Inr []
      else if chars ! i < 0 \<or> chars ! i > 127 then Inl invalidAscii
      else bindE (decodeString i positions) (\<lambda>rest. Inr (char_of (nat (chars ! i)) # rest)))"

definition decodeRow :: "columns \<Rightarrow> nat \<Rightarrow> ResultRow result" where
  "decodeRow = (\<lambda>(cols, stringCols) i.
     bindE (mapE (\<lambda>(name, vals).
              if i < length vals then Inr (name, vals ! i)
              else Inl (UndefinedBehaviour ''index out of range'')) cols) (\<lambda>values.
     bindE (mapE (\<lambda>(name, positions). bindE (decodeString i positions) (\<lambda>v. Inr (name, v))) stringCols)
       (\<lambda>strings. Inr \<lparr>rr_values = map_of values, rr_stringValues = map_of strings\<rparr>)))"

definition decode :: "'ct Fhe \<Rightarrow> EncryptedResultBatch \<Rightarrow> ResultRow list result" where
  "decode F batch =
     (let rowCount = size_of_int64 (rb_logicalRowCount batch) in
      bindE (decryptMask F batch) (\<lambda>mask.
      bindE (foldE (decodeColumn F rowCount) (rb_columns batch) ([], [])) (\<lambda>cols.
        mapE (decodeRow cols) (filter (\<lambda>i. i < length mask \<and> mask ! i = 1) [0..<rowCount]))))"

subsection \<open>ORDER BY and LIMIT\<close>

fun rowLess :: "OrderByColumn list \<Rightarrow> ResultRow \<Rightarrow> ResultRow \<Rightarrow> bool" where
  "rowLess [] a b = False"
| "rowLess (orderCol # orderBy) a b =
     (case (rr_values a (ob_columnName orderCol), rr_values b (ob_columnName orderCol)) of
        (Some valA, Some valB) \<Rightarrow>
          if valA \<noteq> valB
          then (if ob_direction orderCol = Ascending then valA < valB else valA > valB)
          else rowLess orderBy a b
      | _ \<Rightarrow> rowLess orderBy a b)"

fun insertBy :: "('a \<Rightarrow> 'a \<Rightarrow> bool) \<Rightarrow> 'a \<Rightarrow> 'a list \<Rightarrow> 'a list" where
  "insertBy lt x [] = [x]"
| "insertBy lt x (y # ys) = (if lt y x then y # insertBy lt x ys else x # y # ys)"

definition stableSort :: "('a \<Rightarrow> 'a \<Rightarrow> bool) \<Rightarrow> 'a list \<Rightarrow> 'a list" where
  "stableSort lt xs = foldr (insertBy lt) xs []"

definition applySortAndLimit :: "ResultRow list \<Rightarrow> OrderByColumn list \<Rightarrow> int \<Rightarrow> ResultRow list" where
  "applySortAndLimit rows orderBy limit =
     (let rows = (if orderBy \<noteq> [] then stableSort (rowLess orderBy) rows else rows) in
      if 0 \<le> limit \<and> nat limit < length rows then take (nat limit) rows else rows)"

section \<open>Sorting by a comparator\<close>

text \<open>The contract of \<open>std::stable_sort\<close>: on the elements it is given, the comparator is the strict
  order of some key.\<close>

locale keyed_order =
  fixes carrier :: "'a set" and lt :: "'a \<Rightarrow> 'a \<Rightarrow> bool" and key :: "'a \<Rightarrow> 'k :: linorder"
  assumes lt_key: "x \<in> carrier \<Longrightarrow> y \<in> carrier \<Longrightarrow> lt x y \<longleftrightarrow> key x < key y"
begin

lemma insert_key: "x \<in> carrier \<Longrightarrow> set ys \<subseteq> carrier \<Longrightarrow> insertBy lt x ys = insort_key key x ys"
  by (induction ys) (auto simp: lt_key not_le)

lemma sort_key: "set xs \<subseteq> carrier \<Longrightarrow> stableSort lt xs = List.sort_key key xs"
proof (induction xs)
  case (Cons x xs)
  then show ?case using insert_key [of x "List.sort_key key xs"] by (simp add: stableSort_def)
qed (simp add: stableSort_def)

lemma sort_stable:
  "set xs \<subseteq> carrier \<Longrightarrow> filter (\<lambda>y. key y = k) (stableSort lt xs) = filter (\<lambda>y. key y = k) xs"
  by (simp add: sort_key sort_key_stable)

end

text \<open>Rows with an integer in every listed column.  The key of such a row is the list of these values,
  negated for DESC, in lexicographic order.\<close>

definition intRows :: "OrderByColumn list \<Rightarrow> ResultRow set" where
  "intRows orderBy = {r. \<forall>c\<in>set orderBy. rr_values r (ob_columnName c) \<noteq> None}"

definition orderKey :: "OrderByColumn list \<Rightarrow> ResultRow \<Rightarrow> int list" where
  "orderKey orderBy r = map (\<lambda>c. let v = the (rr_values r (ob_columnName c)) in
     if ob_direction c = Ascending then v else - v) orderBy"

lemma rowLess_key:
  "a \<in> intRows orderBy \<Longrightarrow> b \<in> intRows orderBy \<Longrightarrow> rowLess orderBy a b \<longleftrightarrow> orderKey orderBy a < orderKey orderBy b"
  by (induction orderBy) (auto simp: intRows_def orderKey_def Let_def)

interpretation rows: keyed_order "intRows orderBy" "rowLess orderBy" "orderKey orderBy" for orderBy
  by unfold_locales (rule rowLess_key)

text \<open>Rows without an integer in any listed column: the comparator holds them all equal.\<close>

definition textRows :: "OrderByColumn list \<Rightarrow> ResultRow set" where
  "textRows orderBy = {r. \<forall>c\<in>set orderBy. rr_values r (ob_columnName c) = None}"

lemma rowLess_text: "a \<in> textRows orderBy \<Longrightarrow> \<not> rowLess orderBy a b"
  by (induction orderBy) (auto simp: textRows_def)

interpretation texts: keyed_order "textRows orderBy" "rowLess orderBy" "\<lambda>_. 0 :: nat" for orderBy
  by unfold_locales (simp add: rowLess_text)

section \<open>Decoding\<close>

text \<open>The results of one column, as the executor writes them: one ciphertext, or one per character
  position, that decrypt to the values of the rows.\<close>

definition deserializesTo :: "'ct Fhe \<Rightarrow> byte list \<Rightarrow> nat \<Rightarrow> (nat \<Rightarrow> int) \<Rightarrow> bool" where
  "deserializesTo F bs n f \<longleftrightarrow> (\<exists>ct. fhe_deserializeWithSize F bs n = Inr ct \<and> decryptVector F ct n = map f [0..<n])"

definition intResult :: "'ct Fhe \<Rightarrow> Rows \<Rightarrow> nat \<Rightarrow> string \<Rightarrow> EncryptedColumnResult list \<Rightarrow> bool" where
  "intResult F R n name crs \<longleftrightarrow> (\<exists>cr. crs = [cr] \<and> cr_columnName cr = name \<and> cr_logicalType cr = ''INT64''
     \<and> deserializesTo F (cr_ciphertextBytes cr) n (rw_int R name))"

definition stringResult :: "'ct Fhe \<Rightarrow> Rows \<Rightarrow> nat \<Rightarrow> string \<Rightarrow> nat \<Rightarrow> EncryptedColumnResult list \<Rightarrow> bool" where
  "stringResult F R n name w crs \<longleftrightarrow> length crs = w \<and> 0 < w \<and> w < 2 ^ 32
     \<and> (\<forall>i < n. textOk w (rw_string R name i))
     \<and> (\<forall>p < w. cr_columnName (crs ! p) = name \<and> cr_logicalType (crs ! p) = ''STRING''
           \<and> cr_stringPosition (crs ! p) = of_nat p
           \<and> deserializesTo F (cr_ciphertextBytes (crs ! p)) n (\<lambda>i. charAt (rw_string R name i) p))"

lemma setPosition_next:
  assumes "Suc (length ps) < 2 ^ 32"
  shows "setPosition (of_nat (length ps)) v ps = Inr (ps @ [v])"
proof -
  have "of_nat (length ps) + 1 = (of_nat (Suc (length ps)) :: u32)" by simp
  then have "unat (of_nat (length ps) + 1 :: u32) = Suc (length ps)" by (simp only: u32_index [OF assms])
  moreover have "unat (of_nat (length ps) :: u32) = length ps" using assms by (intro u32_index) simp
  ultimately show ?thesis by (simp add: setPosition_def resize_def Let_def list_update_append)
qed

text \<open>The two columns lists grow by one entry per column.\<close>

lemma update_new: "k \<notin> fst ` set xs \<Longrightarrow> AList.update k v xs = xs @ [(k, v)]"
  by (induction xs) auto

lemma update_last: "k \<notin> fst ` set xs \<Longrightarrow> AList.update k v (xs @ [(k, u)]) = xs @ [(k, v)]"
  by (induction xs) auto

lemma map_of_last: "k \<notin> fst ` set xs \<Longrightarrow> map_of (xs @ [(k, u)]) k = Some u"
  by (simp add: map_of_eq_None_iff [THEN iffD2] map_add_Some_iff)

lemma decode_int:
  assumes "intResult F R n name crs" "name \<notin> fst ` set cols"
  shows "foldE (decodeColumn F n) crs (cols, strs) = Inr (cols @ [(name, map (rw_int R name) [0..<n])], strs)"
  using assms by (auto simp: intResult_def deserializesTo_def decodeColumn_def update_new Let_def)

lemma decode_string_prefix:
  assumes s: "stringResult F R n name w crs" and new: "name \<notin> fst ` set strs"
  shows "p < w \<Longrightarrow> foldE (decodeColumn F n) (take (Suc p) crs) (cols, strs) =
     Inr (cols, strs @ [(name, map (\<lambda>q. map (\<lambda>i. charAt (rw_string R name i) q) [0..<n]) [0..<Suc p])])"
proof (induction p)
  case 0
  then obtain c cs where c: "crs = c # cs" using s by (cases crs) (auto simp: stringResult_def)
  with 0 s have "cr_columnName c = name" "cr_logicalType c = ''STRING''" "cr_stringPosition c = 0"
    "deserializesTo F (cr_ciphertextBytes c) n (\<lambda>i. charAt (rw_string R name i) 0)"
    by (auto simp: stringResult_def)
  moreover have "map_of strs name = None" using new by (simp add: map_of_eq_None_iff)
  ultimately show ?case
    using setPosition_next [of "[]"] new
    by (auto simp: c decodeColumn_def deserializesTo_def Let_def update_new)
next
  case (Suc p)
  let ?f = "\<lambda>q. map (\<lambda>i. charAt (rw_string R name i) q) [0..<n]"
  have t: "take (Suc (Suc p)) crs = take (Suc p) crs @ [crs ! Suc p]"
    using s Suc.prems by (intro take_Suc_conv_app_nth) (simp add: stringResult_def)
  have c: "cr_columnName (crs ! Suc p) = name" "cr_logicalType (crs ! Suc p) = ''STRING''"
    "cr_stringPosition (crs ! Suc p) = of_nat (Suc p)"
    "deserializesTo F (cr_ciphertextBytes (crs ! Suc p)) n (\<lambda>i. charAt (rw_string R name i) (Suc p))"
    using s Suc.prems by (auto simp: stringResult_def)
  have "setPosition (of_nat (Suc p)) (?f (Suc p)) (map ?f [0..<Suc p]) = Inr (map ?f [0..<Suc p] @ [?f (Suc p)])"
    using setPosition_next [of "map ?f [0..<Suc p]" "?f (Suc p)"] s Suc.prems by (simp add: stringResult_def)
  with c new have "decodeColumn F n (crs ! Suc p) (cols, strs @ [(name, map ?f [0..<Suc p])]) =
      Inr (cols, strs @ [(name, map ?f [0..<Suc (Suc p)])])"
    by (auto simp: decodeColumn_def deserializesTo_def Let_def map_of_last update_last simp del: upt_Suc map_of_append)
      (simp add: upt_Suc_append)
  with Suc show ?case by (simp add: t foldE_append)
qed

lemma decode_chars:
  assumes i: "i < n" and x: "textOk w (x i)"
  shows "p \<le> w \<Longrightarrow> decodeString i (map (\<lambda>q. map (\<lambda>i. charAt (x i) q) [0..<n]) [p..<w]) = Inr (drop p (x i))"
proof (induction "w - p" arbitrary: p)
  case 0
  then show ?case using x by (simp add: textOk_def)
next
  case (Suc d)
  then have p: "p < w" by simp
  then have u: "[p..<w] = p # [Suc p..<w]" by (simp add: upt_conv_Cons)
  show ?case
  proof (cases "p < length (x i)")
    case True
    then have "0 < code (x i ! p)" "code (x i ! p) \<le> 127" using x by (simp_all add: textOk_def)
    moreover have "drop p (x i) = x i ! p # drop (Suc p) (x i)" using True by (simp add: Cons_nth_drop_Suc)
    moreover have "char_of (code (x i ! p)) = x i ! p" by (simp add: code_def)
    ultimately show ?thesis
      using Suc.hyps(1) [of "Suc p"] Suc.hyps(2) p True i by (simp add: u charAt_def [of "x i" p])
  next
    case False
    then show ?thesis using i by (simp add: u charAt_def)
  qed
qed

text \<open>A result batch: groups of column results, one group per column of the list.\<close>

definition columnHolds ::
  "'ct Fhe \<Rightarrow> Rows \<Rightarrow> nat \<Rightarrow> ColumnSchema \<Rightarrow> EncryptedColumnResult list \<Rightarrow> bool" where
  "columnHolds F R n cs crs \<longleftrightarrow>
     (if cs_type cs = STRING then stringResult F R n (cs_name cs) (cs_maxLength cs) crs
      else intResult F R n (cs_name cs) crs)"

definition intNames :: "ColumnSchema list \<Rightarrow> string list" where
  "intNames css = map cs_name (filter (\<lambda>cs. cs_type cs \<noteq> STRING) css)"

definition stringNames :: "ColumnSchema list \<Rightarrow> (string \<times> nat) list" where
  "stringNames css = map (\<lambda>cs. (cs_name cs, cs_maxLength cs)) (filter (\<lambda>cs. cs_type cs = STRING) css)"

definition decodedInts :: "Rows \<Rightarrow> nat \<Rightarrow> string \<Rightarrow> string \<times> int list" where
  "decodedInts R n name = (name, map (rw_int R name) [0..<n])"

definition decodedStrings :: "Rows \<Rightarrow> nat \<Rightarrow> string \<times> nat \<Rightarrow> string \<times> int list list" where
  "decodedStrings R n = (\<lambda>(name, w). (name, map (\<lambda>p. map (\<lambda>i. charAt (rw_string R name i) p) [0..<n]) [0..<w]))"

lemma decode_columns:
  assumes "list_all2 (columnHolds F R n) css crss" "distinct (map cs_name css)"
    and "\<forall>cs\<in>set css. cs_name cs \<notin> fst ` set cols \<union> fst ` set strs"
  shows "foldE (decodeColumn F n) (concat crss) (cols, strs) =
    Inr (cols @ map (decodedInts R n) (intNames css), strs @ map (decodedStrings R n) (stringNames css))"
  using assms
proof (induction css crss arbitrary: cols strs rule: list_all2_induct)
  case Nil
  then show ?case by (simp add: intNames_def stringNames_def)
next
  case (Cons cs css crs crss)
  have new: "cs_name cs \<notin> fst ` set cols" "cs_name cs \<notin> fst ` set strs" using Cons.prems(2) by auto
  have d: "distinct (map cs_name css)" "\<forall>c\<in>set css. cs_name c \<noteq> cs_name cs"
    using Cons.prems(1) by (auto simp: image_iff)
  show ?case
  proof (cases "cs_type cs = STRING")
    case True
    with Cons.hyps(1) have s: "stringResult F R n (cs_name cs) (cs_maxLength cs) crs" by (simp add: columnHolds_def)
    then have w: "Suc (cs_maxLength cs - 1) = cs_maxLength cs" "take (cs_maxLength cs) crs = crs"
      by (simp_all add: stringResult_def)
    have "foldE (decodeColumn F n) crs (cols, strs) =
        Inr (cols, strs @ [decodedStrings R n (cs_name cs, cs_maxLength cs)])"
      using decode_string_prefix [OF s new(2), of "cs_maxLength cs - 1" cols] w s
      by (simp add: decodedStrings_def stringResult_def)
    moreover have "foldE (decodeColumn F n) (concat crss) (cols, strs @ [decodedStrings R n (cs_name cs, cs_maxLength cs)]) =
        Inr (cols @ map (decodedInts R n) (intNames css),
             (strs @ [decodedStrings R n (cs_name cs, cs_maxLength cs)]) @ map (decodedStrings R n) (stringNames css))"
      using Cons.prems(2) d by (intro Cons.IH) (auto simp: decodedStrings_def)
    ultimately show ?thesis using True by (simp add: foldE_append intNames_def stringNames_def)
  next
    case False
    with Cons.hyps(1) have "intResult F R n (cs_name cs) crs" by (simp add: columnHolds_def)
    from decode_int [OF this new(1), of strs] have
      "foldE (decodeColumn F n) crs (cols, strs) = Inr (cols @ [decodedInts R n (cs_name cs)], strs)"
      by (simp add: decodedInts_def)
    moreover have "foldE (decodeColumn F n) (concat crss) (cols @ [decodedInts R n (cs_name cs)], strs) =
        Inr ((cols @ [decodedInts R n (cs_name cs)]) @ map (decodedInts R n) (intNames css),
             strs @ map (decodedStrings R n) (stringNames css))"
      using Cons.prems(2) d by (intro Cons.IH) (auto simp: decodedInts_def)
    ultimately show ?thesis using False by (simp add: foldE_append intNames_def stringNames_def)
  qed
qed

text \<open>The row in slot \<open>i\<close> with the given columns.\<close>

definition rowOf :: "Rows \<Rightarrow> ColumnSchema list \<Rightarrow> nat \<Rightarrow> ResultRow" where
  "rowOf R css i =
     \<lparr>rr_values = map_of (map (\<lambda>name. (name, rw_int R name i)) (intNames css)),
      rr_stringValues = map_of (map (\<lambda>c. (fst c, rw_string R (fst c) i)) (stringNames css))\<rparr>"

lemma decode_row:
  assumes "\<forall>(name, w)\<in>set (stringNames css). \<forall>i < n. textOk w (rw_string R name i)" and i: "i < n"
  shows "decodeRow (map (decodedInts R n) (intNames css), map (decodedStrings R n) (stringNames css)) i =
     Inr (rowOf R css i)"
proof -
  have "mapE (\<lambda>(name, vals). if i < length vals then Inr (name, vals ! i)
        else Inl (UndefinedBehaviour ''index out of range'')) (map (decodedInts R n) (intNames css)) =
      Inr (map (\<lambda>(name, vals). (name, vals ! i)) (map (decodedInts R n) (intNames css)))"
    using i by (intro mapE_total) (auto simp: decodedInts_def)
  moreover have "mapE (\<lambda>(name, ps). bindE (decodeString i ps) (\<lambda>v. Inr (name, v)))
        (map (decodedStrings R n) (stringNames css)) =
      Inr (map (\<lambda>(name, ps). (name, rw_string R name i)) (map (decodedStrings R n) (stringNames css)))"
  proof (intro mapE_total)
    fix x assume "x \<in> set (map (decodedStrings R n) (stringNames css))"
    then obtain name w where x: "(name, w) \<in> set (stringNames css)" "x = decodedStrings R n (name, w)" by auto
    with assms have "textOk w (rw_string R name i)" by auto
    from decode_chars [OF i, where x = "rw_string R name" and w = w and p = 0, OF this]
    show "(case x of (name, ps) \<Rightarrow> bindE (decodeString i ps) (\<lambda>v. Inr (name, v))) =
        Inr (case x of (name, ps) \<Rightarrow> (name, rw_string R name i))"
      by (simp add: x(2) decodedStrings_def)
  qed
  ultimately show ?thesis
    using i by (simp add: decodeRow_def rowOf_def decodedInts_def decodedStrings_def comp_def case_prod_beta)
qed

lemma sort_key_constant: "\<forall>x\<in>set xs. f x = c \<Longrightarrow> sort_key f xs = xs"
  using sort_key_stable [of f c xs] by simp

section \<open>A sample result\<close>

lemma plain_deserializes:
  "n \<le> 4 \<Longrightarrow> deserializesTo plainFhe (fhe_serialize plainFhe (map f [0..<4])) n f"
  by (simp add: deserializesTo_def plain_wire decryptVector_def) (simp add: plainFhe_def take_map)

definition sampleColumns :: "ColumnSchema list" where
  "sampleColumns = [\<lparr>cs_name = ''age'', cs_type = INT64, cs_maxLength = 0\<rparr>,
     \<lparr>cs_name = ''name'', cs_type = STRING, cs_maxLength = 16\<rparr>]"

definition sampleGroups :: "EncryptedColumnResult list list" where
  "sampleGroups =
     [[columnResult plainFhe ''age'' (sampleColumns ! 0) 0 (map (rw_int sampleRows ''age'') [0..<4])],
      map (\<lambda>p. columnResult plainFhe ''name'' (sampleColumns ! 1) p
                 (map (\<lambda>i. charAt (rw_string sampleRows ''name'' i) p) [0..<4])) [0..<16]]"

definition sampleResult :: EncryptedResultBatch where
  "sampleResult = \<lparr>rb_batchId = 0, rb_logicalRowCount = 4, rb_columns = concat sampleGroups,
     rb_selectionMaskBytes = fhe_serialize plainFhe (map (\<lambda>i. of_bool (30 < rw_int sampleRows ''age'' i)) [0..<4]),
     rb_hasMask = True\<rparr>"

lemma sample_columns_hold: "list_all2 (columnHolds plainFhe sampleRows 4) sampleColumns sampleGroups"
proof -
  have names: "textOk 16 (rw_string sampleRows ''name'' i)" if "i < 4" for i
    using that by (auto simp: less_four sampleRows_def textOk_def code_def)
  show ?thesis
    using names plain_deserializes [of 4]
    by (simp add: sampleColumns_def sampleGroups_def columnHolds_def intResult_def stringResult_def columnResult_def)
qed

definition overflowColumn :: EncryptedColumnResult where
  "overflowColumn = \<lparr>cr_columnName = ''name'', cr_logicalType = ''STRING'', cr_stringPosition = UINT32_MAX,
     cr_ciphertextBytes = fhe_serialize plainFhe [65, 65, 65, 65], cr_logicalSize = 4\<rparr>"

lemma decode_batch:
  assumes n: "rb_logicalRowCount batch = int n" "n < 2 ^ 60"
    and cols: "rb_columns batch = concat crss" "list_all2 (columnHolds F R n) css crss" "distinct (map cs_name css)"
    and mask: "if rb_hasMask batch
       then deserializesTo F (rb_selectionMaskBytes batch) n (\<lambda>i. of_bool (selected i))
       else \<forall>i < n. selected i"
  shows "decode F batch = Inr (map (rowOf R css) (filter selected [0..<n]))"
proof -
  have size: "size_of_int64 (rb_logicalRowCount batch) = n"
    using n by (simp add: size_of_int64_def unsigned_of_nat take_bit_nat_eq_self)
  have m: "decryptMask F batch = Inr (map (\<lambda>i. of_bool (selected i)) [0..<n])"
  proof (cases "rb_hasMask batch")
    case True
    with mask show ?thesis by (auto simp: decryptMask_def size deserializesTo_def)
  next
    case False
    with mask have "map (\<lambda>i. of_bool (selected i)) [0..<n] = replicate n (1 :: int)"
      by (intro nth_equalityI) simp_all
    with False n(2) show ?thesis by (simp add: decryptMask_def size)
  qed
  have texts: "\<forall>(name, w)\<in>set (stringNames css). \<forall>i < n. textOk w (rw_string R name i)"
    using cols(2) by (fastforce simp: stringNames_def columnHolds_def stringResult_def list_all2_conv_all_nth in_set_conv_nth)
  have f: "foldE (decodeColumn F n) (rb_columns batch) ([], []) =
      Inr (map (decodedInts R n) (intNames css), map (decodedStrings R n) (stringNames css))"
    using decode_columns [OF cols(2,3), of "[]" "[]"] cols(1) by simp
  have sel: "filter (\<lambda>i. i < n \<and> map (\<lambda>i. of_bool (selected i)) [0..<n] ! i = (1 :: int)) [0..<n] =
      filter selected [0..<n]"
    by (intro filter_cong) simp_all
  show ?thesis
    using decode_row [OF texts] unfolding decode_def Let_def size m f bindE_Inr
    by (simp add: sel) (intro mapE_total, simp)
qed

section \<open>Properties\<close>

text \<open>C15: the decoder gives back the rows that the mask selects, in order, with all
  their columns: of a batch whose columns decrypt to the rows (text columns one ciphertext per
  character position) and whose mask decrypts to 0/1 values.\<close>

theorem decode_selects:
  assumes n: "rb_logicalRowCount batch = int n" "n < 2 ^ 60"
    and cols: "rb_columns batch = concat crss" "list_all2 (columnHolds F R n) css crss" "distinct (map cs_name css)"
    and mask: "if rb_hasMask batch
       then deserializesTo F (rb_selectionMaskBytes batch) n (\<lambda>i. of_bool (selected i))
       else \<forall>i < n. selected i"
  shows "decode F batch = Inr (map (rowOf R css) (filter selected [0..<n]))"
  using assms by (rule decode_batch)

theorem decode_selects_witness:
  "decode plainFhe sampleResult = Inr (map (rowOf sampleRows sampleColumns) [1, 2, 3])"
proof -
  have "filter (\<lambda>i. 30 < rw_int sampleRows ''age'' i) [0..<4] = [1, 2, 3]"
    by (simp add: sampleRows_def upt_rec)
  then show ?thesis
    using decode_selects [of sampleResult 4 sampleGroups plainFhe sampleRows sampleColumns
        "\<lambda>i. 30 < rw_int sampleRows ''age'' i"] sample_columns_hold plain_deserializes [of 4]
    by (simp add: sampleResult_def) (simp add: sampleColumns_def)
qed

text \<open>C27: ORDER BY over integer columns and LIMIT: the rows are sorted stably by the values of the listed
  columns, DESC ones downwards, earlier columns first, and the first rows are kept.  The hypothesis is
  that every row has an integer in every listed column; text columns are not sorted by.\<close>

theorem sort_and_limit:
  assumes "\<forall>r\<in>set rows. \<forall>c\<in>set orderBy. rr_values r (ob_columnName c) \<noteq> None"
  shows "applySortAndLimit rows orderBy limit =
    (if limit < 0 then sort_key (orderKey orderBy) rows else take (nat limit) (sort_key (orderKey orderBy) rows))"
proof -
  have "set rows \<subseteq> intRows orderBy" using assms by (auto simp: intRows_def)
  then have "(if orderBy \<noteq> [] then stableSort (rowLess orderBy) rows else rows) = sort_key (orderKey orderBy) rows"
    using rows.sort_key sort_key_constant [of rows "orderKey []" "[]"]
    by (cases "orderBy = []") (simp_all add: orderKey_def)
  then show ?thesis by (simp add: applySortAndLimit_def Let_def)
qed

theorem sort_and_limit_witness:
  "applySortAndLimit [\<lparr>rr_values = [''age'' \<mapsto> 25], rr_stringValues = Map.empty\<rparr>,
      \<lparr>rr_values = [''age'' \<mapsto> 40], rr_stringValues = Map.empty\<rparr>]
     [\<lparr>ob_columnName = ''age'', ob_direction = Descending\<rparr>] 1 =
   [\<lparr>rr_values = [''age'' \<mapsto> 40], rr_stringValues = Map.empty\<rparr>]"
  by (subst sort_and_limit) (simp_all add: orderKey_def)

text \<open>ORDER BY columns that have no integer value, as every text column,
  are skipped: the rows stay in the order in which the server sent them.\<close>

lemma string_order_ignored:
  assumes "\<forall>r\<in>set rows. \<forall>c\<in>set orderBy. rr_values r (ob_columnName c) = None"
  shows "applySortAndLimit rows orderBy (- 1) = rows"
proof -
  have "set rows \<subseteq> textRows orderBy" using assms by (auto simp: textRows_def)
  from texts.sort_key [OF this] sort_key_constant [of rows "\<lambda>_. 0 :: nat" 0]
  show ?thesis by (simp add: applySortAndLimit_def Let_def)
qed

lemma string_order_ignored_example:
  "applySortAndLimit [rowOf sampleRows [sampleColumns ! 1] 2, rowOf sampleRows [sampleColumns ! 1] 0]
     [\<lparr>ob_columnName = ''name'', ob_direction = Ascending\<rparr>] (- 1) =
   [rowOf sampleRows [sampleColumns ! 1] 2, rowOf sampleRows [sampleColumns ! 1] 0]"
  by (rule string_order_ignored) (simp add: rowOf_def intNames_def sampleColumns_def)

text \<open>C36: a text column at position 2^32 - 1, which a server may send, makes the
  client write out of bounds, if its ciphertext can be loaded: \<open>stringPosition + 1\<close> is computed in 32 bits, so the vector of
  positions is emptied before the element is assigned.\<close>

theorem position_overflow:
  assumes m: "decryptMask F batch = Inr ms" and c: "rb_columns batch = cr # crs"
    "cr_logicalType cr = ''STRING''" "cr_stringPosition cr = UINT32_MAX"
    and ct: "fhe_deserializeWithSize F (cr_ciphertextBytes cr) (size_of_int64 (rb_logicalRowCount batch)) = Inr ct"
  shows "\<exists>e. decode F batch = Inl (UndefinedBehaviour e)"
proof -
  let ?n = "size_of_int64 (rb_logicalRowCount batch)"
  have "setPosition UINT32_MAX vs [] = Inl (UndefinedBehaviour ''index out of range'')" for vs
    by (simp add: setPosition_def UINT32_MAX_def resize_def)
  then have "decodeColumn F ?n cr ([], []) = Inl (UndefinedBehaviour ''index out of range'')"
    using c(2,3) ct by (simp add: decodeColumn_def Let_def)
  then show ?thesis unfolding decode_def Let_def m c(1) by auto
qed

theorem position_overflow_witness:
  "\<exists>e. decode plainFhe (sampleResult\<lparr>rb_columns := [overflowColumn], rb_hasMask := False\<rparr>) = Inl (UndefinedBehaviour e)"
proof (rule position_overflow [where cr = overflowColumn and crs = "[]" and ct = "[65, 65, 65, 65]"])
  show "fhe_deserializeWithSize plainFhe (cr_ciphertextBytes overflowColumn) n = Inr [65, 65, 65, 65]" for n
    unfolding overflowColumn_def EncryptedColumnResult.select_convs by (rule plain_wire)
next
  have "size_of_int64 (rb_logicalRowCount sampleResult) = 4" by (simp add: size_of_int64_def sampleResult_def)
  then show "decryptMask plainFhe (sampleResult\<lparr>rb_columns := [overflowColumn], rb_hasMask := False\<rparr>) = Inr (replicate 4 1)"
    by (simp only: decryptMask_def) simp
qed (simp_all add: overflowColumn_def)

end
