(* ===== verification/Hega_Walk.thy ===== *)
theory Hega_Walk
  imports Hega_Executor
begin

text \<open>
  The two recursions over the node indices of a package, \<open>validatePredTree\<close> and \<open>buildExpression\<close>, as
  walks in the graph of child indices: they end when no cycle can be reached from the root, and on a
  package without other faults only then.  \<open>walkCalls\<close> is the validator with its calls counted, for
  the cost of a package that shares its nodes.
\<close>

section \<open>The graph of a package\<close>

definition children :: "PredNode \<Rightarrow> u32 set" where
  "children n = (if leafKind (pn_kind n) then {} else if pn_kind n = PNot then {pn_left n}
     else {pn_left n, pn_right n})"

definition childEdges :: "PredNode list \<Rightarrow> (u32 \<times> u32) set" where
  "childEdges nodes = {(i, j). unat i < length nodes \<and> j \<in> children (nodes ! unat i)}"

text \<open>A walk from a node can go on for ever.\<close>

definition meetsCycle :: "PredNode list \<Rightarrow> u32 \<Rightarrow> bool" where
  "meetsCycle nodes i \<longleftrightarrow> (\<exists>k. (i, k) \<in> (childEdges nodes)\<^sup>* \<and> (k, k) \<in> (childEdges nodes)\<^sup>+)"

definition rootIndex :: "PredNode list \<Rightarrow> u32" where
  "rootIndex nodes = of_nat (length nodes - 1)"

definition cyclicTree :: "QueryPackage \<Rightarrow> bool" where
  "cyclicTree pkg \<longleftrightarrow> pk_predicateNodes pkg \<noteq> [] \<and> meetsCycle (pk_predicateNodes pkg) (rootIndex (pk_predicateNodes pkg))"

lemma meetsCycle_step:
  assumes "meetsCycle nodes i"
  obtains j where "(i, j) \<in> childEdges nodes" "meetsCycle nodes j"
proof -
  from assms obtain k where k: "(i, k) \<in> (childEdges nodes)\<^sup>*" "(k, k) \<in> (childEdges nodes)\<^sup>+"
    by (auto simp: meetsCycle_def)
  then have "(i, k) \<in> (childEdges nodes)\<^sup>+" by (rule rtrancl_trancl_trancl)
  then obtain j where "(i, j) \<in> childEdges nodes" "(j, k) \<in> (childEdges nodes)\<^sup>*" by (blast dest: tranclD)
  with k(2) that show thesis by (auto simp: meetsCycle_def)
qed

text \<open>Below a node that meets no cycle, the walk is well-founded.\<close>

lemma walk_induct [consumes 1, case_names node]:
  assumes "\<not> meetsCycle nodes i"
    and step: "\<And>i. (\<And>j. (i, j) \<in> childEdges nodes \<Longrightarrow> P j) \<Longrightarrow> P i"
  shows "P i"
proof -
  let ?E = "childEdges nodes"
  let ?r = "{(i', j). (i', j) \<in> ?E \<and> (i, i') \<in> ?E\<^sup>*}"
  have "acyclic ?r"
  proof (rule acyclicI, intro allI notI)
    fix k assume k: "(k, k) \<in> ?r\<^sup>+"
    then have "(i, k) \<in> ?E\<^sup>*" by (auto dest: tranclD)
    moreover from k have "(k, k) \<in> ?E\<^sup>+" by (rule trancl_mono) auto
    ultimately show False using assms(1) by (auto simp: meetsCycle_def)
  qed
  then have "wf (?r\<inverse>)" by (intro finite_acyclic_wf_converse) simp_all
  then have "(i, i') \<in> ?E\<^sup>* \<longrightarrow> P i'" for i'
  proof (induction i')
    case (less i')
    show ?case
    proof
      assume i': "(i, i') \<in> ?E\<^sup>*"
      show "P i'" by (rule step) (use less i' in \<open>blast intro: rtrancl_into_rtrancl\<close>)
    qed
  qed
  then show ?thesis by blast
qed

section \<open>Both walks end without a cycle\<close>

lemma walk_ends:
  assumes "\<not> meetsCycle (pk_predicateNodes pkg) i"
  shows "\<exists>r. validatePredTree cat pkg schema i = Some r"
  using assms
proof (induction rule: walk_induct)
  case (node i)
  let ?n = "pk_predicateNodes pkg ! unat i"
  have "\<exists>r. validatePredTree cat pkg schema j = Some r"
    if "unat i < length (pk_predicateNodes pkg)" "j \<in> children ?n" for j
    using node that by (simp add: childEdges_def)
  then show ?case
    by (auto simp: validatePredTree.simps [of cat pkg schema i] Let_def children_def not_le intro!: bind_returns)
qed

lemma build_ends:
  assumes "\<not> meetsCycle (pk_predicateNodes pkg) i"
  shows "\<exists>r. buildExpression F P pkg i = Some r"
  using assms
proof (induction rule: walk_induct)
  case (node i)
  let ?n = "pk_predicateNodes pkg ! unat i"
  have c: "\<exists>r. buildExpression F P pkg j = Some r"
    if "unat i < length (pk_predicateNodes pkg)" "j \<in> children ?n" for j
    using node that by (simp add: childEdges_def)
  show ?case
  proof (cases "length (pk_predicateNodes pkg) \<le> unat i \<or> leafKind (pn_kind ?n)")
    case True
    then show ?thesis by (auto simp: buildExpression.simps [of F P pkg i] Let_def)
  next
    case False
    then have i: "unat i < length (pk_predicateNodes pkg)" "pn_left ?n \<in> children ?n"
      "pn_kind ?n \<noteq> PNot \<longrightarrow> pn_right ?n \<in> children ?n"
      by (simp_all add: children_def)
    from c [OF i(1,2)] obtain l where l: "buildExpression F P pkg (pn_left ?n) = Some l" by blast
    show ?thesis
    proof (cases "pn_kind ?n = PNot")
      case True
      with False l show ?thesis by (simp add: buildExpression.simps [of F P pkg i] Let_def)
    next
      case nn: False
      with i(3) c [OF i(1)] obtain r where "buildExpression F P pkg (pn_right ?n) = Some r" by blast
      with nn False l show ?thesis by (simp add: buildExpression.simps [of F P pkg i] Let_def)
    qed
  qed
qed

lemma acyclic_validates: "\<not> cyclicTree pkg \<Longrightarrow> \<exists>v. validate cat sid pkg = Some v"
  using walk_ends [of pkg "of_nat (length (pk_predicateNodes pkg) - 1)" cat]
  by (auto simp: validate_def cyclicTree_def rootIndex_def split: sum.split)

lemma acyclic_executes:
  assumes "\<not> cyclicTree pkg"
  shows "\<exists>r. execute F P cat pkg = Some r"
proof -
  have "\<exists>w. buildWhere F P pkg = Some w"
    using build_ends [of pkg "of_nat (length (pk_predicateNodes pkg) - 1)" F P] assms
    by (cases "pk_predicateNodes pkg = []") (auto simp: buildWhere_def cyclicTree_def rootIndex_def)
  then show ?thesis
    by (auto simp: execute_def executeJoin_def executeScan_def Let_def split: sum.split prod.split)
qed

section \<open>Only then\<close>

text \<open>A package without other faults: below \<open>i\<close>, the indices are in range, no child is missing and the
  leaves pass their checks.\<close>

definition faultless :: "Catalog \<Rightarrow> QueryPackage \<Rightarrow> TableSchema \<Rightarrow> u32 \<Rightarrow> bool" where
  "faultless cat pkg schema i \<longleftrightarrow> (\<forall>j. (i, j) \<in> (childEdges (pk_predicateNodes pkg))\<^sup>* \<longrightarrow>
     unat j < length (pk_predicateNodes pkg) \<and>
     (let node = pk_predicateNodes pkg ! unat j in
        (leafKind (pn_kind node) \<longrightarrow> isOk (checkLeaf cat pkg schema node)) \<and> UINT32_MAX \<notin> children node))"

lemma faultless_child:
  assumes "faultless cat pkg schema i" "(i, j) \<in> childEdges (pk_predicateNodes pkg)"
  shows "faultless cat pkg schema j"
  using assms by (auto simp: faultless_def intro: converse_rtrancl_into_rtrancl)

lemma walk_meets_no_cycle:
  assumes "validatePredTree cat pkg schema i = Some r"
  shows "faultless cat pkg schema i \<longrightarrow> isOk r \<and> \<not> meetsCycle (pk_predicateNodes pkg) i"
proof (rule validatePredTree.raw_induct [OF _ assms], intro impI)
  fix walk :: "Catalog \<Rightarrow> QueryPackage \<Rightarrow> TableSchema \<Rightarrow> u32 \<Rightarrow> unit result option"
  fix cat schema r and i :: u32 and pkg :: QueryPackage
  let ?n = "pk_predicateNodes pkg ! unat i"
  assume IH: "\<And>cat pkg schema i r. walk cat pkg schema i = Some r \<Longrightarrow>
      faultless cat pkg schema i \<longrightarrow> isOk r \<and> \<not> meetsCycle (pk_predicateNodes pkg) i"
    and b: "(if length (pk_predicateNodes pkg) \<le> unat i
      then Some (Inl (validationError ''Predicate node index out of range: '' (show_nat (unat i))))
      else let node = ?n in
        if leafKind (pn_kind node) then Some (checkLeaf cat pkg schema node)
        else if pn_kind node = PNot then
          (if pn_left node = UINT32_MAX
           then Some (Inl (ValidationError ''NOT predicate node missing child''))
           else walk cat pkg schema (pn_left node))
        else if pn_left node = UINT32_MAX \<or> pn_right node = UINT32_MAX
          then Some (Inl (ValidationError
                 (if pn_kind node = PAnd \<or> pn_kind node = POr
                  then ''Boolean predicate node missing children''
                  else ''Binary predicate node missing children'')))
        else Option.bind (walk cat pkg schema (pn_left node)) (\<lambda>r.
               if isOk r then walk cat pkg schema (pn_right node) else Some r)) = Some r"
    and f: "faultless cat pkg schema i"
  from f have i: "unat i < length (pk_predicateNodes pkg)" "UINT32_MAX \<notin> children ?n"
    "leafKind (pn_kind ?n) \<longrightarrow> isOk (checkLeaf cat pkg schema ?n)"
    by (auto simp: faultless_def Let_def)
  have child: "isOk r \<and> \<not> meetsCycle (pk_predicateNodes pkg) j"
    if "walk cat pkg schema j = Some r" "j \<in> children ?n" for j r
    using IH [OF that(1)] faultless_child [OF f] that(2) i(1) by (simp add: childEdges_def)
  consider "leafKind (pn_kind ?n)" | "\<not> leafKind (pn_kind ?n)" "pn_kind ?n = PNot"
    | "\<not> leafKind (pn_kind ?n)" "pn_kind ?n \<noteq> PNot" by blast
  then have "isOk r \<and> (\<forall>j\<in>children ?n. \<not> meetsCycle (pk_predicateNodes pkg) j)"
  proof cases
    case 1
    with b i show ?thesis by (simp add: Let_def children_def)
  next
    case 2
    with i(2) b i(1) have "walk cat pkg schema (pn_left ?n) = Some r" by (simp add: Let_def children_def)
    from child [OF this] 2 show ?thesis by (simp add: children_def)
  next
    case 3
    with i(2) have c: "pn_left ?n \<noteq> UINT32_MAX" "pn_right ?n \<noteq> UINT32_MAX"
      "pn_left ?n \<in> children ?n" "pn_right ?n \<in> children ?n" "children ?n = {pn_left ?n, pn_right ?n}"
      by (auto simp: children_def)
    with b i(1) 3 obtain rl where rl: "walk cat pkg schema (pn_left ?n) = Some rl"
      "(if isOk rl then walk cat pkg schema (pn_right ?n) else Some rl) = Some r"
      by (auto simp: Let_def bind_eq_Some_conv)
    from child [OF rl(1) c(3)] have l: "isOk rl" "\<not> meetsCycle (pk_predicateNodes pkg) (pn_left ?n)" by simp_all
    with rl(2) have "walk cat pkg schema (pn_right ?n) = Some r" by simp
    from child [OF this c(4)] l c(5) show ?thesis by simp
  qed
  then show "isOk r \<and> \<not> meetsCycle (pk_predicateNodes pkg) i"
    by (auto simp: childEdges_def elim: meetsCycle_step)
qed

lemma faultless_diverges:
  assumes "checkHeader cat sid pkg = Inr t" "faultless cat pkg t (rootIndex (pk_predicateNodes pkg))" "cyclicTree pkg"
  shows "validate cat sid pkg = None"
proof -
  have "validatePredTree cat pkg t (rootIndex (pk_predicateNodes pkg)) = None"
  proof (rule ccontr)
    assume "validatePredTree cat pkg t (rootIndex (pk_predicateNodes pkg)) \<noteq> None"
    then obtain r where "validatePredTree cat pkg t (rootIndex (pk_predicateNodes pkg)) = Some r" by blast
    from walk_meets_no_cycle [OF this] assms(2,3) show False unfolding cyclicTree_def by blast
  qed
  with assms(1,3) show ?thesis by (simp add: validate_def cyclicTree_def rootIndex_def)
qed

text \<open>Nodes that stand after their children, as in the packages of the client, have no cycle.\<close>

lemma ordered_edges:
  assumes "ordered pkg" "length (pk_predicateNodes pkg) < 2 ^ 32"
    and "(i, j) \<in> childEdges (pk_predicateNodes pkg)" "unat j < length (pk_predicateNodes pkg)"
  shows "unat j < unat i"
proof -
  let ?n = "pk_predicateNodes pkg ! unat i"
  have i: "unat i < length (pk_predicateNodes pkg)" "j \<in> children ?n" using assms(3) by (simp_all add: childEdges_def)
  have "j \<noteq> UINT32_MAX" using assms(2,4) by (auto simp: UINT32_MAX_def)
  moreover have "childOk (unat i) j"
    using i assms(1) by (cases "pn_kind ?n") (auto simp: ordered_def Let_def children_def leafKind_def binaryKind_def)
  ultimately show ?thesis by (simp add: childOk_def)
qed

lemma ordered_acyclic:
  assumes "ordered pkg" "length (pk_predicateNodes pkg) < 2 ^ 32"
  shows "\<not> cyclicTree pkg"
proof -
  let ?E = "childEdges (pk_predicateNodes pkg)"
  have down: "(i, j) \<in> ?E\<^sup>+ \<Longrightarrow> unat j < length (pk_predicateNodes pkg) \<Longrightarrow> unat j < unat i" for i j
  proof (induction rule: trancl_induct)
    case (base j)
    with ordered_edges [OF assms] show ?case by blast
  next
    case (step j k)
    then have "unat k < unat j" using ordered_edges [OF assms] by blast
    moreover have "unat j < length (pk_predicateNodes pkg)" using step.hyps(2) by (simp add: childEdges_def)
    ultimately show ?case using step.IH by simp
  qed
  have "(k, k) \<notin> ?E\<^sup>+" for k
  proof
    assume k: "(k, k) \<in> ?E\<^sup>+"
    then have "unat k < length (pk_predicateNodes pkg)" by (auto simp: childEdges_def dest: tranclD)
    with down [OF k] show False by simp
  qed
  then show ?thesis by (auto simp: cyclicTree_def meetsCycle_def)
qed

section \<open>The cost of a walk\<close>

text \<open>\<open>validatePredTree\<close> with the number of its calls.\<close>

partial_function (option) walkCalls ::
  "Catalog \<Rightarrow> QueryPackage \<Rightarrow> TableSchema \<Rightarrow> u32 \<Rightarrow> (unit result \<times> nat) option" where
  "walkCalls cat pkg schema i =
     (if length (pk_predicateNodes pkg) \<le> unat i
      then Some (Inl (validationError ''Predicate node index out of range: '' (show_nat (unat i))), 1)
      else let node = pk_predicateNodes pkg ! unat i in
        if leafKind (pn_kind node) then Some (checkLeaf cat pkg schema node, 1)
        else if pn_kind node = PNot then
          (if pn_left node = UINT32_MAX
           then Some (Inl (ValidationError ''NOT predicate node missing child''), 1)
           else Option.bind (walkCalls cat pkg schema (pn_left node)) (\<lambda>(r, n). Some (r, n + 1)))
        else if pn_left node = UINT32_MAX \<or> pn_right node = UINT32_MAX
          then Some (Inl (ValidationError
                 (if pn_kind node = PAnd \<or> pn_kind node = POr
                  then ''Boolean predicate node missing children''
                  else ''Binary predicate node missing children'')), 1)
        else Option.bind (walkCalls cat pkg schema (pn_left node)) (\<lambda>(l, m).
               if isOk l
               then Option.bind (walkCalls cat pkg schema (pn_right node)) (\<lambda>(r, n). Some (r, m + n + 1))
               else Some (l, m + 1)))"

text \<open>Counting does not change the walk, and on ordered nodes each level at most doubles the calls.\<close>

lemma walkCalls_bound:
  assumes "ordered pkg" "length (pk_predicateNodes pkg) < 2 ^ 32" "unat i < length (pk_predicateNodes pkg)"
  shows "\<exists>r n. validatePredTree cat pkg schema i = Some r \<and> walkCalls cat pkg schema i = Some (r, n)
     \<and> n < 2 ^ Suc (unat i)"
  using assms(3)
proof (induction "unat i" arbitrary: i rule: less_induct)
  case less
  let ?N = "pk_predicateNodes pkg" and ?n = "pk_predicateNodes pkg ! unat i"
  note unfold = validatePredTree.simps [of cat pkg schema i] walkCalls.simps [of cat pkg schema i]
  have one: "1 < (2 :: nat) ^ Suc (unat i)" by (rule one_less_power) simp_all
  have child: "\<exists>r n. validatePredTree cat pkg schema j = Some r \<and> walkCalls cat pkg schema j = Some (r, n)
      \<and> n < 2 ^ unat i" if j: "j \<in> children ?n" "j \<noteq> UINT32_MAX" for j
  proof -
    have "childOk (unat i) j"
      using j less.prems assms(1)
      by (cases "pn_kind ?n") (auto simp: ordered_def Let_def children_def leafKind_def binaryKind_def)
    with j(2) have "unat j < unat i" by (simp add: childOk_def)
    moreover from this have "(2 :: nat) ^ Suc (unat j) \<le> 2 ^ unat i" by (intro power_increasing) simp_all
    ultimately show ?thesis using less.hyps [of j] less.prems by (meson le_less_trans less_le_trans less_trans)
  qed
  consider "leafKind (pn_kind ?n)" | "pn_kind ?n = PNot" "\<not> leafKind (pn_kind ?n)"
    | "pn_kind ?n \<noteq> PNot" "\<not> leafKind (pn_kind ?n)" by blast
  then show ?case
  proof cases
    case 1
    with less.prems one show ?thesis by (simp add: unfold Let_def)
  next
    case 2
    show ?thesis
    proof (cases "pn_left ?n = UINT32_MAX")
      case True
      with 2 less.prems one show ?thesis by (simp add: unfold Let_def)
    next
      case False
      with child [of "pn_left ?n"] 2 obtain r n where
        "validatePredTree cat pkg schema (pn_left ?n) = Some r" "walkCalls cat pkg schema (pn_left ?n) = Some (r, n)"
        "n < 2 ^ unat i" by (auto simp: children_def)
      with 2 False less.prems show ?thesis by (simp add: unfold Let_def)
    qed
  next
    case 3
    show ?thesis
    proof (cases "pn_left ?n = UINT32_MAX \<or> pn_right ?n = UINT32_MAX")
      case True
      with 3 less.prems one show ?thesis by (auto simp add: unfold Let_def)
    next
      case False
      with child [of "pn_left ?n"] 3 obtain l m where
        l: "validatePredTree cat pkg schema (pn_left ?n) = Some l" "walkCalls cat pkg schema (pn_left ?n) = Some (l, m)"
        "m < 2 ^ unat i" by (auto simp: children_def)
      from False child [of "pn_right ?n"] 3 obtain r n where
        r: "validatePredTree cat pkg schema (pn_right ?n) = Some r" "walkCalls cat pkg schema (pn_right ?n) = Some (r, n)"
        "n < 2 ^ unat i" by (auto simp: children_def)
      from 3 False less.prems l r show ?thesis by (simp add: unfold Let_def)
    qed
  qed
qed

text \<open>A chain of conjunctions, each of the previous node with itself: every level doubles the calls.\<close>

definition chainNodes :: "nat \<Rightarrow> PredNode list" where
  "chainNodes n = emptyNode\<lparr>pn_columnName := ''age''\<rparr>
     # map (\<lambda>k. emptyNode\<lparr>pn_kind := PAnd, pn_left := of_nat k, pn_right := of_nat k\<rparr>) [0..<n]"

lemma chainNodes_length [simp]: "length (chainNodes n) = Suc n" by (simp add: chainNodes_def)

lemma chain_walk:
  assumes "pk_predicateNodes pkg = chainNodes n" "n < 2 ^ 32 - 1"
    "checkColumn cat pkg schema (validationError ''Unknown column in predicate: '' ''age'') ''age'' = Inr ()"
  shows "k \<le> n \<Longrightarrow> validatePredTree cat pkg schema (of_nat k) = Some (Inr ())
     \<and> walkCalls cat pkg schema (of_nat k) = Some (Inr (), 2 ^ Suc k - 1)"
proof (induction k)
  case 0
  show ?case
    using assms(3)
    by (simp add: validatePredTree.simps [of cat pkg schema 0] walkCalls.simps [of cat pkg schema 0] assms(1)
        chainNodes_def emptyNode_def leafKind_def checkLeaf_def)
next
  case (Suc k)
  have small: "Suc k < 2 ^ 32 - 1" using Suc.prems assms(2) by simp
  have u: "unat (of_nat (Suc k) :: u32) = Suc k" "unat (of_nat k :: u32) = k"
    by (rule of_nat_inverse [OF refl], use small in simp)+
  then have "(of_nat k :: u32) \<noteq> UINT32_MAX" using small by (auto simp: UINT32_MAX_def)
  note u = u this
  have "chainNodes n ! Suc k = emptyNode\<lparr>pn_kind := PAnd, pn_left := of_nat k, pn_right := of_nat k\<rparr>"
    using Suc.prems by (simp add: chainNodes_def)
  moreover have "Suc (4 * 2 ^ k - Suc (Suc 0)) = 4 * 2 ^ k - Suc 0"
  proof -
    have "(1 :: nat) \<le> 2 ^ k" by simp
    then show ?thesis by arith
  qed
  ultimately show ?case
    using Suc u by (simp only: validatePredTree.simps [of cat pkg schema "of_nat (Suc k)"]
        walkCalls.simps [of cat pkg schema "of_nat (Suc k)"]) (simp add: assms(1) Let_def leafKind_def)
qed

text \<open>A package that represents a WHERE clause is a tree: one call for each part of the expression.\<close>

fun exprParts :: "ASTExpr \<Rightarrow> nat" where
  "exprParts (Comparison k l r) = exprParts l + exprParts r + 1"
| "exprParts (And l r) = exprParts l + exprParts r + 1"
| "exprParts (Or l r) = exprParts l + exprParts r + 1"
| "exprParts (NotExpr e) = exprParts e + 1"
| "exprParts e = 1"

definition walksWithin :: "Catalog \<Rightarrow> QueryPackage \<Rightarrow> TableSchema \<Rightarrow> u32 \<Rightarrow> nat \<Rightarrow> bool" where
  "walksWithin cat pkg schema i b \<longleftrightarrow> (\<exists>r n. validatePredTree cat pkg schema i = Some r
     \<and> walkCalls cat pkg schema i = Some (r, n) \<and> n \<le> b)"

lemma walksWithin_leaf:
  assumes "nodeAt (pk_predicateNodes pkg) i n" "leafKind (pn_kind n)"
  shows "walksWithin cat pkg schema i (Suc b)"
  using assms
  by (auto simp: walksWithin_def nodeAt_def Let_def validatePredTree.simps [of cat pkg schema i] walkCalls.simps [of cat pkg schema i])

lemma walksWithin_not:
  assumes "nodeAt (pk_predicateNodes pkg) i n" "pn_kind n = PNot" "walksWithin cat pkg schema (pn_left n) b"
  shows "walksWithin cat pkg schema i (b + 1)"
proof -
  obtain r k where "validatePredTree cat pkg schema (pn_left n) = Some r" "walkCalls cat pkg schema (pn_left n) = Some (r, k)" "k \<le> b"
    using assms(3) by (auto simp: walksWithin_def)
  with assms(1,2) show ?thesis
    by (cases "pn_left n = UINT32_MAX")
      (auto simp: walksWithin_def nodeAt_def leafKind_def Let_def validatePredTree.simps [of cat pkg schema i]
        walkCalls.simps [of cat pkg schema i])
qed

lemma walksWithin_binary:
  assumes "nodeAt (pk_predicateNodes pkg) i n" "binaryKind (pn_kind n)"
    "walksWithin cat pkg schema (pn_left n) b" "walksWithin cat pkg schema (pn_right n) c"
  shows "walksWithin cat pkg schema i (b + c + 1)"
proof -
  obtain r k where l: "validatePredTree cat pkg schema (pn_left n) = Some r" "walkCalls cat pkg schema (pn_left n) = Some (r, k)" "k \<le> b"
    using assms(3) by (auto simp: walksWithin_def)
  obtain r' m where r: "validatePredTree cat pkg schema (pn_right n) = Some r'" "walkCalls cat pkg schema (pn_right n) = Some (r', m)" "m \<le> c"
    using assms(4) by (auto simp: walksWithin_def)
  have i: "unat i < length (pk_predicateNodes pkg)" "pk_predicateNodes pkg ! unat i = n"
    "\<not> leafKind (pn_kind n)" "pn_kind n \<noteq> PNot"
    using assms(1,2) by (auto simp: nodeAt_def leafKind_def binaryKind_def)
  show ?thesis
  proof (cases "pn_left n = UINT32_MAX \<or> pn_right n = UINT32_MAX")
    case True
    with i show ?thesis
      by (auto simp: walksWithin_def Let_def validatePredTree.simps [of cat pkg schema i] walkCalls.simps [of cat pkg schema i])
  next
    case False
    with i l r show ?thesis
      by (auto simp: walksWithin_def Let_def validatePredTree.simps [of cat pkg schema i] walkCalls.simps [of cat pkg schema i])
  qed
qed

lemma represents_within:
  "represents F t (pk_predicateNodes pkg) lits i e \<Longrightarrow> walksWithin cat pkg schema i (exprParts e)"
proof (induction rule: represents.induct)
  case (column i n)
  from walksWithin_leaf [OF column, of cat schema 0] show ?case by (simp add: leafKind_def)
next
  case (literal i lid v)
  from walksWithin_leaf [OF literal(1), of cat schema 0] show ?case by (simp add: leafKind_def)
next
  case (stringL i k n firstId cs x)
  from walksWithin_leaf [OF stringL(1), of cat schema "Suc (Suc 0)"] show ?case by (auto simp: leafKind_def stringNode_def)
next
  case (stringR i k n firstId cs x)
  from walksWithin_leaf [OF stringR(1), of cat schema "Suc (Suc 0)"] show ?case by (auto simp: leafKind_def stringNode_def)
next
  case (comparison i li ri k l r)
  then show ?case using walksWithin_binary [OF comparison(1)] by simp
next
  case (conj i li ri l r)
  then show ?case using walksWithin_binary [OF conj(1)] by simp
next
  case (disj i li ri l r)
  then show ?case using walksWithin_binary [OF disj(1)] by simp
next
  case (neg i li e)
  then show ?case using walksWithin_not [OF neg(1)] by simp
qed

section \<open>Properties\<close>

text \<open>C40: the server validates the predicate of the client's package in at most as
  many calls as its WHERE clause has parts.\<close>

theorem client_walk_linear:
  assumes "encryptCatalog F stmt plan cat meta = Inr pkg" "st_whereClause stmt = Some e"
    and "cat_tables cat (pp_tableName plan) = Some t"
    and "length (pk_predicateNodes pkg) < 2 ^ 32" "length (pk_encryptedLiterals pkg) < 2 ^ 32"
  shows "\<exists>r n. validatePredTree cat' pkg schema (rootIndex (pk_predicateNodes pkg)) = Some r
    \<and> walkCalls cat' pkg schema (rootIndex (pk_predicateNodes pkg)) = Some (r, n) \<and> n \<le> exprParts e"
  using represents_within [OF encrypted_represents [OF assms]] by (simp add: walksWithin_def rootIndex_def)

theorem client_walk_linear_witness:
  "\<exists>pkg r n. encryptCatalog plainFhe encSample encPlan makeEmployeesCatalog encMeta = Inr pkg
     \<and> walkCalls makeEmployeesCatalog pkg employeesSchema (rootIndex (pk_predicateNodes pkg)) = Some (r, n) \<and> n \<le> 8"
proof -
  obtain st rs where p: "length (es_nodes st) = 6" "length (es_literals st) = 17"
    "encryptCatalog plainFhe encSample encPlan makeEmployeesCatalog encMeta = Inr (packageOf encPlan encMeta rs st)"
    using encSample_package by blast
  obtain e where e: "st_whereClause encSample = Some e" "exprParts e \<le> 8" by (simp add: encSample_def)
  have t: "cat_tables makeEmployeesCatalog (pp_tableName encPlan) = Some employeesSchema"
    by (simp add: encPlan_def encSample_columns)
  from client_walk_linear [OF p(3) e(1) t] p(1,2) obtain r n where
    "walkCalls makeEmployeesCatalog (packageOf encPlan encMeta rs st) employeesSchema
       (rootIndex (pk_predicateNodes (packageOf encPlan encMeta rs st))) = Some (r, n)" "n \<le> exprParts e"
    by (fastforce simp: packageOf_def)
  with p(3) e(2) show ?thesis by fastforce
qed

end
