(* ===== verification/Hega_Transport.thy ===== *)
theory Hega_Transport
  imports Hega_Package
begin

text \<open>
  The TCP transport (\<open>include/proto2/transport.h\<close>, \<open>transport/transport.cpp\<close>).  A socket is the
  bytes that the peer sends, the bytes written so far and the schedules of the two system calls:
  the n-th \<open>read\<close> or \<open>write\<close> moves at most as many bytes as its schedule says (0 is the error
  return), so every fragmentation of the stream is a value of the model.  An operation that may
  throw returns its result and the socket, because the callers close the socket on every path.
  Outside the model: a peer that stays connected and silent (the calls would block, there is no
  timeout), the signal SIGPIPE, which the program leaves at its default, and exhaustion of memory
  by a payload of the announced length.
\<close>

section \<open>Definitions\<close>

subsection \<open>Sockets\<close>

record Socket =
  so_in :: "byte list"
  so_out :: "byte list"
  so_reads :: "nat list"
  so_writes :: "nat list"
  so_closes :: nat

definition sysRead :: "nat \<Rightarrow> Socket \<Rightarrow> byte list \<times> Socket" where
  "sysRead n s =
     (let r = (case so_reads s of [] \<Rightarrow> n | k # _ \<Rightarrow> min n k) in
      (take r (so_in s), s\<lparr>so_in := drop r (so_in s), so_reads := tl (so_reads s)\<rparr>))"

definition sysWrite :: "byte list \<Rightarrow> Socket \<Rightarrow> nat \<times> Socket" where
  "sysWrite data s =
     (let r = (case so_writes s of [] \<Rightarrow> length data | k # _ \<Rightarrow> min (length data) k) in
      (r, s\<lparr>so_out := so_out s @ take r data, so_writes := tl (so_writes s)\<rparr>))"

definition closeFd :: "Socket \<Rightarrow> Socket" where
  "closeFd s = s\<lparr>so_closes := so_closes s + 1\<rparr>"

type_synonym 'a io = "Socket \<Rightarrow> 'a result \<times> Socket"

definition returnIO :: "'a \<Rightarrow> 'a io" where
  "returnIO x s = (Inr x, s)"

definition liftIO :: "'a result \<Rightarrow> 'a io" where
  "liftIO r s = (r, s)"

definition bindIO :: "'a io \<Rightarrow> ('a \<Rightarrow> 'b io) \<Rightarrow> 'b io" where
  "bindIO m f s = (case m s of (Inl e, s') \<Rightarrow> (Inl e, s') | (Inr x, s') \<Rightarrow> f x s')"

subsection \<open>Frames\<close>

text \<open>The loops of \<open>readBytes\<close> and \<open>writeBytes\<close>; \<open>readU32BE\<close> and \<open>writeU32BE\<close> are the same loops
  over four bytes in network order.\<close>

definition connectionClosed :: err where
  "connectionClosed = RuntimeError ''Transport: connection closed''"

definition writeFailed :: err where
  "writeFailed = RuntimeError ''Transport: write failed''"

function readBytes :: "nat \<Rightarrow> byte list \<Rightarrow> Socket \<Rightarrow> byte list result \<times> Socket" where
  "readBytes n got s =
     (if n = 0 then (Inr got, s)
      else let (bs, s') = sysRead n s in
        if bs = [] then (Inl connectionClosed, s')
        else readBytes (n - length bs) (got @ bs) s')"
  by pat_completeness auto
termination
  by (relation "measure (\<lambda>(n, got, s). n)") auto

function writeBytes :: "byte list \<Rightarrow> Socket \<Rightarrow> unit result \<times> Socket" where
  "writeBytes data s =
     (if data = [] then (Inr (), s)
      else let (r, s') = sysWrite data s in
        if r = 0 then (Inl writeFailed, s') else writeBytes (drop r data) s')"
  by pat_completeness auto
termination
  by (relation "measure (\<lambda>(data, s). length data)") auto

declare readBytes.simps [simp del] writeBytes.simps [simp del]

text \<open>\<open>htonl\<close> and \<open>ntohl\<close>.\<close>

definition bytesOfU32 :: "u32 \<Rightarrow> byte list" where
  "bytesOfU32 v = map (\<lambda>k. of_nat (unat v div 256 ^ k)) [3, 2, 1, 0]"

definition u32OfBytes :: "byte list \<Rightarrow> u32" where
  "u32OfBytes bs = of_nat (foldl (\<lambda>a b. 256 * a + unat b) 0 bs)"

definition writeU32BE :: "u32 \<Rightarrow> unit io" where
  "writeU32BE v = writeBytes (bytesOfU32 v)"

definition readU32BE :: "u32 io" where
  "readU32BE = bindIO (readBytes 4 []) (\<lambda>bs. returnIO (u32OfBytes bs))"

text \<open>A message type arrives as any 32-bit value.\<close>

datatype MsgType = QueryRequest | QueryResponseMsg | ResultBatch | ErrorMsg

fun msgCode :: "MsgType \<Rightarrow> u32" where
  "msgCode QueryRequest = 1"
| "msgCode QueryResponseMsg = 2"
| "msgCode ResultBatch = 3"
| "msgCode ErrorMsg = 4"

definition sendFrame :: "MsgType \<Rightarrow> byte list \<Rightarrow> unit io" where
  "sendFrame ty payload =
     bindIO (writeU32BE (msgCode ty)) (\<lambda>_.
     bindIO (writeU32BE (of_nat (length payload))) (\<lambda>_.
     if payload \<noteq> [] then writeBytes payload else returnIO ()))"

definition recvFrame :: "(u32 \<times> byte list) io" where
  "recvFrame =
     bindIO readU32BE (\<lambda>ty.
     bindIO readU32BE (\<lambda>len.
     bindIO (if 0 < unat len then readBytes (unat len) [] else returnIO []) (\<lambda>payload.
     returnIO (ty, payload))))"

text \<open>The copies of both functions in \<open>TcpServerTransport\<close>.\<close>

definition serverSendFrame :: "MsgType \<Rightarrow> byte list \<Rightarrow> unit io" where
  "serverSendFrame ty payload =
     bindIO (writeU32BE (msgCode ty)) (\<lambda>_.
     bindIO (writeU32BE (of_nat (length payload))) (\<lambda>_.
     if payload \<noteq> [] then writeBytes payload else returnIO ()))"

definition serverRecvFrame :: "(u32 \<times> byte list) io" where
  "serverRecvFrame =
     bindIO readU32BE (\<lambda>ty.
     bindIO readU32BE (\<lambda>len.
     bindIO (if 0 < unat len then readBytes (unat len) [] else returnIO []) (\<lambda>payload.
     returnIO (ty, payload))))"

definition bytesOfString :: "string \<Rightarrow> byte list" where
  "bytesOfString x = map (\<lambda>c. of_nat (code c)) x"

definition stringOfBytes :: "byte list \<Rightarrow> string" where
  "stringOfBytes bs = map (\<lambda>b. char_of (unat b)) bs"

subsection \<open>The client\<close>

definition expectedResponse :: err where
  "expectedResponse = RuntimeError ''Transport: expected QueryResponse''"

definition expectedBatch :: err where
  "expectedBatch = RuntimeError ''Transport: expected ResultBatch''"

definition failedResponse :: "string \<Rightarrow> string \<Rightarrow> QueryResponse" where
  "failedResponse message queryId =
     \<lparr>qr_success = False, qr_errorMessage = message, qr_batchCount = 0, qr_queryId = queryId\<rparr>"

definition requestHeader :: "Archive \<Rightarrow> QueryPackage \<Rightarrow> QueryResponse io" where
  "requestHeader ar pkg =
     bindIO (sendFrame QueryRequest (serializePackage ar pkg)) (\<lambda>_.
     bindIO recvFrame (\<lambda>(ty, payload).
       if ty = msgCode ErrorMsg then returnIO (failedResponse (stringOfBytes payload) (pk_queryId pkg))
       else if ty \<noteq> msgCode QueryResponseMsg then liftIO (Inl expectedResponse)
       else liftIO (deserializeResponse ar payload)))"

text \<open>\<open>outBatches\<close> keeps what was received before an exception.\<close>

fun receiveBatches ::
  "Archive \<Rightarrow> nat \<Rightarrow> EncryptedResultBatch list \<Rightarrow> Socket \<Rightarrow> unit result \<times> EncryptedResultBatch list \<times> Socket" where
  "receiveBatches ar 0 out s = (Inr (), out, s)"
| "receiveBatches ar (Suc k) out s =
     (case recvFrame s of
        (Inl e, s') \<Rightarrow> (Inl e, out, s')
      | (Inr (ty, payload), s') \<Rightarrow>
          if ty \<noteq> msgCode ResultBatch then (Inl expectedBatch, out, s')
          else (case deserializeBatch ar payload of
                  Inl e \<Rightarrow> (Inl e, out, s')
                | Inr b \<Rightarrow> receiveBatches ar k (out @ [b]) s'))"

text \<open>\<open>connected\<close> is the outcome of \<open>connectSocket()\<close>.\<close>

definition sendQuery ::
  "Archive \<Rightarrow> Socket result \<Rightarrow> QueryPackage \<Rightarrow> EncryptedResultBatch list \<Rightarrow>
   QueryResponse result \<times> EncryptedResultBatch list \<times> Socket option" where
  "sendQuery ar connected pkg out =
     (case connected of
        Inl e \<Rightarrow> (Inl e, out, None)
      | Inr s \<Rightarrow>
          (case requestHeader ar pkg s of
             (Inl e, s1) \<Rightarrow> (Inl e, out, Some (closeFd s1))
           | (Inr resp, s1) \<Rightarrow>
               if \<not> qr_success resp then (Inr resp, out, Some (closeFd s1))
               else (case receiveBatches ar (unat (qr_batchCount resp)) out s1 of
                       (Inl e, out', s2) \<Rightarrow> (Inl e, out', Some (closeFd s2))
                     | (Inr _, out', s2) \<Rightarrow> (Inr resp, out', Some (closeFd s2)))))"

subsection \<open>The server\<close>

text \<open>\<open>e.what()\<close>; the text of the standard library's own exceptions is a parameter.\<close>

fun what :: "(err \<Rightarrow> string) \<Rightarrow> err \<Rightarrow> string" where
  "what std (ParseError m) = m"
| "what std (SemanticError m) = m"
| "what std (ValidationError m) = m"
| "what std (RuntimeError m) = m"
| "what std e = std e"

fun sendBatches :: "Archive \<Rightarrow> EncryptedResultBatch list \<Rightarrow> unit io" where
  "sendBatches ar [] = returnIO ()"
| "sendBatches ar (b # bs) = bindIO (serverSendFrame ResultBatch (serializeBatch ar b)) (\<lambda>_. sendBatches ar bs)"

definition okResponse :: "QueryPackage \<Rightarrow> EncryptedResultBatch list \<Rightarrow> QueryResponse" where
  "okResponse pkg batches =
     \<lparr>qr_success = True, qr_errorMessage = [], qr_batchCount = of_nat (length batches), qr_queryId = pk_queryId pkg\<rparr>"

definition sendReply :: "Archive \<Rightarrow> QueryPackage \<Rightarrow> EncryptedResultBatch list \<Rightarrow> unit io" where
  "sendReply ar pkg batches =
     bindIO (serverSendFrame QueryResponseMsg (serializeResponse ar (okResponse pkg batches))) (\<lambda>_.
     sendBatches ar batches)"

text \<open>\<open>handleClient\<close> swallows every exception; \<open>None\<close> is a handler that does not return.\<close>

definition handleClient ::
  "Archive \<Rightarrow> (err \<Rightarrow> string) \<Rightarrow> (QueryPackage \<Rightarrow> EncryptedResultBatch list result option) \<Rightarrow> Socket \<Rightarrow> Socket option" where
  "handleClient ar std handler s =
     (case serverRecvFrame s of
        (Inl e, s1) \<Rightarrow> Some s1
      | (Inr (ty, payload), s1) \<Rightarrow>
          if ty \<noteq> msgCode QueryRequest
          then Some (snd (serverSendFrame ErrorMsg (bytesOfString ''Expected QueryRequest'') s1))
          else (case deserializePackage ar payload of
                  Inl e \<Rightarrow> Some s1
                | Inr pkg \<Rightarrow> Option.bind (handler pkg) (\<lambda>r.
                    case r of
                      Inl e \<Rightarrow> Some (snd (serverSendFrame ErrorMsg (bytesOfString (what std e)) s1))
                    | Inr batches \<Rightarrow> Some (snd (sendReply ar pkg batches s1)))))"

text \<open>\<open>serve\<close> on the outcomes of \<open>accept\<close> so far, in order; \<open>Stopped\<close> is the end of \<open>while (running_)\<close> after a
  \<open>stop()\<close>.  \<open>Serving\<close> is a loop that goes on, and is in \<open>accept\<close>, after these outcomes; only \<open>Returned\<close>
  has ended.  Both carry the connections as they were left.\<close>

datatype ServerEvent = AcceptFailed | Connected Socket | Stopped

datatype ServeRun = Serving "Socket list" | Returned "Socket list"

fun withSocket :: "Socket \<Rightarrow> ServeRun \<Rightarrow> ServeRun" where
  "withSocket s (Serving socks) = Serving (s # socks)"
| "withSocket s (Returned socks) = Returned (s # socks)"

fun serveLoop ::
  "Archive \<Rightarrow> (err \<Rightarrow> string) \<Rightarrow> (QueryPackage \<Rightarrow> EncryptedResultBatch list result option) \<Rightarrow> ServerEvent list \<Rightarrow>
   ServeRun option" where
  "serveLoop ar std handler [] = Some (Serving [])"
| "serveLoop ar std handler (Stopped # events) = Some (Returned [])"
| "serveLoop ar std handler (AcceptFailed # events) = serveLoop ar std handler events"
| "serveLoop ar std handler (Connected s # events) =
     Option.bind (handleClient ar std handler s) (\<lambda>s'.
     Option.bind (serveLoop ar std handler events) (\<lambda>rest. Some (withSocket (closeFd s') rest)))"

text \<open>The calls before the loop, by their outcomes.\<close>

record ListenOutcome =
  lo_socket :: bool
  lo_bind :: bool
  lo_listen :: bool

definition bindFailed :: "nat \<Rightarrow> err" where
  "bindFailed port = RuntimeError (''Server: bind failed on port '' @ show_nat port)"

definition serve ::
  "Archive \<Rightarrow> (err \<Rightarrow> string) \<Rightarrow> (QueryPackage \<Rightarrow> EncryptedResultBatch list result option) \<Rightarrow> nat \<Rightarrow>
   ListenOutcome \<Rightarrow> ServerEvent list \<Rightarrow> ServeRun result option" where
  "serve ar std handler port l events =
     (if \<not> lo_socket l then Some (Inl (RuntimeError ''Server: socket failed''))
      else if \<not> lo_bind l then Some (Inl (bindFailed port))
      else if \<not> lo_listen l then Some (Inl (RuntimeError ''Server: listen failed''))
      else map_option Inr (serveLoop ar std handler events))"

text \<open>\<open>connectSocket\<close>, by the outcomes of \<open>getaddrinfo\<close>, \<open>socket\<close> and \<open>connect\<close>.\<close>

datatype ConnectOutcome = NotResolved | NoSocket | NotConnected | Opened Socket

definition connectError :: "string \<Rightarrow> string \<Rightarrow> err" where
  "connectError a b = RuntimeError (a @ b)"

fun connectSocket :: "string \<Rightarrow> nat \<Rightarrow> ConnectOutcome \<Rightarrow> Socket result" where
  "connectSocket host port NotResolved = Inl (connectError ''Transport: cannot resolve host: '' host)"
| "connectSocket host port NoSocket = Inl (RuntimeError ''Transport: socket failed'')"
| "connectSocket host port NotConnected =
     Inl (connectError ''Transport: connect failed to '' (host @ '':'' @ show_nat port))"
| "connectSocket host port (Opened s) = Inr s"

text \<open>The two sides frame alike.\<close>

lemma server_frames [simp]: "serverSendFrame = sendFrame" "serverRecvFrame = recvFrame"
  by (simp_all add: fun_eq_iff serverSendFrame_def sendFrame_def serverRecvFrame_def recvFrame_def)

section \<open>The loops move every byte\<close>

text \<open>A socket whose calls always make progress.\<close>

definition patient :: "Socket \<Rightarrow> bool" where
  "patient s \<longleftrightarrow> 0 \<notin> set (so_reads s) \<and> 0 \<notin> set (so_writes s)"

text \<open>What reading and writing do to a socket.\<close>

definition consumed :: "byte list \<Rightarrow> Socket \<Rightarrow> Socket \<Rightarrow> bool" where
  "consumed bs s s' \<longleftrightarrow> so_in s = bs @ so_in s' \<and> so_out s' = so_out s \<and> so_closes s' = so_closes s \<and> patient s'"

definition produced :: "byte list \<Rightarrow> Socket \<Rightarrow> Socket \<Rightarrow> bool" where
  "produced bs s s' \<longleftrightarrow> so_out s' = so_out s @ bs \<and> so_in s' = so_in s \<and> so_closes s' = so_closes s \<and> patient s'"

lemma consumed_trans: "consumed xs s t \<Longrightarrow> consumed ys t u \<Longrightarrow> consumed (xs @ ys) s u"
  by (simp add: consumed_def)

lemma produced_trans: "produced xs s t \<Longrightarrow> produced ys t u \<Longrightarrow> produced (xs @ ys) s u"
  by (simp add: produced_def)

lemma sysRead_progress:
  assumes "patient s" "n \<noteq> 0"
  obtains r s1 where "sysRead n s = (take r (so_in s), s1)" "0 < r" "r \<le> n" "so_in s1 = drop r (so_in s)"
    "so_out s1 = so_out s" "so_closes s1 = so_closes s" "patient s1"
proof (cases "so_reads s")
  case Nil
  then show thesis
    using that [of n "s\<lparr>so_in := drop n (so_in s), so_reads := []\<rparr>"] assms by (simp add: sysRead_def patient_def Let_def)
next
  case (Cons k ks)
  then show thesis
    using that [of "min n k" "s\<lparr>so_in := drop (min n k) (so_in s), so_reads := ks\<rparr>"] assms
    by (simp add: sysRead_def patient_def Let_def)
qed

lemma sysWrite_progress:
  assumes "patient s" "data \<noteq> []"
  obtains r s1 where "sysWrite data s = (r, s1)" "r \<noteq> 0" "produced (take r data) s s1"
proof (cases "so_writes s")
  case Nil
  then show thesis
    using that [of "length data" "s\<lparr>so_out := so_out s @ data, so_writes := []\<rparr>"] assms
    by (simp add: sysWrite_def patient_def produced_def Let_def)
next
  case (Cons k ks)
  then show thesis
    using that [of "min (length data) k" "s\<lparr>so_out := so_out s @ take (min (length data) k) data, so_writes := ks\<rparr>"] assms
    by (simp add: sysWrite_def patient_def produced_def Let_def)
qed

lemma readBytes_all:
  "patient s \<Longrightarrow> so_in s = bs @ rest \<Longrightarrow> length bs = n \<Longrightarrow>
   \<exists>s'. readBytes n got s = (Inr (got @ bs), s') \<and> so_in s' = rest \<and> consumed bs s s'"
proof (induction n got s arbitrary: bs rule: readBytes.induct)
  case (1 n got s)
  show ?case
  proof (cases "n = 0")
    case True
    with "1.prems" show ?thesis by (simp add: readBytes.simps [of 0 got s] consumed_def)
  next
    case False
    obtain r s1 where r: "sysRead n s = (take r (so_in s), s1)" "0 < r" "r \<le> n"
      "so_in s1 = drop r (so_in s)" "so_out s1 = so_out s" "so_closes s1 = so_closes s" "patient s1"
      by (rule sysRead_progress [OF "1.prems"(1) False])
    from r(3) "1.prems"(3) have le: "r \<le> length bs" by simp
    have t: "take r (so_in s) = take r bs" "so_in s1 = drop r bs @ rest"
      using le unfolding r(4) "1.prems"(2) by simp_all
    have ne: "take r (so_in s) \<noteq> []" unfolding t(1) using r(2) le by auto
    have len: "length (drop r bs) = n - length (take r (so_in s))"
      unfolding t(1) using le "1.prems"(3) by simp
    from "1.IH" [OF False r(1) [symmetric] refl ne r(7) t(2) len] obtain s' where
      s': "readBytes (n - length (take r (so_in s))) (got @ take r (so_in s)) s1 = (Inr ((got @ take r (so_in s)) @ drop r bs), s')"
        "so_in s' = rest" "consumed (drop r bs) s1 s'" by blast
    have "readBytes n got s = readBytes (n - length (take r (so_in s))) (got @ take r (so_in s)) s1"
      using False ne by (subst readBytes.simps) (simp add: r(1))
    also have "\<dots> = (Inr (got @ bs), s')" using s'(1) unfolding t(1) by simp
    finally have "readBytes n got s = (Inr (got @ bs), s')" .
    moreover have "consumed bs s s'"
      using s'(2,3) r(5,6) "1.prems"(2) by (simp add: consumed_def)
    ultimately show ?thesis using s'(2) by blast
  qed
qed

lemma readBytes_short:
  "length (so_in s) < n \<Longrightarrow> \<exists>s'. readBytes n got s = (Inl connectionClosed, s')"
proof (induction n got s rule: readBytes.induct)
  case (1 n got s)
  obtain r s1 where r: "sysRead n s = (take r (so_in s), s1)" "so_in s1 = drop r (so_in s)"
    by (simp add: sysRead_def Let_def)
  show ?case
  proof (cases "take r (so_in s) = []")
    case True
    with r(1) "1.prems" show ?thesis by (auto simp: readBytes.simps [of n got s])
  next
    case False
    have n: "n \<noteq> 0" using "1.prems" by simp
    have "length (so_in s1) < n - length (take r (so_in s))" using "1.prems" r(2) by simp
    from "1.IH" [OF n r(1) [symmetric] refl False this] n False show ?thesis
      by (auto simp: readBytes.simps [of n got s] r(1))
  qed
qed

lemma writeBytes_all: "patient s \<Longrightarrow> \<exists>s'. writeBytes data s = (Inr (), s') \<and> produced data s s'"
proof (induction data s rule: writeBytes.induct)
  case (1 data s)
  show ?case
  proof (cases "data = []")
    case True
    with "1.prems" show ?thesis by (simp add: writeBytes.simps [of "[]" s] produced_def)
  next
    case False
    obtain r s1 where r: "sysWrite data s = (r, s1)" "r \<noteq> 0" "produced (take r data) s s1"
      by (rule sysWrite_progress [OF "1.prems" False])
    from r(3) have "patient s1" by (simp add: produced_def)
    from "1.IH" [OF False r(1) [symmetric] refl r(2) this] obtain s' where
      s': "writeBytes (drop r data) s1 = (Inr (), s')" "produced (drop r data) s1 s'" by blast
    with False r show ?thesis
      using produced_trans [OF r(3) s'(2)] by (simp add: writeBytes.simps [of data s])
  qed
qed

lemma base256: "n < 256 * 256 * 256 * 256 \<Longrightarrow>
  256 * (256 * (256 * (n div 256 ^ 3 mod 256) + n div 256 ^ 2 mod 256) + n div 256 mod 256) + n mod 256 = (n :: nat)"
proof -
  assume "n < 256 * 256 * 256 * 256"
  moreover define q1 where "q1 = n div 256"
  moreover define q2 where "q2 = q1 div 256"
  moreover define q3 where "q3 = q2 div 256"
  ultimately have q: "q3 < 256" "n div 256 ^ 3 = q3" "n div 256 ^ 2 = q2"
    by (simp_all add: less_mult_imp_div_less div_mult2_eq [symmetric])
  have "256 * q3 + q2 mod 256 = q2" "256 * q2 + q1 mod 256 = q1" "256 * q1 + n mod 256 = n"
    by (simp_all add: q1_def q2_def q3_def)
  with q show ?thesis by (simp add: q1_def [symmetric])
qed

lemma bytes_u32: "u32OfBytes (bytesOfU32 v) = v" and bytes_u32_length [simp]: "length (bytesOfU32 v) = 4"
proof -
  have digit: "unat (of_nat k :: byte) = k mod 256" for k by (simp add: unsigned_of_nat take_bit_eq_mod)
  have "unat v < 256 * 256 * 256 * 256" using unsigned_less [of v, where ?'a = nat] by simp
  from base256 [OF this] have "foldl (\<lambda>a b. 256 * a + unat b) 0 (bytesOfU32 v) = unat v"
    by (simp only: bytesOfU32_def list.map foldl.simps digit power_0 power_one_right div_by_1 mult_0_right add_0)
  then show "u32OfBytes (bytesOfU32 v) = v" by (simp add: u32OfBytes_def)
  show "length (bytesOfU32 v) = 4" by (simp add: bytesOfU32_def)
qed

section \<open>Frames\<close>

definition frame :: "MsgType \<Rightarrow> byte list \<Rightarrow> byte list" where
  "frame ty payload = bytesOfU32 (msgCode ty) @ bytesOfU32 (of_nat (length payload)) @ payload"

lemma sendFrame_all: "patient s \<Longrightarrow> \<exists>s'. sendFrame ty payload s = (Inr (), s') \<and> produced (frame ty payload) s s'"
proof -
  assume "patient s"
  obtain s1 where s1: "writeU32BE (msgCode ty) s = (Inr (), s1)" "produced (bytesOfU32 (msgCode ty)) s s1"
    using writeBytes_all [OF \<open>patient s\<close>] by (auto simp: writeU32BE_def)
  then obtain s2 where s2: "writeU32BE (of_nat (length payload)) s1 = (Inr (), s2)"
    "produced (bytesOfU32 (of_nat (length payload))) s1 s2"
    using writeBytes_all [of s1] by (auto simp: writeU32BE_def produced_def)
  then obtain s3 where s3: "writeBytes payload s2 = (Inr (), s3)" "produced payload s2 s3"
    using writeBytes_all [of s2] by (auto simp: produced_def)
  have "sendFrame ty payload s = writeBytes payload s2"
    using s1(1) s2(1) by (simp add: sendFrame_def bindIO_def returnIO_def writeBytes.simps [of "[]" s2])
  with s3 produced_trans [OF s1(2) produced_trans [OF s2(2) s3(2)]] show ?thesis by (simp add: frame_def)
qed

lemma readU32BE_all:
  assumes "patient s" "so_in s = bytesOfU32 v @ rest"
  shows "\<exists>s'. readU32BE s = (Inr v, s') \<and> so_in s' = rest \<and> consumed (bytesOfU32 v) s s'"
  using readBytes_all [OF assms bytes_u32_length, of "[]"]
  by (auto simp: readU32BE_def bindIO_def returnIO_def bytes_u32)

lemma recvFrame_all:
  assumes "patient s" "so_in s = frame ty payload @ rest" "length payload < 2 ^ 32"
  shows "\<exists>s'. recvFrame s = (Inr (msgCode ty, payload), s') \<and> so_in s' = rest \<and> consumed (frame ty payload) s s'"
proof -
  have len: "unat (of_nat (length payload) :: u32) = length payload"
    using assms(3) by (simp add: unsigned_of_nat take_bit_nat_eq_self)
  obtain s1 where s1: "readU32BE s = (Inr (msgCode ty), s1)"
    "so_in s1 = bytesOfU32 (of_nat (length payload)) @ payload @ rest" "consumed (bytesOfU32 (msgCode ty)) s s1"
    using readU32BE_all [OF assms(1), of "msgCode ty"] assms(2) by (auto simp: frame_def)
  then obtain s2 where s2: "readU32BE s1 = (Inr (of_nat (length payload)), s2)"
    "so_in s2 = payload @ rest" "consumed (bytesOfU32 (of_nat (length payload))) s1 s2"
    using readU32BE_all [OF _ s1(2)] by (auto simp: consumed_def)
  then obtain s3 where s3: "readBytes (length payload) [] s2 = (Inr payload, s3)"
    "so_in s3 = rest" "consumed payload s2 s3"
    using readBytes_all [OF _ s2(2) refl, of "[]"] by (auto simp: consumed_def)
  have "recvFrame s = (Inr (msgCode ty, payload), s3)"
    using s1(1) s2(1) s3(1) len
    by (cases "payload = []") (simp_all add: recvFrame_def bindIO_def returnIO_def readBytes.simps [of 0])
  with s3(2) consumed_trans [OF s1(3) consumed_trans [OF s2(3) s3(3)]] show ?thesis
    by (simp add: frame_def)
qed

text \<open>A stream that ends inside a frame.\<close>

lemma recvFrame_short:
  assumes p: "patient s" and i: "so_in s = take k (frame ty payload)" "k < length (frame ty payload)"
    and len: "length payload < 2 ^ 32"
  shows "\<exists>s'. recvFrame s = (Inl connectionClosed, s')"
proof -
  have l: "unat (of_nat (length payload) :: u32) = length payload"
    using len by (simp add: unsigned_of_nat take_bit_nat_eq_self)
  consider "k < 4" | "4 \<le> k" "k < 8" | "8 \<le> k" by linarith
  then show ?thesis
  proof cases
    case 1
    then have "length (so_in s) < 4" using i by simp
    from readBytes_short [OF this, of "[]"] show ?thesis
      by (auto simp: recvFrame_def readU32BE_def bindIO_def)
  next
    case 2
    then have "so_in s = bytesOfU32 (msgCode ty) @ take (k - 4) (bytesOfU32 (of_nat (length payload)))"
      using i by (simp add: frame_def)
    from readU32BE_all [OF p this] obtain s1 where
      s1: "readU32BE s = (Inr (msgCode ty), s1)" "so_in s1 = take (k - 4) (bytesOfU32 (of_nat (length payload)))"
      by blast
    have "length (so_in s1) < 4" using s1(2) 2 by simp
    from readBytes_short [OF this, of "[]"] s1(1) show ?thesis
      by (auto simp: recvFrame_def readU32BE_def bindIO_def)
  next
    case 3
    then have "so_in s = bytesOfU32 (msgCode ty) @ bytesOfU32 (of_nat (length payload)) @ take (k - 8) payload"
      using i by (simp add: frame_def)
    from readU32BE_all [OF p this] obtain s1 where
      s1: "readU32BE s = (Inr (msgCode ty), s1)"
        "so_in s1 = bytesOfU32 (of_nat (length payload)) @ take (k - 8) payload" "patient s1"
      by (auto simp: consumed_def)
    from readU32BE_all [OF s1(3,2)] obtain s2 where
      s2: "readU32BE s1 = (Inr (of_nat (length payload)), s2)" "so_in s2 = take (k - 8) payload" by blast
    have "length (so_in s2) < length payload" using s2(2) 3 i(2) by (simp add: frame_def)
    moreover from this have "payload \<noteq> []" by auto
    ultimately show ?thesis
      using readBytes_short [of s2 "length payload" "[]"] s1(1) s2(1) l
      by (auto simp: recvFrame_def bindIO_def)
  qed
qed

section \<open>One exchange\<close>

text \<open>What the two sides write.\<close>

definition request :: "Archive \<Rightarrow> QueryPackage \<Rightarrow> byte list" where
  "request ar pkg = frame QueryRequest (serializePackage ar pkg)"

definition reply :: "Archive \<Rightarrow> QueryPackage \<Rightarrow> EncryptedResultBatch list \<Rightarrow> byte list" where
  "reply ar pkg batches = frame QueryResponseMsg (serializeResponse ar (okResponse pkg batches))
     @ concat (map (\<lambda>b. frame ResultBatch (serializeBatch ar b)) batches)"

text \<open>Everything fits the 32-bit length fields.\<close>

definition fitsFrames :: "Archive \<Rightarrow> QueryPackage \<Rightarrow> EncryptedResultBatch list \<Rightarrow> bool" where
  "fitsFrames ar pkg batches \<longleftrightarrow> sizedPackage pkg \<and> length (serializePackage ar pkg) < 2 ^ 32
     \<and> length (serializeResponse ar (okResponse pkg batches)) < 2 ^ 32 \<and> length batches < 2 ^ 32
     \<and> (\<forall>b\<in>set batches. sizedBatch b \<and> length (serializeBatch ar b) < 2 ^ 32)"

lemma stringOfBytes_inverse: "stringOfBytes (bytesOfString x) = x"
proof -
  have "char_of (unat (of_nat (code c) :: byte)) = c" for c
    by (simp add: code_def unsigned_of_nat take_bit_eq_mod)
  then show ?thesis by (simp add: stringOfBytes_def bytesOfString_def map_idI)
qed

lemma sendBatches_all:
  "patient s \<Longrightarrow> \<exists>s'. sendBatches ar bs s = (Inr (), s')
     \<and> produced (concat (map (\<lambda>b. frame ResultBatch (serializeBatch ar b)) bs)) s s'"
proof (induction bs arbitrary: s)
  case Nil
  then show ?case by (simp add: returnIO_def produced_def)
next
  case (Cons b bs)
  obtain s1 where s1: "sendFrame ResultBatch (serializeBatch ar b) s = (Inr (), s1)"
    "produced (frame ResultBatch (serializeBatch ar b)) s s1" using sendFrame_all [OF Cons.prems] by blast
  then have "patient s1" by (simp add: produced_def)
  from Cons.IH [OF this] obtain s2 where s2: "sendBatches ar bs s1 = (Inr (), s2)"
    "produced (concat (map (\<lambda>b. frame ResultBatch (serializeBatch ar b)) bs)) s1 s2" by blast
  from produced_trans [OF s1(2) s2(2)] s1(1) s2(1) show ?case by (simp add: bindIO_def)
qed

lemma sendReply_all: "patient s \<Longrightarrow> \<exists>s'. sendReply ar pkg batches s = (Inr (), s') \<and> produced (reply ar pkg batches) s s'"
proof -
  assume "patient s"
  then obtain s1 where s1: "sendFrame QueryResponseMsg (serializeResponse ar (okResponse pkg batches)) s = (Inr (), s1)"
    "produced (frame QueryResponseMsg (serializeResponse ar (okResponse pkg batches))) s s1"
    using sendFrame_all by blast
  then have "patient s1" by (simp add: produced_def)
  from sendBatches_all [OF this] obtain s2 where s2: "sendBatches ar batches s1 = (Inr (), s2)"
    "produced (concat (map (\<lambda>b. frame ResultBatch (serializeBatch ar b)) batches)) s1 s2" by blast
  from produced_trans [OF s1(2) s2(2)] s1(1) s2(1) show ?thesis by (auto simp: sendReply_def reply_def bindIO_def)
qed

lemma receiveBatches_all:
  assumes ar: "archive_laws ar"
  shows "patient s \<Longrightarrow> so_in s = concat (map (\<lambda>b. frame ResultBatch (serializeBatch ar b)) bs) \<Longrightarrow>
    \<forall>b\<in>set bs. sizedBatch b \<and> length (serializeBatch ar b) < 2 ^ 32 \<Longrightarrow>
    \<exists>s'. receiveBatches ar (length bs) out s = (Inr (), out @ bs, s')
      \<and> so_out s' = so_out s \<and> so_closes s' = so_closes s"
proof (induction bs arbitrary: s out)
  case (Cons b bs)
  have i: "so_in s = frame ResultBatch (serializeBatch ar b) @ concat (map (\<lambda>b. frame ResultBatch (serializeBatch ar b)) bs)"
    and b: "sizedBatch b" "length (serializeBatch ar b) < 2 ^ 32" using Cons.prems by simp_all
  obtain s1 where s1: "recvFrame s = (Inr (msgCode ResultBatch, serializeBatch ar b), s1)"
    "so_in s1 = concat (map (\<lambda>b. frame ResultBatch (serializeBatch ar b)) bs)"
    "consumed (frame ResultBatch (serializeBatch ar b)) s s1"
    using recvFrame_all [OF Cons.prems(1) i b(2)] by blast
  have "patient s1" using s1(3) by (simp add: consumed_def)
  from Cons.IH [OF this s1(2), of "out @ [b]"] Cons.prems(3) s1 deserialize_written(2) [OF ar b(1)]
  show ?case by (auto simp: consumed_def)
qed simp

text \<open>The server's part and the client's part of a run.\<close>

lemma server_receives:
  assumes ar: "archive_laws ar" and p: "patient s" and i: "so_in s = request ar pkg"
    and f: "sizedPackage pkg" "length (serializePackage ar pkg) < 2 ^ 32"
  shows "\<exists>s1. so_out s1 = so_out s \<and> patient s1 \<and> handleClient ar std handler s =
    Option.bind (handler pkg) (\<lambda>r. case r of
        Inl e \<Rightarrow> Some (snd (sendFrame ErrorMsg (bytesOfString (what std e)) s1))
      | Inr batches \<Rightarrow> Some (snd (sendReply ar pkg batches s1)))"
proof -
  have "so_in s = frame QueryRequest (serializePackage ar pkg) @ []" using i by (simp add: request_def)
  from recvFrame_all [OF p this f(2)] deserialize_written(1) [OF ar f(1)]
  show ?thesis by (auto simp: handleClient_def consumed_def)
qed

lemma client_writes:
  assumes "patient s"
  obtains s1 where "patient s1" "so_out s1 = so_out s @ request ar pkg" "so_in s1 = so_in s"
    "so_closes s1 = so_closes s"
    "requestHeader ar pkg s = bindIO recvFrame (\<lambda>(ty, payload).
       if ty = msgCode ErrorMsg then returnIO (failedResponse (stringOfBytes payload) (pk_queryId pkg))
       else if ty \<noteq> msgCode QueryResponseMsg then liftIO (Inl expectedResponse)
       else liftIO (deserializeResponse ar payload)) s1"
proof -
  obtain s1 where s1: "sendFrame QueryRequest (serializePackage ar pkg) s = (Inr (), s1)"
    "produced (frame QueryRequest (serializePackage ar pkg)) s s1" using sendFrame_all [OF assms] by blast
  then show thesis by (intro that [of s1]) (simp_all add: requestHeader_def bindIO_def produced_def request_def)
qed

lemma sized_response:
  "sizedPackage pkg \<Longrightarrow> sized (qr_errorMessage (okResponse pkg bs)) \<and> sized (qr_queryId (okResponse pkg bs))"
  by (simp add: okResponse_def sizedPackage_def sized_def)

lemma client_receives:
  assumes ar: "archive_laws ar" and p: "patient s" and i: "so_in s = reply ar pkg batches"
    and f: "fitsFrames ar pkg batches"
  shows "\<exists>s'. sendQuery ar (Inr s) pkg out = (Inr (okResponse pkg batches), out @ batches, Some s')
    \<and> so_out s' = so_out s @ request ar pkg \<and> so_closes s' = so_closes s + 1"
proof -
  obtain s1 where s1: "patient s1" "so_out s1 = so_out s @ request ar pkg" "so_in s1 = so_in s" "so_closes s1 = so_closes s"
    "requestHeader ar pkg s = bindIO recvFrame (\<lambda>(ty, payload).
       if ty = msgCode ErrorMsg then returnIO (failedResponse (stringOfBytes payload) (pk_queryId pkg))
       else if ty \<noteq> msgCode QueryResponseMsg then liftIO (Inl expectedResponse)
       else liftIO (deserializeResponse ar payload)) s1" by (rule client_writes [OF p, of ar pkg])
  have l: "length (serializeResponse ar (okResponse pkg batches)) < 2 ^ 32" "sizedPackage pkg"
    "\<forall>b\<in>set batches. sizedBatch b \<and> length (serializeBatch ar b) < 2 ^ 32" "length batches < 2 ^ 32"
    using f by (simp_all add: fitsFrames_def)
  have i1: "so_in s1 = frame QueryResponseMsg (serializeResponse ar (okResponse pkg batches))
      @ concat (map (\<lambda>b. frame ResultBatch (serializeBatch ar b)) batches)"
    using s1(3) i by (simp only: reply_def)
  obtain s2 where s2: "recvFrame s1 = (Inr (msgCode QueryResponseMsg, serializeResponse ar (okResponse pkg batches)), s2)"
    "so_in s2 = concat (map (\<lambda>b. frame ResultBatch (serializeBatch ar b)) batches)" "patient s2"
    "so_out s2 = so_out s1" "so_closes s2 = so_closes s1"
    using recvFrame_all [OF s1(1) i1 l(1)] unfolding consumed_def by blast
  have h: "requestHeader ar pkg s = (Inr (okResponse pkg batches), s2)"
    using s1(5) s2(1) deserialize_written(3) [OF ar] sized_response [OF l(2), of batches]
    by (simp add: bindIO_def liftIO_def)
  have c: "unat (qr_batchCount (okResponse pkg batches)) = length batches"
    using l(4) by (simp add: okResponse_def unsigned_of_nat take_bit_nat_eq_self)
  obtain s3 where s3: "receiveBatches ar (length batches) out s2 = (Inr (), out @ batches, s3)"
    "so_out s3 = so_out s2" "so_closes s3 = so_closes s2"
    using receiveBatches_all [OF ar s2(3,2) l(3), of out] by blast
  have "qr_success (okResponse pkg batches)" by (simp add: okResponse_def)
  then have "sendQuery ar (Inr s) pkg out = (Inr (okResponse pkg batches), out @ batches, Some (closeFd s3))"
    by (simp add: sendQuery_def h c s3(1))
  with s1(2,4) s2(4,5) s3(2,3) show ?thesis by (simp add: closeFd_def)
qed

lemma client_fails:
  assumes p: "patient s" and i: "so_in s = frame ErrorMsg (bytesOfString m)" and l: "length m < 2 ^ 32"
  shows "\<exists>s'. sendQuery ar (Inr s) pkg out = (Inr (failedResponse m (pk_queryId pkg)), out, Some s')
    \<and> so_out s' = so_out s @ request ar pkg \<and> so_closes s' = so_closes s + 1"
proof -
  obtain s1 where s1: "patient s1" "so_out s1 = so_out s @ request ar pkg" "so_in s1 = so_in s" "so_closes s1 = so_closes s"
    "requestHeader ar pkg s = bindIO recvFrame (\<lambda>(ty, payload).
       if ty = msgCode ErrorMsg then returnIO (failedResponse (stringOfBytes payload) (pk_queryId pkg))
       else if ty \<noteq> msgCode QueryResponseMsg then liftIO (Inl expectedResponse)
       else liftIO (deserializeResponse ar payload)) s1" by (rule client_writes [OF p, of ar pkg])
  have l': "length (bytesOfString m) < 2 ^ 32" using l by (simp add: bytesOfString_def)
  obtain s2 where s2: "recvFrame s1 = (Inr (msgCode ErrorMsg, bytesOfString m), s2)"
    "so_out s2 = so_out s1" "so_closes s2 = so_closes s1"
    using recvFrame_all [OF s1(1) _ l', of ErrorMsg "[]"] s1(3) i by (auto simp: consumed_def)
  have "requestHeader ar pkg s = (Inr (failedResponse m (pk_queryId pkg)), s2)"
    using s1(5) s2(1) by (simp add: bindIO_def returnIO_def stringOfBytes_inverse)
  with s1(2,4) s2(2,3) show ?thesis by (simp add: sendQuery_def failedResponse_def closeFd_def)
qed

section \<open>Nothing but \<open>closeFd\<close> closes\<close>

definition keepsOpen :: "'a io \<Rightarrow> bool" where
  "keepsOpen m \<longleftrightarrow> (\<forall>s. so_closes (snd (m s)) = so_closes s)"

lemma keepsOpenD: "keepsOpen m \<Longrightarrow> m s = (r, s') \<Longrightarrow> so_closes s' = so_closes s"
  unfolding keepsOpen_def by (metis snd_conv)

lemma keeps_bind: "keepsOpen m \<Longrightarrow> (\<And>x. keepsOpen (f x)) \<Longrightarrow> keepsOpen (bindIO m f)"
  by (auto simp: keepsOpen_def bindIO_def split: prod.split sum.split) (metis snd_conv)+

lemma keeps_simple: "keepsOpen (returnIO x)" "keepsOpen (liftIO r)"
  by (simp_all add: keepsOpen_def returnIO_def liftIO_def)

lemma keeps_readBytes: "keepsOpen (readBytes n got)"
proof -
  have "so_closes (snd (readBytes n got s)) = so_closes s" for s
  proof (induction n got s rule: readBytes.induct)
    case (1 n got s)
    have "so_closes (snd (sysRead n s)) = so_closes s" by (simp add: sysRead_def Let_def)
    with 1 show ?case by (subst readBytes.simps) (auto split: prod.split)
  qed
  then show ?thesis by (simp add: keepsOpen_def)
qed

lemma keeps_writeBytes: "keepsOpen (writeBytes data)"
proof -
  have "so_closes (snd (writeBytes data s)) = so_closes s" for s
  proof (induction data s rule: writeBytes.induct)
    case (1 data s)
    have "so_closes (snd (sysWrite data s)) = so_closes s" by (simp add: sysWrite_def Let_def)
    with 1 show ?case by (subst writeBytes.simps) (auto split: prod.split)
  qed
  then show ?thesis by (simp add: keepsOpen_def)
qed

lemmas keeps = keeps_bind keeps_simple keeps_readBytes keeps_writeBytes

lemma keeps_frames: "keepsOpen (sendFrame ty payload)" "keepsOpen recvFrame"
  unfolding sendFrame_def recvFrame_def writeU32BE_def readU32BE_def
  by (auto intro!: keeps)

lemma keeps_requestHeader: "keepsOpen (requestHeader ar pkg)"
  unfolding requestHeader_def by (auto intro!: keeps keeps_frames split: prod.split)

lemma keeps_sendReply: "keepsOpen (sendReply ar pkg batches)"
proof -
  have "keepsOpen (sendBatches ar bs)" for bs
    by (induction bs) (auto intro!: keeps keeps_frames)
  then show ?thesis unfolding sendReply_def server_frames by (intro keeps keeps_frames)
qed

lemma receiveBatches_keeps:
  "receiveBatches ar n out s = (r, out', s') \<Longrightarrow> so_closes s' = so_closes s \<and> (\<exists>got. out' = out @ got)"
proof (induction n arbitrary: out s)
  case (Suc n)
  obtain r1 s1 where f: "recvFrame s = (r1, s1)" by fastforce
  have c: "so_closes s1 = so_closes s" using keepsOpenD [OF keeps_frames(2) f] .
  have step: "so_closes s' = so_closes s1 \<and> (\<exists>got. out' = (out @ [b]) @ got)"
    if "receiveBatches ar n (out @ [b]) s1 = (r, out', s')" for b
    using Suc.IH [OF that] .
  from Suc.prems c show ?case
    by (auto simp: f split: sum.splits if_splits prod.splits dest!: step)
qed simp

lemma handleClient_keeps: "handleClient ar std handler s = Some s' \<Longrightarrow> so_closes s' = so_closes s"
proof -
  assume h: "handleClient ar std handler s = Some s'"
  obtain r1 s1 where f: "recvFrame s = (r1, s1)" by fastforce
  have c: "so_closes s1 = so_closes s" using keepsOpenD [OF keeps_frames(2) f] .
  have k: "so_closes (snd (sendFrame ty p s1)) = so_closes s1" "so_closes (snd (sendReply ar pkg bs s1)) = so_closes s1"
    for ty p pkg bs using keeps_frames(1) keeps_sendReply by (simp_all add: keepsOpen_def)
  have r: "so_closes t = so_closes s1"
    if "(case y of Inl e \<Rightarrow> Some (snd (sendFrame ErrorMsg (bytesOfString (what std e)) s1))
         | Inr batches \<Rightarrow> Some (snd (sendReply ar pkg batches s1))) = Some t" for y pkg t
    using that k by (cases y) auto
  from h c k show ?thesis
    by (auto simp: handleClient_def f bind_eq_Some_conv split: sum.splits if_splits prod.splits)
      (metis (lifting) r sum.case sum.exhaust)
qed

lemma sendQuery_outcome:
  assumes "sendQuery ar (Inr s) pkg out = (r, out', t)"
  shows "\<exists>s'. t = Some s' \<and> so_closes s' = so_closes s + 1 \<and> (\<exists>got. out' = out @ got)"
proof -
  obtain r1 s1 where h: "requestHeader ar pkg s = (r1, s1)" by fastforce
  have c: "so_closes s1 = so_closes s" using keepsOpenD [OF keeps_requestHeader h] .
  show ?thesis
  proof (cases "\<exists>resp. r1 = Inr resp \<and> qr_success resp")
    case False
    with assms show ?thesis by (auto simp: sendQuery_def h c closeFd_def split: sum.splits if_splits)
  next
    case True
    then obtain resp where resp: "r1 = Inr resp" "qr_success resp" by blast
    obtain r2 out2 s2 where b: "receiveBatches ar (unat (qr_batchCount resp)) out s1 = (r2, out2, s2)"
      by (metis prod_cases3)
    from receiveBatches_keeps [OF b] assms show ?thesis
      by (auto simp: sendQuery_def h c b resp closeFd_def split: sum.splits)
  qed
qed

section \<open>The accept loop\<close>

text \<open>The connections that are accepted before \<open>stop()\<close>.\<close>

fun accepted :: "ServerEvent list \<Rightarrow> Socket list" where
  "accepted [] = []"
| "accepted (Stopped # events) = []"
| "accepted (AcceptFailed # events) = accepted events"
| "accepted (Connected s # events) = s # accepted events"

lemma serve_stuck:
  "Stopped \<notin> set pre \<Longrightarrow> handleClient ar std handler s = None \<Longrightarrow>
   serveLoop ar std handler (pre @ Connected s # post) = None"
proof (induction pre)
  case (Cons ev pre)
  then show ?case by (cases ev) (auto simp: bind_eq_None_conv)
qed simp

text \<open>The state of the loop after the events, when all of them are dealt with.\<close>

definition after :: "ServerEvent list \<Rightarrow> Socket list \<Rightarrow> ServeRun" where
  "after events socks = (if Stopped \<in> set events then Returned socks else Serving socks)"

lemma after_simps [simp]:
  "after [] socks = Serving socks" "after (Stopped # events) socks = Returned socks"
  "after (AcceptFailed # events) socks = after events socks"
  "after (Connected s # events) socks = after events socks"
  "withSocket s (after events socks) = after events (s # socks)"
  by (simp_all add: after_def)

text \<open>A loop whose clients are all handled deals with every event, and leaves every connection as its
  client was left, closed.\<close>

lemma serve_each:
  "\<forall>s\<in>set (accepted events). \<exists>s'. handleClient ar std h s = Some s' \<Longrightarrow>
   \<exists>socks. serveLoop ar std h events = Some (after events socks)
     \<and> list_all2 (\<lambda>s t. \<exists>s'. handleClient ar std h s = Some s' \<and> t = closeFd s') (accepted events) socks"
  by (induction events rule: accepted.induct) auto

text \<open>The package that the next frame of a connection carries.\<close>

definition arrives :: "Archive \<Rightarrow> Socket \<Rightarrow> QueryPackage \<Rightarrow> bool" where
  "arrives ar s pkg \<longleftrightarrow> (\<exists>payload s'. recvFrame s = (Inr (msgCode QueryRequest, payload), s')
     \<and> deserializePackage ar payload = Inr pkg)"

text \<open>The interface between the transport and the program: the callback that the server gives to
  \<open>TcpServerTransport\<close>, and the packages for which it promises to return.\<close>

locale query_service =
  fixes service :: "QueryPackage \<Rightarrow> EncryptedResultBatch list result option" and served :: "QueryPackage \<Rightarrow> bool"
  assumes returns: "served pkg \<Longrightarrow> \<exists>r. service pkg = Some r"
begin

lemma client_handled:
  assumes "\<And>pkg. arrives ar s pkg \<Longrightarrow> served pkg"
  shows "\<exists>s'. handleClient ar std service s = Some s'"
proof -
  obtain r1 s1 where f: "recvFrame s = (r1, s1)" by fastforce
  show ?thesis
  proof (cases "\<exists>payload pkg. r1 = Inr (msgCode QueryRequest, payload) \<and> deserializePackage ar payload = Inr pkg")
    case True
    then obtain payload pkg where p: "r1 = Inr (msgCode QueryRequest, payload)" "deserializePackage ar payload = Inr pkg"
      by blast
    with f have "arrives ar s pkg" by (auto simp: arrives_def)
    then obtain r where "service pkg = Some r" using assms returns by blast
    with f p show ?thesis by (cases r) (simp_all add: handleClient_def)
  next
    case False
    with f show ?thesis by (auto simp: handleClient_def split: sum.split prod.split)
  qed
qed

lemma loop_serves:
  assumes "\<And>s pkg. s \<in> set (accepted events) \<Longrightarrow> arrives ar s pkg \<Longrightarrow> served pkg"
  shows "\<exists>socks. serveLoop ar std service events = Some (after events socks)
     \<and> list_all2 (\<lambda>s t. so_closes t = so_closes s + 1) (accepted events) socks"
proof -
  have "\<forall>s\<in>set (accepted events). \<exists>s'. handleClient ar std service s = Some s'"
    using client_handled assms by blast
  from serve_each [OF this] show ?thesis
    by (elim exE conjE) (rule exI, rule conjI, assumption,
      auto elim!: list_all2_mono simp: closeFd_def handleClient_keeps)
qed

end

section \<open>Two sample sockets\<close>

definition slowSocket :: Socket where
  "slowSocket = \<lparr>so_in = [], so_out = [], so_reads = [1, 2, 1, 3, 1, 1], so_writes = [3, 1, 1], so_closes = 0\<rparr>"

lemma slow_patient: "patient slowSocket" "patient (slowSocket\<lparr>so_in := bs\<rparr>)"
  by (simp_all add: patient_def slowSocket_def)

definition tinyPackage :: QueryPackage where
  "tinyPackage = samplePackage\<lparr>pk_predicateNodes := [], pk_encryptedLiterals := [], pk_resultSchema := [],
     pk_fheParams := \<lparr>fm_paramSetId = ''p'', fm_plaintextModulus = 0, fm_multiplicativeDepth = 0,
        fm_ringDimension = 0, fm_slotCount = 0, fm_keyId = []\<rparr>\<rparr>"

definition tinyBatch :: EncryptedResultBatch where
  "tinyBatch = \<lparr>rb_batchId = 0, rb_logicalRowCount = 1, rb_columns = [], rb_selectionMaskBytes = [5], rb_hasMask = True\<rparr>"

lemma tiny_fits: "fitsFrames unaryArchive tinyPackage [tinyBatch]"
proof -
  have "length (serializePackage unaryArchive tinyPackage) \<le> 10000"
    "length (serializeResponse unaryArchive (okResponse tinyPackage [tinyBatch])) \<le> 10000"
    "length (serializeBatch unaryArchive tinyBatch) \<le> 10000"
    by code_simp+
  then show ?thesis
    by (simp add: fitsFrames_def) (simp add: tinyPackage_def tinyBatch_def samplePackage_def sizedPackage_def
        sizedBatch_def sized_def int64_def INT64_MAX_def)
qed

text \<open>Two runs that are wired to each other exist for every answer of the handler.\<close>

lemma wired_runs:
  assumes "\<exists>r. handler pkg = Some r" "sizedPackage pkg" "length (serializePackage ar pkg) < 2 ^ 32" "archive_laws ar"
  obtains c c' s s' r got where "patient c" "patient s" "so_out c = []" "so_out s = []"
    "sendQuery ar (Inr c) pkg [] = (r, got, Some c')" "handleClient ar std handler s = Some s'"
    "so_in s = request ar pkg" "so_in c = so_out s'"
proof -
  let ?s = "slowSocket\<lparr>so_in := request ar pkg\<rparr>"
  have i: "so_in ?s = request ar pkg" "so_out ?s = []" by (simp_all add: slowSocket_def)
  obtain s' where s': "handleClient ar std handler ?s = Some s'"
    using server_receives [OF assms(4) slow_patient(2) i(1) assms(2,3), of std handler] assms(1)
    by (auto split: sum.splits)
  let ?c = "slowSocket\<lparr>so_in := so_out s'\<rparr>"
  obtain r got t where q: "sendQuery ar (Inr ?c) pkg [] = (r, got, t)" by (metis prod_cases3)
  then obtain c' where "t = Some c'" using sendQuery_outcome by blast
  moreover have "so_out slowSocket = []" by (simp add: slowSocket_def)
  ultimately show thesis
    using q s' by (intro that [of ?c ?s r got c' s']) (simp_all add: slow_patient)
qed

lemma exchange_delivers:
  assumes ar: "archive_laws ar" and fit: "fitsFrames ar pkg batches" and h: "handler pkg = Some (Inr batches)"
    and fresh: "patient c" "patient s" "so_out c = []" "so_out s = []"
    and client: "sendQuery ar (Inr c) pkg [] = (r, got, Some c')"
    and server: "handleClient ar std handler s = Some s'"
    and wires: "so_in s = request ar pkg" "so_in c = so_out s'"
  shows "r = Inr (okResponse pkg batches) \<and> got = batches \<and> so_out c' = so_in s"
proof -
  have f: "sizedPackage pkg" "length (serializePackage ar pkg) < 2 ^ 32" using fit by (simp_all add: fitsFrames_def)
  obtain s1 where s1: "so_out s1 = so_out s" "patient s1" "handleClient ar std handler s = Some (snd (sendReply ar pkg batches s1))"
    using server_receives [OF ar fresh(2) wires(1) f, of std handler] h by auto
  have "so_out s' = reply ar pkg batches"
    using sendReply_all [OF s1(2), of ar pkg batches] s1(1,3) server fresh(4) by (auto simp: produced_def)
  then have "so_in c = reply ar pkg batches" using wires(2) by simp
  from client_receives [OF ar fresh(1) this fit, of "[]"] client fresh(3) wires(1) show ?thesis by auto
qed

section \<open>Properties\<close>

text \<open>C28: a frame written by one side is read by the other as the same type and
  payload, however the kernel splits the bytes into reads and writes, and the bytes after it are
  left in the stream; payloads below 4 GiB.\<close>

theorem frame_roundtrip:
  assumes "patient w" "patient r" "length payload < 2 ^ 32" "so_out w = []"
    and "sendFrame ty payload w = (x, w')" "so_in r = so_out w' @ rest"
  shows "x = Inr () \<and> (\<exists>r'. recvFrame r = (Inr (msgCode ty, payload), r') \<and> so_in r' = rest)"
proof -
  from sendFrame_all [OF assms(1), of ty payload] assms(4,5)
  have "x = Inr ()" "so_out w' = frame ty payload" by (auto simp: produced_def)
  with recvFrame_all [OF assms(2) _ assms(3)] assms(6) show ?thesis by metis
qed

theorem frame_roundtrip_witness:
  "\<exists>w' r'. sendFrame ResultBatch [7, 8] slowSocket = (Inr (), w')
     \<and> recvFrame (slowSocket\<lparr>so_in := so_out w' @ [9]\<rparr>) = (Inr (3, [7, 8]), r') \<and> so_in r' = [9]"
proof -
  obtain w' where w: "sendFrame ResultBatch [7, 8] slowSocket = (Inr (), w')"
    using sendFrame_all [OF slow_patient(1)] by blast
  have "so_out slowSocket = []" by (simp add: slowSocket_def)
  from frame_roundtrip [OF slow_patient(1) slow_patient(2) [of "so_out w' @ [9]"] _ this w, of "[9]"] w
  show ?thesis by (auto simp: slowSocket_def)
qed

text \<open>C37: a peer that closes inside a frame is noticed: \<open>recvFrame\<close> throws
  instead of returning a frame cut short.\<close>

theorem short_stream_detected:
  assumes "patient s" "so_in s = take k (frame ty payload)" "k < length (frame ty payload)"
    and "length payload < 2 ^ 32"
  shows "fst (recvFrame s) = Inl connectionClosed"
  using recvFrame_short [OF assms] by auto

theorem short_stream_detected_witness:
  "fst (recvFrame (slowSocket\<lparr>so_in := take 9 (frame ResultBatch [7, 8])\<rparr>)) = Inl connectionClosed"
  by (rule short_stream_detected [where k = 9 and ty = ResultBatch and payload = "[7, 8]", OF slow_patient(2)])
    (simp_all add: slowSocket_def frame_def)

text \<open>C14: a client and a server that are wired to each other: when the handler
  returns batches, the client's \<open>sendQuery\<close> returns the server's response and exactly those
  batches, in order.\<close>

theorem query_exchange:
  assumes ar: "archive_laws ar" and fit: "fitsFrames ar pkg batches" and h: "handler pkg = Some (Inr batches)"
    and fresh: "patient c" "patient s" "so_out c = []" "so_out s = []"
    and client: "sendQuery ar (Inr c) pkg [] = (r, got, Some c')"
    and server: "handleClient ar std handler s = Some s'"
    and wires: "so_in s = request ar pkg" "so_in c = so_out s'"
  shows "r = Inr (okResponse pkg batches) \<and> got = batches \<and> so_out c' = so_in s"
  using assms by (rule exchange_delivers)

theorem query_exchange_witness:
  "\<exists>c c'. sendQuery unaryArchive (Inr c) tinyPackage [] = (Inr (okResponse tinyPackage [tinyBatch]), [tinyBatch], Some c')"
proof -
  let ?h = "\<lambda>_ :: QueryPackage. Some (Inr [tinyBatch] :: EncryptedResultBatch list result)"
  have f: "sizedPackage tinyPackage" "length (serializePackage unaryArchive tinyPackage) < 2 ^ 32"
    using tiny_fits by (simp_all add: fitsFrames_def)
  have h: "\<exists>r. ?h tinyPackage = Some r" by simp
  obtain c c' s s' r got where w: "patient c" "patient s" "so_out c = []" "so_out s = []"
    "sendQuery unaryArchive (Inr c) tinyPackage [] = (r, got, Some c')"
    "handleClient unaryArchive (\<lambda>_. []) ?h s = Some s'"
    "so_in s = request unaryArchive tinyPackage" "so_in c = so_out s'"
    by (rule wired_runs [OF h f unaryArchive_laws, where std = "\<lambda>_. []"])
  from query_exchange [OF unaryArchive_laws tiny_fits, where handler = ?h, OF refl w] w(5) show ?thesis by auto
qed

text \<open>C32: when the handler throws, the client gets a response without success
  that carries the text of the exception and its own query id, and no batch.\<close>

theorem query_error_reported:
  assumes ar: "archive_laws ar" and fit: "sizedPackage pkg" "length (serializePackage ar pkg) < 2 ^ 32"
      "length (what std e) < 2 ^ 32" and h: "handler pkg = Some (Inl e)"
    and fresh: "patient c" "patient s" "so_out c = []" "so_out s = []"
    and client: "sendQuery ar (Inr c) pkg [] = (r, got, Some c')"
    and server: "handleClient ar std handler s = Some s'"
    and wires: "so_in s = request ar pkg" "so_in c = so_out s'"
  shows "r = Inr (failedResponse (what std e) (pk_queryId pkg)) \<and> got = []"
proof -
  let ?p = "bytesOfString (what std e)"
  obtain s1 where s1: "so_out s1 = so_out s" "patient s1" "handleClient ar std handler s = Some (snd (sendFrame ErrorMsg ?p s1))"
    using server_receives [OF ar fresh(2) wires(1) fit(1,2), of std handler] h by auto
  have "so_out s' = frame ErrorMsg ?p"
    using sendFrame_all [OF s1(2), of ErrorMsg ?p] s1(1,3) server fresh(4) by (auto simp: produced_def)
  then have "so_in c = frame ErrorMsg ?p" using wires(2) by simp
  from client_fails [OF fresh(1) this fit(3), of ar pkg "[]"] client show ?thesis by auto
qed

theorem query_error_reported_witness:
  "\<exists>c c'. sendQuery unaryArchive (Inr c) tinyPackage [] =
     (Inr (failedResponse ''Unknown table: x'' ''q1''), [], Some c')"
proof -
  let ?e = "ValidationError ''Unknown table: x''"
  let ?h = "\<lambda>_ :: QueryPackage. Some (Inl ?e :: EncryptedResultBatch list result)"
  have f: "sizedPackage tinyPackage" "length (serializePackage unaryArchive tinyPackage) < 2 ^ 32"
    using tiny_fits by (simp_all add: fitsFrames_def)
  have h: "\<exists>r. ?h tinyPackage = Some r" by simp
  obtain c c' s s' r got where w: "patient c" "patient s" "so_out c = []" "so_out s = []"
    "sendQuery unaryArchive (Inr c) tinyPackage [] = (r, got, Some c')"
    "handleClient unaryArchive (\<lambda>_. []) ?h s = Some s'"
    "so_in s = request unaryArchive tinyPackage" "so_in c = so_out s'"
    by (rule wired_runs [OF h f unaryArchive_laws, where std = "\<lambda>_. []"])
  have "pk_queryId tinyPackage = ''q1''" by (simp add: tinyPackage_def samplePackage_def)
  with query_error_reported [OF unaryArchive_laws f _ _ w, where e = ?e] w(5) show ?thesis by auto
qed

text \<open>C33: whatever the peer sends and however the reads and writes are split
  or fail, an opened connection is closed exactly once, and the batches received before are kept.\<close>

theorem sendQuery_closes:
  assumes "sendQuery ar (Inr s) pkg out = (r, out', t)"
  shows "\<exists>s'. t = Some s' \<and> so_closes s' = so_closes s + 1 \<and> (\<exists>got. out' = out @ got)"
  using assms by (rule sendQuery_outcome)

theorem sendQuery_closes_witness:
  "\<exists>r out' s'. sendQuery unaryArchive (Inr slowSocket) samplePackage [] = (r, out', Some s') \<and> so_closes s' = 1"
proof -
  obtain r out' t where q: "sendQuery unaryArchive (Inr slowSocket) samplePackage [] = (r, out', t)"
    by (metis prod_cases3)
  from sendQuery_closes [OF q] q show ?thesis by (auto simp: slowSocket_def)
qed

end
