(* ===== verification/Hega_Lexer.thy ===== *)
theory Hega_Lexer
  imports Hega_Ast
begin

text \<open>
  The lexer half of \<open>class SQLParser\<close> (\<open>parser/parser.cpp\<close>, lines 20 to 133): the source
  text, the position in it, and the helpers that read from that position.  The two fields
  are \<open>src_\<close> and \<open>pos_\<close>; a helper that moves \<open>pos_\<close> returns the new lexer.  A \<open>while\<close> loop
  is a recursive function with the loop's guard; the distance to the end of the text is its
  measure.
\<close>

section \<open>Definitions\<close>

record Lexer =
  lx_src :: string
  lx_pos :: nat

definition toUpper :: "string \<Rightarrow> string" where
  "toUpper s = map toupper s"

definition remaining :: "Lexer \<Rightarrow> nat" where
  "remaining p = length (lx_src p) - lx_pos p"

definition atEnd :: "Lexer \<Rightarrow> bool" where
  "atEnd p \<longleftrightarrow> length (lx_src p) \<le> lx_pos p"

text \<open>\<open>src_[pos_]\<close>, used under \<open>!atEnd()\<close> only, and \<open>++pos_\<close>.\<close>

definition cur :: "Lexer \<Rightarrow> char" where
  "cur p = lx_src p ! lx_pos p"

definition advance :: "Lexer \<Rightarrow> Lexer" where
  "advance p = p\<lparr>lx_pos := lx_pos p + 1\<rparr>"

definition peek :: "Lexer \<Rightarrow> char result" where
  "peek p = (if atEnd p then Inl (ParseError ''Unexpected end of input'') else Inr (cur p))"

definition consume :: "Lexer \<Rightarrow> (char \<times> Lexer) result" where
  "consume p = (if atEnd p then Inl (ParseError ''Unexpected end of input'')
                else Inr (cur p, advance p))"

text \<open>\<open>!atEnd() && peek() == c\<close>.\<close>

definition looksAt :: "char \<Rightarrow> Lexer \<Rightarrow> bool" where
  "looksAt c p \<longleftrightarrow> \<not> atEnd p \<and> cur p = c"

function skipWS :: "Lexer \<Rightarrow> Lexer" where
  "skipWS p = (if \<not> atEnd p \<and> isspace (cur p) then skipWS (advance p) else p)"
  by pat_completeness auto
termination
  by (relation "measure remaining") (auto simp: remaining_def atEnd_def advance_def)

definition identChar :: "char \<Rightarrow> bool" where
  "identChar c \<longleftrightarrow> isalnum c \<or> c = CHR ''_''"

text \<open>The loop \<open>while (!atEnd() && (isalnum(c) || c == '_')) id += src_[pos_++]\<close> of
  \<open>consumeIdent\<close> and \<open>tryKeyword\<close>.\<close>

function scanWord :: "string \<Rightarrow> Lexer \<Rightarrow> string \<times> Lexer" where
  "scanWord w p = (if \<not> atEnd p \<and> identChar (cur p) then scanWord (w @ [cur p]) (advance p)
                   else (w, p))"
  by pat_completeness auto
termination
  by (relation "measure (\<lambda>(w, p). remaining p)")
    (auto simp: remaining_def atEnd_def advance_def)

definition consumeIdent :: "Lexer \<Rightarrow> (string \<times> Lexer) result" where
  "consumeIdent p =
     (let p1 = skipWS p in
      if atEnd p1 \<or> (\<not> isalpha (cur p1) \<and> cur p1 \<noteq> CHR ''_'')
      then Inl (ParseError (''Expected identifier at position '' @ show_nat (lx_pos p1)))
      else Inr (scanWord [] p1))"

definition consumeQualifiedIdent :: "Lexer \<Rightarrow> (string \<times> Lexer) result" where
  "consumeQualifiedIdent p =
     bindE (consumeIdent p) (\<lambda>(name, p1).
       let p2 = skipWS p1 in
       if looksAt CHR ''.'' p2
       then bindE (consumeIdent (advance p2)) (\<lambda>(n2, p3). Inr (name @ ''.'' @ n2, p3))
       else Inr (name, p2))"

text \<open>\<open>v = v * 10 + (src_[pos_++] - '0')\<close> on \<open>int64_t\<close>: overflow is undefined.\<close>

function digitLoop :: "int \<Rightarrow> Lexer \<Rightarrow> (int \<times> Lexer) result" where
  "digitLoop v p =
     (if \<not> atEnd p \<and> isdigit (cur p)
      then (let v' = v * 10 + int (code (cur p) - 48) in
            if INT64_MAX < v' then Inl (UndefinedBehaviour ''signed overflow in consumeInt'')
            else digitLoop v' (advance p))
      else Inr (v, p))"
  by pat_completeness auto
termination
  by (relation "measure (\<lambda>(v, p). remaining p)")
    (auto simp: remaining_def atEnd_def advance_def)

definition consumeInt :: "Lexer \<Rightarrow> (int \<times> Lexer) result" where
  "consumeInt p =
     (let p1 = skipWS p;
          neg = looksAt CHR ''-'' p1;
          p2 = (if neg then advance p1 else p1)
      in if atEnd p2 \<or> \<not> isdigit (cur p2)
         then Inl (ParseError (''Expected integer at position '' @ show_nat (lx_pos p2)))
         else bindE (digitLoop 0 p2) (\<lambda>(v, p3). Inr (if neg then - v else v, p3)))"

text \<open>The loop of \<open>consumeString\<close>, entered after the opening quote: a doubled quote is a
  quote of the value, a single one ends it.\<close>

function stringLoop :: "string \<Rightarrow> Lexer \<Rightarrow> (string \<times> Lexer) result" where
  "stringLoop value p =
     (if atEnd p then Inl (ParseError ''Unterminated string literal'')
      else let c = cur p; p1 = advance p in
        if c = quote
        then (if looksAt quote p1 then stringLoop (value @ [quote]) (advance p1)
              else Inr (value, p1))
        else if 127 < code c
        then Inl (ParseError ''Only ASCII string literals are supported'')
        else stringLoop (value @ [c]) p1)"
  by pat_completeness auto
termination
  by (relation "measure (\<lambda>(v, p). remaining p)")
    (auto simp: remaining_def atEnd_def advance_def)

definition consumeString :: "Lexer \<Rightarrow> (string \<times> Lexer) result" where
  "consumeString p =
     (let p1 = skipWS p in
      if atEnd p1
      then Inl (ParseError (''Expected string literal at position '' @ show_nat (lx_pos p1)))
      else if cur p1 \<noteq> quote
      then Inl (ParseError (''Expected string literal at position ''
                            @ show_nat (lx_pos (advance p1))))
      else stringLoop [] (advance p1))"

definition tryKeyword :: "string \<Rightarrow> Lexer \<Rightarrow> bool \<times> Lexer" where
  "tryKeyword kw p =
     (let p1 = skipWS p; (w, p2) = scanWord [] p1 in
      if toUpper w = kw then (True, p2) else (False, p1))"

definition expectKeyword :: "string \<Rightarrow> Lexer \<Rightarrow> Lexer result" where
  "expectKeyword kw p =
     (let (found, p1) = tryKeyword kw p in
      if found then Inr p1
      else Inl (ParseError (''Expected keyword '' @ [quote] @ kw @ [quote] @ '' at position ''
                            @ show_nat (lx_pos p1))))"

definition expectChar :: "char \<Rightarrow> Lexer \<Rightarrow> Lexer result" where
  "expectChar c p =
     (let p1 = skipWS p in
      if looksAt c p1 then Inr (advance p1)
      else Inl (ParseError (''Expected '' @ [quote, c, quote] @ '' at position ''
                            @ show_nat (lx_pos p1))))"

declare skipWS.simps [simp del] scanWord.simps [simp del] digitLoop.simps [simp del]
  stringLoop.simps [simp del]

section \<open>Progress: which helpers move the position\<close>

text \<open>\<open>stays\<close>: same text, position not moved back.  \<open>advances\<close>: at least one character of
  the text was read.\<close>

definition stays :: "Lexer \<Rightarrow> Lexer \<Rightarrow> bool" where
  "stays p q \<longleftrightarrow> lx_src q = lx_src p \<and> lx_pos p \<le> lx_pos q"

definition advances :: "Lexer \<Rightarrow> Lexer \<Rightarrow> bool" where
  "advances p q \<longleftrightarrow> lx_src q = lx_src p \<and> lx_pos p < lx_pos q \<and> lx_pos p < length (lx_src p)"

named_theorems progress \<open>progress of the lexer and the parser\<close>

lemma stays_refl [simp, progress]: "stays p p"
  by (simp add: stays_def)

lemma stays_trans: "stays p q \<Longrightarrow> stays q r \<Longrightarrow> stays p r"
  by (simp add: stays_def)

lemma advances_stays: "advances p q \<Longrightarrow> stays p q"
  by (simp add: advances_def stays_def)

lemma stays_advances: "stays p q \<Longrightarrow> advances q r \<Longrightarrow> advances p r"
  by (simp add: advances_def stays_def)

lemma advances_then: "advances p q \<Longrightarrow> stays q r \<Longrightarrow> advances p r"
  by (auto simp add: advances_def stays_def)

lemma advances_remaining: "advances p q \<Longrightarrow> remaining q < remaining p"
  by (auto simp: advances_def remaining_def)

lemma stays_remaining: "stays p q \<Longrightarrow> remaining q \<le> remaining p"
  by (auto simp: stays_def remaining_def)

lemma advances_advance: "\<not> atEnd p \<Longrightarrow> advances p (advance p)"
  by (simp add: advances_def atEnd_def advance_def)

lemma stays_advance [simp, progress]: "stays p (advance p)"
  by (simp add: stays_def advance_def)

lemma stays_advanceD: "stays (advance p) q \<Longrightarrow> stays p q"
  by (simp add: stays_def advance_def)

lemma skipWS_stays [progress]: "stays p (skipWS p)"
proof (induction p rule: skipWS.induct)
  case (1 p)
  then show ?case
    by (auto simp: skipWS.simps [of p] intro: stays_trans advances_stays advances_advance)
qed

lemma scanWord_stays: "scanWord w p = (v, q) \<Longrightarrow> stays p q"
proof (induction w p rule: scanWord.induct)
  case (1 w p)
  then show ?case
    by (auto simp: scanWord.simps [of w p] split: if_splits
        intro: stays_trans advances_stays advances_advance)
qed

lemma scanWord_advances:
  assumes "\<not> atEnd p" "identChar (cur p)" "scanWord w p = (v, q)"
  shows "advances p q"
proof -
  from assms have "scanWord (w @ [cur p]) (advance p) = (v, q)"
    by (simp add: scanWord.simps [of w p])
  then show ?thesis
    using scanWord_stays advances_advance [OF assms(1)] advances_then by blast
qed

lemma consumeIdent_advances [progress]:
  assumes "consumeIdent p = Inr (n, q)"
  shows "advances p q"
proof -
  let ?p = "skipWS p"
  from assms have "\<not> atEnd ?p" "identChar (cur ?p)" "scanWord [] ?p = (n, q)"
    by (auto simp: consumeIdent_def Let_def identChar_def isalnum_def split: if_splits)
  then show ?thesis by (blast intro: scanWord_advances stays_advances skipWS_stays)
qed

lemma consumeQualifiedIdent_advances [progress]:
  assumes "consumeQualifiedIdent p = Inr (n, q)"
  shows "advances p q"
proof -
  from assms obtain n1 p1 where c: "consumeIdent p = Inr (n1, p1)"
    by (auto simp: consumeQualifiedIdent_def bindE_eq_Inr)
  have "stays p1 q"
    using assms c
    by (auto simp: consumeQualifiedIdent_def Let_def bindE_eq_Inr split: if_splits
        intro: skipWS_stays stays_trans [OF skipWS_stays]
        dest!: consumeIdent_advances advances_stays stays_advanceD)
  with c show ?thesis by (blast intro: advances_then consumeIdent_advances)
qed

lemma digitLoop_stays: "digitLoop v p = Inr (w, q) \<Longrightarrow> stays p q"
proof (induction v p rule: digitLoop.induct)
  case (1 v p)
  then show ?case
    by (auto simp: digitLoop.simps [of v p] Let_def split: if_splits
        intro: stays_trans advances_stays advances_advance)
qed

lemma digitLoop_advances:
  assumes "\<not> atEnd p" "isdigit (cur p)" "digitLoop v p = Inr (w, q)"
  shows "advances p q"
proof -
  from assms obtain v' where "digitLoop v' (advance p) = Inr (w, q)"
    by (auto simp: digitLoop.simps [of v p] Let_def split: if_splits)
  then show ?thesis
    using digitLoop_stays advances_advance [OF assms(1)] advances_then by blast
qed

lemma consumeInt_advances [progress]:
  assumes "consumeInt p = Inr (v, q)"
  shows "advances p q"
proof -
  define p1 where "p1 = skipWS p"
  define p2 where "p2 = (if looksAt CHR ''-'' p1 then advance p1 else p1)"
  from assms obtain w where "\<not> atEnd p2" "isdigit (cur p2)" "digitLoop 0 p2 = Inr (w, q)"
    by (auto simp: consumeInt_def Let_def p1_def p2_def bindE_eq_Inr split: if_splits)
  then have "advances p2 q" by (rule digitLoop_advances)
  moreover have "stays p p2"
    by (auto simp: p2_def p1_def looksAt_def
        intro: skipWS_stays stays_trans advances_stays advances_advance)
  ultimately show ?thesis by (blast intro: stays_advances)
qed

lemma stringLoop_stays: "stringLoop v p = Inr (w, q) \<Longrightarrow> stays p q"
proof (induction v p rule: stringLoop.induct)
  case (1 v p)
  then show ?case
    by (auto simp: stringLoop.simps [of v p] Let_def split: if_splits
        dest!: stays_advanceD)
qed

lemma consumeString_advances [progress]:
  assumes "consumeString p = Inr (v, q)"
  shows "advances p q"
proof -
  from assms have "\<not> atEnd (skipWS p)" "stringLoop [] (advance (skipWS p)) = Inr (v, q)"
    by (auto simp: consumeString_def Let_def split: if_splits)
  then show ?thesis
    by (blast intro: stays_advances skipWS_stays advances_then advances_advance stringLoop_stays)
qed

lemma tryKeyword_stays [progress]: "tryKeyword kw p = (b, q) \<Longrightarrow> stays p q"
  by (auto simp: tryKeyword_def Let_def split: prod.splits if_splits
      intro: stays_trans skipWS_stays scanWord_stays)

lemma scanWord_end: "atEnd p \<or> \<not> identChar (cur p) \<Longrightarrow> scanWord w p = (w, p)"
  by (auto simp: scanWord.simps [of w p])

lemma tryKeyword_advances [progress]:
  assumes "tryKeyword kw p = (True, q)" "kw \<noteq> []"
  shows "advances p q"
proof -
  let ?p = "skipWS p"
  from assms obtain w where w: "scanWord [] ?p = (w, q)" "toUpper w = kw"
    by (auto simp: tryKeyword_def Let_def split: prod.splits if_splits)
  with assms(2) have "\<not> atEnd ?p \<and> identChar (cur ?p)"
    using scanWord_end [of ?p "[]"] by (auto simp: toUpper_def)
  with w show ?thesis by (blast intro: scanWord_advances stays_advances skipWS_stays)
qed

lemma expectKeyword_advances [progress]:
  "expectKeyword kw p = Inr q \<Longrightarrow> kw \<noteq> [] \<Longrightarrow> advances p q"
  by (auto simp: expectKeyword_def split: prod.splits if_splits intro: tryKeyword_advances)

lemma expectChar_advances [progress]:
  assumes "expectChar c p = Inr q"
  shows "advances p q"
proof -
  have "looksAt c (skipWS p) \<and> q = advance (skipWS p)"
    using assms unfolding expectChar_def Let_def by (cases "looksAt c (skipWS p)") simp_all
  then show ?thesis using stays_advances [OF skipWS_stays [of p] advances_advance] by (simp add: looksAt_def)
qed

end
