(* ===== verification/Hega_Parser.thy ===== *)
theory Hega_Parser
  imports Hega_Lexer
begin

text \<open>
  The grammar half of \<open>class SQLParser\<close> (\<open>parser/parser.cpp\<close>, lines 25 to 37 and 135 to
  318).  The expression parser is a family of mutually recursive functions as in the
  source; \<open>orLoop\<close> and \<open>andLoop\<close> are the \<open>while (tryKeyword(..))\<close> loops of \<open>parseOr\<close> and
  \<open>parseAnd\<close>.  It is total: the termination proof rests on the fact, shown first for the
  partial functions, that every one of them that returns has read at least one character.
\<close>

section \<open>Definitions\<close>

text \<open>The operator of \<open>parseComparison\<close>: the two-character operators are tried first.\<close>

definition twoChars :: "char \<Rightarrow> char \<Rightarrow> Lexer \<Rightarrow> bool" where
  "twoChars a b p \<longleftrightarrow> lx_pos p + 1 < length (lx_src p) \<and> lx_src p ! lx_pos p = a
                       \<and> lx_src p ! (lx_pos p + 1) = b"

definition readOp :: "Lexer \<Rightarrow> (CmpKind \<times> Lexer) option" where
  "readOp p =
     (if twoChars CHR ''!'' CHR ''='' p then Some (NotEqual, advance (advance p))
      else if twoChars CHR ''>'' CHR ''='' p then Some (GreaterEqual, advance (advance p))
      else if twoChars CHR ''<'' CHR ''='' p then Some (LessEqual, advance (advance p))
      else if cur p = CHR ''='' then Some (Equal, advance p)
      else if cur p = CHR ''>'' then Some (GreaterThan, advance p)
      else if cur p = CHR ''<'' then Some (LessThan, advance p)
      else None)"

function parseExpr :: "Lexer \<Rightarrow> (ASTExpr \<times> Lexer) result"
  and parseOr :: "Lexer \<Rightarrow> (ASTExpr \<times> Lexer) result"
  and orLoop :: "ASTExpr \<Rightarrow> Lexer \<Rightarrow> (ASTExpr \<times> Lexer) result"
  and parseAnd :: "Lexer \<Rightarrow> (ASTExpr \<times> Lexer) result"
  and andLoop :: "ASTExpr \<Rightarrow> Lexer \<Rightarrow> (ASTExpr \<times> Lexer) result"
  and parseNot :: "Lexer \<Rightarrow> (ASTExpr \<times> Lexer) result"
  and parseComparison :: "Lexer \<Rightarrow> (ASTExpr \<times> Lexer) result"
  and parsePrimary :: "Lexer \<Rightarrow> (ASTExpr \<times> Lexer) result"
where
  "parseExpr p = parseOr p"
| "parseOr p = bindE (parseAnd p) (\<lambda>(left, p1). orLoop left p1)"
| "orLoop left p =
     (let (found, p1) = tryKeyword ''OR'' p in
      if found then bindE (parseAnd p1) (\<lambda>(right, p2). orLoop (Or left right) p2)
      else Inr (left, p1))"
| "parseAnd p = bindE (parseNot p) (\<lambda>(left, p1). andLoop left p1)"
| "andLoop left p =
     (let (found, p1) = tryKeyword ''AND'' p in
      if found then bindE (parseNot p1) (\<lambda>(right, p2). andLoop (And left right) p2)
      else Inr (left, p1))"
| "parseNot p =
     (let (found, p1) = tryKeyword ''NOT'' p in
      if found then bindE (parseNot p1) (\<lambda>(e, p2). Inr (NotExpr e, p2))
      else parseComparison p1)"
| "parseComparison p =
     bindE (parsePrimary p) (\<lambda>(left, p1).
       let p2 = skipWS p1 in
       if atEnd p2 then Inr (left, p2)
       else (case readOp p2 of
               None \<Rightarrow> Inr (left, p2)
             | Some (k, p3) \<Rightarrow>
                 bindE (parsePrimary p3) (\<lambda>(right, p4). Inr (Comparison k left right, p4))))"
| "parsePrimary p =
     (let p1 = skipWS p in
      if atEnd p1 then Inl (ParseError ''Expected expression'')
      else if cur p1 = CHR ''('' then
        bindE (parseExpr (advance p1)) (\<lambda>(e, p2).
          bindE (expectChar CHR '')'' p2) (\<lambda>p3. Inr (e, p3)))
      else if isdigit (cur p1) \<or> cur p1 = CHR ''-'' then
        bindE (consumeInt p1) (\<lambda>(v, p2). Inr (IntLiteral v, p2))
      else if cur p1 = quote then
        bindE (consumeString p1) (\<lambda>(s, p2). Inr (StringLiteral s, p2))
      else bindE (consumeQualifiedIdent p1) (\<lambda>(name, p2). Inr (ColumnRef name, p2)))"
  by pat_completeness auto

lemma readOp_advances: "\<not> atEnd p \<Longrightarrow> readOp p = Some (k, q) \<Longrightarrow> advances p q"
  by (auto simp: readOp_def split: if_splits
      intro: advances_advance advances_then [OF advances_advance])

lemma skip_advances: "advances (skipWS p) q \<Longrightarrow> advances p q"
  by (blast intro: stays_advances skipWS_stays)

lemma paren_advances:
  "\<not> atEnd (skipWS p) \<Longrightarrow> advances (advance (skipWS p)) b \<Longrightarrow> advances b q \<Longrightarrow> advances p q"
  by (meson skip_advances advances_advance advances_then advances_stays)

lemma operand_advances:
  "advances p r \<Longrightarrow> \<not> atEnd (skipWS r) \<Longrightarrow> readOp (skipWS r) = Some (k, s) \<Longrightarrow> advances s q
     \<Longrightarrow> advances p q"
  by (meson advances_then advances_stays readOp_advances skip_advances)

lemma parse_progress_partial:
  shows "parseExpr_parseOr_orLoop_parseAnd_andLoop_parseNot_parseComparison_parsePrimary_dom
           (Inl (Inl (Inl p1))) \<Longrightarrow> parseExpr p1 = Inr (e1, q1) \<Longrightarrow> advances p1 q1"
    and "parseExpr_parseOr_orLoop_parseAnd_andLoop_parseNot_parseComparison_parsePrimary_dom
           (Inl (Inl (Inr p2))) \<Longrightarrow> parseOr p2 = Inr (e2, q2) \<Longrightarrow> advances p2 q2"
    and "parseExpr_parseOr_orLoop_parseAnd_andLoop_parseNot_parseComparison_parsePrimary_dom
           (Inl (Inr (Inl (l3, p3)))) \<Longrightarrow> orLoop l3 p3 = Inr (e3, q3) \<Longrightarrow> stays p3 q3"
    and "parseExpr_parseOr_orLoop_parseAnd_andLoop_parseNot_parseComparison_parsePrimary_dom
           (Inl (Inr (Inr p4))) \<Longrightarrow> parseAnd p4 = Inr (e4, q4) \<Longrightarrow> advances p4 q4"
    and "parseExpr_parseOr_orLoop_parseAnd_andLoop_parseNot_parseComparison_parsePrimary_dom
           (Inr (Inl (Inl (l5, p5)))) \<Longrightarrow> andLoop l5 p5 = Inr (e5, q5) \<Longrightarrow> stays p5 q5"
    and "parseExpr_parseOr_orLoop_parseAnd_andLoop_parseNot_parseComparison_parsePrimary_dom
           (Inr (Inl (Inr p6))) \<Longrightarrow> parseNot p6 = Inr (e6, q6) \<Longrightarrow> advances p6 q6"
    and "parseExpr_parseOr_orLoop_parseAnd_andLoop_parseNot_parseComparison_parsePrimary_dom
           (Inr (Inr (Inl p7))) \<Longrightarrow> parseComparison p7 = Inr (e7, q7) \<Longrightarrow> advances p7 q7"
    and "parseExpr_parseOr_orLoop_parseAnd_andLoop_parseNot_parseComparison_parsePrimary_dom
           (Inr (Inr (Inr p8))) \<Longrightarrow> parsePrimary p8 = Inr (e8, q8) \<Longrightarrow> advances p8 q8"
proof (induction p1 and p2 and l3 p3 and p4 and l5 p5 and p6 and p7 and p8
    arbitrary: e1 q1 and e2 q2 and e3 q3 and e4 q4 and e5 q5 and e6 q6 and e7 q7 and e8 q8
    rule: parseExpr_parseOr_orLoop_parseAnd_andLoop_parseNot_parseComparison_parsePrimary.pinduct)
  case (1 p)
  then show ?case by (simp add: parseExpr.psimps)
next
  case (2 p)
  then show ?case
    by (auto simp: parseOr.psimps bindE_eq_Inr intro: advances_then)
next
  case (3 left p)
  then show ?case
    by (fastforce simp: orLoop.psimps bindE_eq_Inr split: prod.splits if_splits
        intro: tryKeyword_stays stays_trans advances_stays)
next
  case (4 p)
  then show ?case
    by (auto simp: parseAnd.psimps bindE_eq_Inr intro: advances_then)
next
  case (5 left p)
  then show ?case
    by (fastforce simp: andLoop.psimps bindE_eq_Inr split: prod.splits if_splits
        intro: tryKeyword_stays stays_trans advances_stays)
next
  case (6 p)
  then show ?case
    by (fastforce simp: parseNot.psimps bindE_eq_Inr split: prod.splits if_splits
        intro: tryKeyword_stays stays_advances)
next
  case (7 p)
  then show ?case
    by (auto simp: parseComparison.psimps bindE_eq_Inr Let_def
        split: prod.splits if_splits option.splits
        intro: skipWS_stays advances_then operand_advances)
next
  case (8 p)
  then show ?case
    by (auto simp: parsePrimary.psimps bindE_eq_Inr Let_def
        split: prod.splits if_splits
        intro: skip_advances consumeInt_advances consumeString_advances
          consumeQualifiedIdent_advances)
      (blast intro: paren_advances expectChar_advances)
qed

lemma keyword_remaining:
  "(True, q) = tryKeyword kw p \<Longrightarrow> kw \<noteq> [] \<Longrightarrow> remaining q < remaining p"
  by (metis advances_remaining tryKeyword_advances)

lemma no_keyword_remaining: "(False, q) = tryKeyword kw p \<Longrightarrow> remaining q \<le> remaining p"
  by (metis stays_remaining tryKeyword_stays)

lemma operand_remaining:
  "advances p r \<Longrightarrow> \<not> atEnd (skipWS r) \<Longrightarrow> readOp (skipWS r) = Some (k, s)
     \<Longrightarrow> remaining s < remaining p"
  by (meson advances_remaining advances_stays advances_then readOp_advances skip_advances)

lemma paren_remaining: "\<not> atEnd (skipWS p) \<Longrightarrow> remaining (advance (skipWS p)) < remaining p"
  by (meson advances_remaining advances_advance skip_advances)

lemmas parse_remaining_partial =
  parse_progress_partial(4) [rotated, THEN advances_remaining]
  parse_progress_partial(6) [rotated, THEN advances_remaining]

lemma parse_total:
  "All parseExpr_parseOr_orLoop_parseAnd_andLoop_parseNot_parseComparison_parsePrimary_dom"
proof (relation "measure (case_sum
      (case_sum (case_sum (\<lambda>p. 8 * remaining p + 6) (\<lambda>p. 8 * remaining p + 5))
                (case_sum (\<lambda>(l, p). 8 * remaining p + 7) (\<lambda>p. 8 * remaining p + 4)))
      (case_sum (case_sum (\<lambda>(l, p). 8 * remaining p + 7) (\<lambda>p. 8 * remaining p + 3))
                (case_sum (\<lambda>p. 8 * remaining p + 2) (\<lambda>p. 8 * remaining p + 1))))")
qed (auto dest!: keyword_remaining no_keyword_remaining
      dest: paren_remaining parse_remaining_partial
        parse_progress_partial(8) [rotated, THEN operand_remaining])

termination parseExpr
  by (rule parse_total)

declare parseExpr.simps [simp del] parseOr.simps [simp del] orLoop.simps [simp del]
  parseAnd.simps [simp del] andLoop.simps [simp del] parseNot.simps [simp del]
  parseComparison.simps [simp del] parsePrimary.simps [simp del]

text \<open>The progress facts, now without the domain.\<close>

lemma parse_progress [progress]:
  "parseExpr p = Inr (e, q) \<Longrightarrow> advances p q"
  "parseOr p = Inr (e, q) \<Longrightarrow> advances p q"
  "orLoop l p = Inr (e, q) \<Longrightarrow> stays p q"
  "parseAnd p = Inr (e, q) \<Longrightarrow> advances p q"
  "andLoop l p = Inr (e, q) \<Longrightarrow> stays p q"
  "parseNot p = Inr (e, q) \<Longrightarrow> advances p q"
  "parseComparison p = Inr (e, q) \<Longrightarrow> advances p q"
  "parsePrimary p = Inr (e, q) \<Longrightarrow> advances p q"
  by (erule parse_progress_partial [OF spec [OF parse_total]])+

section \<open>Statements\<close>

text \<open>\<open>parseTableRef\<close>: without \<open>AS\<close>, an identifier that is not one of six upper-case keywords
  is the alias; a \<open>ParseError\<close> of the attempt is caught and the position restored.\<close>

definition aliasStops :: "string list" where
  "aliasStops = [''WHERE'', ''ORDER'', ''LIMIT'', ''JOIN'', ''INNER'', ''ON'']"

definition parseTableRef :: "Lexer \<Rightarrow> (TableRef \<times> Lexer) result" where
  "parseTableRef p =
     bindE (consumeIdent p) (\<lambda>(name, p1).
       let (as, p2) = tryKeyword ''AS'' (skipWS p1) in
       if as then bindE (consumeIdent p2) (\<lambda>(a, p3).
                    Inr (\<lparr>tr_tableName = name, tr_alias = a\<rparr>, p3))
       else (case consumeIdent p2 of
               Inr (candidate, p3) \<Rightarrow>
                 (if candidate \<notin> set aliasStops
                  then Inr (\<lparr>tr_tableName = name, tr_alias = candidate\<rparr>, p3)
                  else Inr (\<lparr>tr_tableName = name, tr_alias = name\<rparr>, p2))
             | Inl (ParseError _) \<Rightarrow> Inr (\<lparr>tr_tableName = name, tr_alias = name\<rparr>, p2)
             | Inl e \<Rightarrow> Inl e))"

function projLoop :: "string list \<Rightarrow> Lexer \<Rightarrow> (string list \<times> Lexer) result" where
  "projLoop cols p =
     (if looksAt CHR '','' p
      then bindE (consumeQualifiedIdent (advance p)) (\<lambda>(c, p1). projLoop (cols @ [c]) (skipWS p1))
      else Inr (cols, p))"
  by pat_completeness auto

lemma comma_remaining:
  "looksAt c p \<Longrightarrow> stays (advance p) q \<Longrightarrow> remaining (skipWS q) < remaining p"
  unfolding looksAt_def
  by (meson advances_remaining advances_advance advances_then skipWS_stays)

termination projLoop
proof (relation "measure (\<lambda>(cols, p). remaining p)")
qed (auto dest!: consumeQualifiedIdent_advances advances_stays intro: comma_remaining)

definition parseProjectionList :: "Lexer \<Rightarrow> (string list \<times> Lexer) result" where
  "parseProjectionList p =
     (let p1 = skipWS p in
      if looksAt CHR ''*'' p1 then Inr ([], advance p1)
      else bindE (consumeQualifiedIdent p1) (\<lambda>(c, p2). projLoop [c] (skipWS p2)))"

definition parseOrderItem :: "Lexer \<Rightarrow> (OrderByColumn \<times> Lexer) result" where
  "parseOrderItem p =
     bindE (consumeQualifiedIdent p) (\<lambda>(name, p1).
       let (desc, p2) = tryKeyword ''DESC'' (skipWS p1) in
       if desc then Inr (\<lparr>ob_columnName = name, ob_direction = Descending\<rparr>, p2)
       else let (_, p3) = tryKeyword ''ASC'' p2 in
            Inr (\<lparr>ob_columnName = name, ob_direction = Ascending\<rparr>, p3))"

lemma parseOrderItem_stays: "parseOrderItem p = Inr (c, q) \<Longrightarrow> stays p q"
proof -
  assume a: "parseOrderItem p = Inr (c, q)"
  then obtain n p1 where c: "consumeQualifiedIdent p = Inr (n, p1)"
    by (auto simp: parseOrderItem_def bindE_eq_Inr)
  obtain d p2 where d: "tryKeyword ''DESC'' (skipWS p1) = (d, p2)"
    by (cases "tryKeyword ''DESC'' (skipWS p1)")
  have "stays p2 q"
    using a c d
    by (auto simp: parseOrderItem_def Let_def split: if_splits prod.splits
        intro: tryKeyword_stays)
  with c d show ?thesis
    by (meson consumeQualifiedIdent_advances advances_stays stays_trans skipWS_stays
        tryKeyword_stays)
qed

function orderLoop :: "OrderByColumn list \<Rightarrow> Lexer \<Rightarrow> (OrderByColumn list \<times> Lexer) result" where
  "orderLoop cols p =
     (if looksAt CHR '','' p
      then bindE (parseOrderItem (advance p)) (\<lambda>(c, p1). orderLoop (cols @ [c]) (skipWS p1))
      else Inr (cols, p))"
  by pat_completeness auto
termination
proof (relation "measure (\<lambda>(cols, p). remaining p)")
qed (auto dest!: parseOrderItem_stays intro: comma_remaining)

definition parseOrderByList :: "Lexer \<Rightarrow> (OrderByColumn list \<times> Lexer) result" where
  "parseOrderByList p = bindE (parseOrderItem p) (\<lambda>(c, p1). orderLoop [c] (skipWS p1))"

text \<open>The \<open>while (true)\<close> loop over \<open>[INNER] JOIN t ON e\<close>.\<close>

function joinLoop :: "JoinClause list \<Rightarrow> Lexer \<Rightarrow> (JoinClause list \<times> Lexer) result" where
  "joinLoop joins p =
     (let (_, p1) = tryKeyword ''INNER'' (skipWS p); (found, p2) = tryKeyword ''JOIN'' p1 in
      if found
      then bindE (parseTableRef p2) (\<lambda>(t, p3).
             bindE (expectKeyword ''ON'' p3) (\<lambda>p4.
             bindE (parseExpr p4) (\<lambda>(e, p5).
               joinLoop (joins @ [\<lparr>jc_rightTable = t, jc_condition = e\<rparr>]) p5)))
      else Inr (joins, p2))"
  by pat_completeness auto

lemma parseTableRef_advances [progress]:
  assumes "parseTableRef p = Inr (t, q)"
  shows "advances p q"
proof -
  from assms obtain n p1 where c: "consumeIdent p = Inr (n, p1)"
    by (auto simp: parseTableRef_def bindE_eq_Inr)
  obtain b p2 where k: "tryKeyword ''AS'' (skipWS p1) = (b, p2)"
    by (cases "tryKeyword ''AS'' (skipWS p1)")
  have "stays p1 p2"
    using k by (blast intro: stays_trans skipWS_stays tryKeyword_stays)
  moreover have "stays p2 q"
    using assms c k
    by (auto simp: parseTableRef_def bindE_eq_Inr
        split: if_splits sum.splits err.splits prod.splits
        dest: consumeIdent_advances advances_stays)
  ultimately show ?thesis
    using c by (blast intro: advances_then stays_trans consumeIdent_advances)
qed

lemma join_remaining:
  assumes "(b, p1) = tryKeyword ''INNER'' (skipWS p)" "(True, p2) = tryKeyword ''JOIN'' p1"
    "parseTableRef p2 = Inr (t, p3)" "expectKeyword ''ON'' p3 = Inr p4"
    "parseExpr p4 = Inr (e, p5)"
  shows "remaining p5 < remaining p"
proof -
  have "stays p p1" using assms(1) by (metis stays_trans skipWS_stays tryKeyword_stays)
  moreover have "advances p1 p2" using assms(2) by (metis tryKeyword_advances list.distinct(1))
  moreover have "stays p2 p3" using assms(3) by (blast intro: advances_stays parseTableRef_advances)
  moreover have "stays p3 p4"
    using assms(4) by (simp add: advances_stays expectKeyword_advances)
  moreover have "stays p4 p5" using assms(5) by (blast intro: advances_stays parse_progress)
  ultimately show ?thesis
    by (meson advances_remaining advances_then stays_advances)
qed

termination joinLoop
proof (relation "measure (\<lambda>(joins, p). remaining p)")
qed (auto intro: join_remaining)

definition parseSelect :: "Lexer \<Rightarrow> (SelectStatement \<times> Lexer) result" where
  "parseSelect p =
     bindE (expectKeyword ''SELECT'' p) (\<lambda>p1.
     bindE (parseProjectionList p1) (\<lambda>(projections, p2).
     bindE (expectKeyword ''FROM'' p2) (\<lambda>p3.
     bindE (parseTableRef p3) (\<lambda>(from, p4).
     bindE (joinLoop [] p4) (\<lambda>(joins, p5).
     bindE (let (found, p6) = tryKeyword ''WHERE'' (skipWS p5) in
            if found then bindE (parseExpr p6) (\<lambda>(e, p7). Inr (Some e, p7))
            else Inr (None, p6)) (\<lambda>(whereClause, p8).
     bindE (let (found, p9) = tryKeyword ''ORDER'' (skipWS p8) in
            if found then bindE (expectKeyword ''BY'' p9) parseOrderByList
            else Inr ([], p9)) (\<lambda>(orderBy, p10).
     bindE (let (found, p11) = tryKeyword ''LIMIT'' (skipWS p10) in
            if found
            then bindE (consumeInt p11) (\<lambda>(n, p12).
                   if n < 0 then Inl (ParseError ''LIMIT value must be non-negative'')
                   else Inr (n, p12))
            else Inr (- 1, p11)) (\<lambda>(limitCount, p13).
     Inr (\<lparr>st_projections = projections, st_tableName = tr_tableName from,
           st_tableAlias = tr_alias from, st_joins = joins, st_whereClause = whereClause,
           st_orderByColumns = orderBy, st_limitCount = limitCount\<rparr>, p13)))))))))"

definition parse :: "string \<Rightarrow> SelectStatement result" where
  "parse sql =
     bindE (parseSelect \<lparr>lx_src = sql, lx_pos = 0\<rparr>) (\<lambda>(stmt, p).
       let p1 = skipWS p;
           p2 = (if looksAt CHR '';'' p1 then advance p1 else p1);
           p3 = skipWS p2
       in if \<not> atEnd p3
          then Inl (ParseError (''Unexpected token at position '' @ show_nat (lx_pos p3)
                                @ '': '' @ [quote, cur p3, quote]))
          else Inr stmt)"

declare projLoop.simps [simp del] orderLoop.simps [simp del] joinLoop.simps [simp del]

end
