(* ===== verification/Hega_Roundtrip.thy ===== *)
theory Hega_Roundtrip
  imports Hega_Parser
begin

text \<open>
  Printing and parsing: \<open>parse (stmtToSQL s)\<close> returns \<open>s\<close> for every canonical statement.
  A lexer that stands between \<open>pre\<close> and \<open>r\<close> is written \<open>lxAt pre r\<close>; on such states every
  lexer helper has a rewriting equation, so the proofs are evaluations.  The parser functions
  are compared up to white space (\<open>skipWS q = skipWS (lxAt pre r)\<close>), because each of them
  starts by skipping it.
\<close>

section \<open>Definitions\<close>

definition lxAt :: "string \<Rightarrow> string \<Rightarrow> Lexer" where
  "lxAt pre r = \<lparr>lx_src = pre @ r, lx_pos = length pre\<rparr>"

definition isIdent :: "string \<Rightarrow> bool" where
  "isIdent n \<longleftrightarrow> n \<noteq> [] \<and> (isalpha (hd n) \<or> hd n = CHR ''_'') \<and> list_all identChar n"

definition isQual :: "string \<Rightarrow> bool" where
  "isQual n \<longleftrightarrow> (case find_char CHR ''.'' n of
                  None \<Rightarrow> isIdent n
                | Some d \<Rightarrow> isIdent (take d n) \<and> isIdent (drop (d + 1) n))"

fun primaryExpr :: "ASTExpr \<Rightarrow> bool" where
  "primaryExpr (Comparison k l r) = False"
| "primaryExpr (NotExpr e) = False"
| "primaryExpr e = True"

text \<open>The expressions the grammar can spell: the operands of a comparison are primaries, a
  column is not called \<open>NOT\<close>, an integer is in range and a string has no quote (the printer
  does not double it).\<close>

fun canonExpr :: "ASTExpr \<Rightarrow> bool" where
  "canonExpr (ColumnRef n) = (isQual n \<and> toUpper (qualifier n n) \<noteq> ''NOT'')"
| "canonExpr (IntLiteral i) = (- INT64_MAX \<le> i \<and> i \<le> INT64_MAX)"
| "canonExpr (StringLiteral s) = list_all (\<lambda>c. code c \<le> 127 \<and> c \<noteq> quote) s"
| "canonExpr (Comparison k l r) = (primaryExpr l \<and> primaryExpr r \<and> canonExpr l \<and> canonExpr r)"
| "canonExpr (And l r) = (canonExpr l \<and> canonExpr r)"
| "canonExpr (Or l r) = (canonExpr l \<and> canonExpr r)"
| "canonExpr (NotExpr e) = canonExpr e"

definition canonTable :: "string \<Rightarrow> string \<Rightarrow> bool" where
  "canonTable name alias \<longleftrightarrow> isIdent name \<and> isIdent alias"

definition canonStmt :: "SelectStatement \<Rightarrow> bool" where
  "canonStmt s \<longleftrightarrow>
     list_all isQual (st_projections s)
     \<and> canonTable (st_tableName s) (st_tableAlias s)
     \<and> list_all (\<lambda>j. canonTable (tr_tableName (jc_rightTable j)) (tr_alias (jc_rightTable j))
                     \<and> canonExpr (jc_condition j)) (st_joins s)
     \<and> (case st_whereClause s of None \<Rightarrow> True | Some e \<Rightarrow> canonExpr e)
     \<and> list_all (\<lambda>c. isQual (ob_columnName c)) (st_orderByColumns s)
     \<and> - 1 \<le> st_limitCount s \<and> st_limitCount s \<le> INT64_MAX"

section \<open>The lexer on \<open>lxAt\<close>\<close>

definition ends :: "string \<Rightarrow> bool" where
  "ends r \<longleftrightarrow> r = [] \<or> \<not> identChar (hd r)"

definition nextChar :: "string \<Rightarrow> char option" where
  "nextChar r = (case dropWhile isspace r of [] \<Rightarrow> None | c # _ \<Rightarrow> Some c)"

named_theorems at_simps \<open>the lexer on lxAt\<close>

lemma lxAt_simps [simp, at_simps]:
  "atEnd (lxAt pre r) \<longleftrightarrow> r = []"
  "cur (lxAt pre (c # r)) = c"
  "advance (lxAt pre (c # r)) = lxAt (pre @ [c]) r"
  "looksAt c (lxAt pre []) \<longleftrightarrow> False"
  "looksAt c (lxAt pre (d # r)) \<longleftrightarrow> d = c"
  by (auto simp: lxAt_def atEnd_def cur_def advance_def looksAt_def nth_append)

lemma skipWS_at: "skipWS (lxAt pre r) = lxAt (pre @ takeWhile isspace r) (dropWhile isspace r)"
proof (induction r arbitrary: pre)
  case Nil
  then show ?case by (simp add: skipWS.simps [of "lxAt pre []"])
next
  case (Cons c r)
  then show ?case by (simp add: skipWS.simps [of "lxAt pre (c # r)"])
qed

lemma skipWS_idem [simp]: "skipWS (skipWS p) = skipWS p"
proof (induction p rule: skipWS.induct)
  case (1 p)
  show ?case
  proof (cases "\<not> atEnd p \<and> isspace (cur p)")
    case True
    with 1 show ?thesis by (simp add: skipWS.simps [of p])
  next
    case False
    then have "skipWS p = p" by (auto simp: skipWS.simps [of p])
    then show ?thesis by simp
  qed
qed

lemma char_classes [simp, at_simps]:
  "isspace CHR '' ''" "\<not> identChar CHR '' ''" "\<not> identChar CHR '',''" "\<not> identChar CHR '')''"
  "\<not> identChar CHR ''(''" "\<not> isspace CHR ''(''" "\<not> isspace CHR '',''" "\<not> isspace CHR '')''"
  "\<not> identChar CHR ''.''" "\<not> identChar quote" "\<not> isspace quote" "\<not> identChar CHR ''-''"
  "\<not> isspace CHR ''-''" "\<not> isspace CHR ''.''" "\<not> isdigit quote" "\<not> isdigit CHR ''(''"
  "quote \<noteq> CHR ''(''" "quote \<noteq> CHR ''-''"
  by (auto simp: isspace_def identChar_def isalnum_def isalpha_def isdigit_def code_def quote_def)

lemma identChar_not_space: "identChar c \<Longrightarrow> \<not> isspace c"
  by (auto simp: isspace_def identChar_def isalnum_def isalpha_def isdigit_def code_def)

lemma identChar_not_quote: "identChar c \<Longrightarrow> c \<noteq> quote"
  by (metis char_classes(10))

lemma scanWord_at:
  "list_all identChar w \<Longrightarrow> ends r \<Longrightarrow> scanWord v (lxAt pre (w @ r)) = (v @ w, lxAt (pre @ w) r)"
proof (induction w arbitrary: v pre)
  case Nil
  then show ?case by (cases r) (auto simp: ends_def scanWord.simps [of v])
next
  case (Cons c w)
  then show ?case by (simp add: scanWord.simps [of v])
qed

lemma ends_simps [simp]: "ends []" "\<not> identChar c \<Longrightarrow> ends (c # r)"
  by (simp_all add: ends_def)

lemma skipWS_at_word:
  "list_all identChar w \<Longrightarrow> w \<noteq> [] \<Longrightarrow> skipWS (lxAt pre (w @ r)) = lxAt pre (w @ r)"
  by (cases w) (auto simp: skipWS_at dest: identChar_not_space)

lemma tryKeyword_at:
  assumes "list_all identChar w" "w \<noteq> []" "ends r"
  shows "tryKeyword kw (lxAt pre (w @ r)) =
     (if toUpper w = kw then (True, lxAt (pre @ w) r) else (False, lxAt pre (w @ r)))"
  using assms by (simp add: tryKeyword_def skipWS_at_word scanWord_at)

text \<open>A keyword is not found where no word starts.\<close>

lemma tryKeyword_no_word:
  assumes "kw \<noteq> []" "ends r" "r = [] \<or> \<not> isspace (hd r)"
  shows "tryKeyword kw (lxAt pre r) = (False, lxAt pre r)"
proof -
  have "skipWS (lxAt pre r) = lxAt pre r"
    using assms(3) by (cases r) (auto simp: skipWS_at)
  moreover have "scanWord [] (lxAt pre r) = ([], lxAt pre r)"
    using scanWord_at [of "[]" r "[]" pre] assms(2) by simp
  ultimately show ?thesis using assms(1) by (auto simp: tryKeyword_def toUpper_def)
qed

text \<open>Every consumer skips white space first.\<close>

lemma skip_first:
  "tryKeyword kw (skipWS p) = tryKeyword kw p"
  "expectKeyword kw (skipWS p) = expectKeyword kw p"
  "expectChar c (skipWS p) = expectChar c p"
  "consumeIdent (skipWS p) = consumeIdent p"
  "consumeQualifiedIdent (skipWS p) = consumeQualifiedIdent p"
  "consumeInt (skipWS p) = consumeInt p"
  "parsePrimary (skipWS p) = parsePrimary p"
  by (simp_all add: tryKeyword_def expectKeyword_def expectChar_def consumeIdent_def
      consumeQualifiedIdent_def consumeInt_def parsePrimary.simps Let_def)

lemma skip_first_parse:
  "parseComparison (skipWS p) = parseComparison p"
  "parseNot (skipWS p) = parseNot p"
  "parseAnd (skipWS p) = parseAnd p"
  "parseOr (skipWS p) = parseOr p"
  "parseExpr (skipWS p) = parseExpr p"
  "orLoop l (skipWS p) = orLoop l p"
  "andLoop l (skipWS p) = andLoop l p"
proof -
  show c: "parseComparison (skipWS p) = parseComparison p"
    by (simp add: parseComparison.simps skip_first)
  show n: "parseNot (skipWS p) = parseNot p"
    by (simp add: parseNot.simps skip_first)
  show a: "parseAnd (skipWS p) = parseAnd p"
    by (simp add: parseAnd.simps n)
  show o: "parseOr (skipWS p) = parseOr p"
    by (simp add: parseOr.simps a)
  show "parseExpr (skipWS p) = parseExpr p"
    by (simp add: parseExpr.simps o)
  show "orLoop l (skipWS p) = orLoop l p" "andLoop l (skipWS p) = andLoop l p"
    by (simp_all add: orLoop.simps [of l] andLoop.simps [of l] skip_first)
qed

section \<open>Identifiers and literals\<close>

lemma isIdent_word: "isIdent n \<Longrightarrow> list_all identChar n \<and> n \<noteq> []"
  by (simp add: isIdent_def)

lemma consumeIdent_at:
  assumes "isIdent n" "ends r"
  shows "consumeIdent (lxAt pre (n @ r)) = Inr (n, lxAt (pre @ n) r)"
proof -
  have "skipWS (lxAt pre (n @ r)) = lxAt pre (n @ r)"
    using assms by (simp add: skipWS_at_word isIdent_word)
  moreover have "isalpha (cur (lxAt pre (n @ r))) \<or> cur (lxAt pre (n @ r)) = CHR ''_''"
    using assms(1) by (cases n) (auto simp: isIdent_def)
  ultimately show ?thesis
    using assms by (auto simp: consumeIdent_def Let_def scanWord_at isIdent_word)
qed

lemma nextChar_at: "looksAt c (skipWS (lxAt pre r)) \<longleftrightarrow> nextChar r = Some c"
  by (cases "dropWhile isspace r")
    (simp_all add: skipWS_at nextChar_def del: dropWhile_eq_Nil_conv)

lemma atEnd_skipWS_at: "atEnd (skipWS (lxAt pre r)) \<longleftrightarrow> nextChar r = None"
  by (cases "dropWhile isspace r")
    (simp_all add: skipWS_at nextChar_def del: dropWhile_eq_Nil_conv)

lemma nextChar_simps [simp]:
  "nextChar [] = None" "\<not> isspace c \<Longrightarrow> nextChar (c # r) = Some c"
  "isspace c \<Longrightarrow> nextChar (c # r) = nextChar r"
  by (simp_all add: nextChar_def)

lemma consumeQualifiedIdent_at:
  assumes "isQual n" "ends r" "nextChar r \<noteq> Some CHR ''.''"
  obtains q where "consumeQualifiedIdent (lxAt pre (n @ r)) = Inr (n, q)"
    "skipWS q = skipWS (lxAt (pre @ n) r)"
proof (cases "find_char CHR ''.'' n")
  case None
  with assms(1) have "isIdent n" by (simp add: isQual_def del: find_char_None)
  then have "consumeQualifiedIdent (lxAt pre (n @ r)) = Inr (n, skipWS (lxAt (pre @ n) r))"
    using assms(2,3) by (simp add: consumeQualifiedIdent_def consumeIdent_at nextChar_at)
  then show thesis using that by simp
next
  case (Some d)
  then obtain b where b: "n = take d n @ CHR ''.'' # b" "d < length n"
    by (auto simp: find_char_Some)
  define a where "a = take d n"
  have n: "n = a @ CHR ''.'' # b" using b by (simp add: a_def)
  have "length a = d" using b(2) by (simp add: a_def)
  then have "drop (d + 1) n = b" by (auto simp: n)
  with assms(1) Some have i: "isIdent a" "isIdent b" by (simp_all add: isQual_def a_def)
  have w: "skipWS (lxAt (pre @ a) (CHR ''.'' # b @ r)) = lxAt (pre @ a) (CHR ''.'' # b @ r)"
    by (simp add: skipWS_at)
  have "consumeQualifiedIdent (lxAt pre (a @ CHR ''.'' # b @ r)) = Inr (n, lxAt (pre @ n) r)"
    using i assms(2) consumeIdent_at [of b r "pre @ a @ ''.''"]
    by (simp add: consumeQualifiedIdent_def consumeIdent_at w n)
  then show thesis using that by (simp add: n)
qed

definition digitsVal :: "string \<Rightarrow> int \<Rightarrow> int" where
  "digitsVal ds v = fold (\<lambda>c v. v * 10 + int (code c - 48)) ds v"

lemma digitsVal_mono: "0 \<le> v \<Longrightarrow> v \<le> digitsVal ds v"
proof (induction ds arbitrary: v)
  case (Cons c ds)
  then have "v * 10 + int (code c - 48) \<le> digitsVal ds (v * 10 + int (code c - 48))" by simp
  with Cons.prems show ?case by (simp add: digitsVal_def)
qed (simp add: digitsVal_def)

lemma digitLoop_at:
  assumes "list_all isdigit ds" "r = [] \<or> \<not> isdigit (hd r)" "0 \<le> v"
    "digitsVal ds v \<le> INT64_MAX"
  shows "digitLoop v (lxAt pre (ds @ r)) = Inr (digitsVal ds v, lxAt (pre @ ds) r)"
  using assms
proof (induction ds arbitrary: v pre)
  case Nil
  then show ?case by (cases r) (auto simp: digitLoop.simps [of v] digitsVal_def)
next
  case (Cons c ds)
  let ?v = "v * 10 + int (code c - 48)"
  have e: "digitsVal (c # ds) v = digitsVal ds ?v" by (simp add: digitsVal_def)
  have "?v \<le> digitsVal ds ?v" using Cons.prems(3) by (simp add: digitsVal_mono)
  with Cons.prems e have "?v \<le> INT64_MAX" by simp
  with Cons e show ?case by (simp add: digitLoop.simps [of v] Let_def)
qed

lemma digitsVal_append: "digitsVal (a @ b) v = digitsVal b (digitsVal a v)"
  by (simp add: digitsVal_def)

lemma digitsVal_show_nat: "digitsVal (show_nat n) 0 = int n"
proof (induction n rule: show_nat.induct)
  case (1 n)
  have d: "digitsVal [char_of (48 + k)] v = v * 10 + int k" if "k < 10" for k :: nat and v
    using that by (simp add: digitsVal_def code_def)
  show ?case
  proof (cases "n < 10")
    case True
    then show ?thesis by (simp add: show_nat.simps [of n] d)
  next
    case False
    with 1 have "digitsVal (show_nat (n div 10)) 0 = int (n div 10)" by simp
    moreover have "int n = int (n div 10) * 10 + int (n mod 10)"
      by (metis div_mult_mod_eq of_nat_add of_nat_mult of_nat_numeral)
    ultimately show ?thesis
      using False by (simp add: show_nat.simps [of n] digitsVal_append d)
  qed
qed

lemma isdigit_facts: "isdigit c \<Longrightarrow> identChar c \<and> c \<noteq> CHR ''-'' \<and> c \<noteq> quote \<and> c \<noteq> CHR ''(''"
  by (auto simp: identChar_def isalnum_def isdigit_def code_def quote_def)

lemma show_nat_at: "list_all isdigit (show_nat n)"
  by (auto simp: list_all_iff intro: show_nat_digits)

lemma ends_not_digit: "ends r \<Longrightarrow> r = [] \<or> \<not> isdigit (hd r)"
  by (auto simp: ends_def dest: isdigit_facts)

lemma show_nat_Cons: obtains c ds where "show_nat n = c # ds" "isdigit c"
  using show_nat_at [of n] by (cases "show_nat n") auto

lemma consumeInt_at:
  assumes "- INT64_MAX \<le> i" "i \<le> INT64_MAX" "ends r"
  shows "consumeInt (lxAt pre (show_int i @ r)) = Inr (i, lxAt (pre @ show_int i) r)"
proof (cases "i < 0")
  case True
  obtain c ds where c: "show_nat (nat (- i)) = c # ds" "isdigit c" by (rule show_nat_Cons)
  have "digitLoop 0 (lxAt (pre @ ''-'') (show_nat (nat (- i)) @ r))
      = Inr (- i, lxAt ((pre @ ''-'') @ show_nat (nat (- i))) r)"
    using True assms
    by (subst digitLoop_at) (simp_all add: show_nat_at ends_not_digit digitsVal_show_nat)
  with True c show ?thesis by (simp add: consumeInt_def show_int_def Let_def skipWS_at)
next
  case False
  obtain c ds where c: "show_nat (nat i) = c # ds" "isdigit c" by (rule show_nat_Cons)
  have "digitLoop 0 (lxAt pre (show_nat (nat i) @ r)) = Inr (i, lxAt (pre @ show_nat (nat i)) r)"
    using False assms
    by (subst digitLoop_at) (simp_all add: show_nat_at ends_not_digit digitsVal_show_nat)
  with False c show ?thesis
    using isdigit_facts [of c] identChar_not_space [of c]
    by (simp add: consumeInt_def show_int_def Let_def skipWS_at)
qed

lemma stringLoop_at:
  "list_all (\<lambda>c. code c \<le> 127 \<and> c \<noteq> quote) s \<Longrightarrow> r = [] \<or> hd r \<noteq> quote \<Longrightarrow>
   stringLoop v (lxAt pre (s @ quote # r)) = Inr (v @ s, lxAt (pre @ s @ [quote]) r)"
proof (induction s arbitrary: v pre)
  case Nil
  then show ?case by (cases r) (auto simp: stringLoop.simps [of v] Let_def)
next
  case (Cons c s)
  then show ?case by (simp add: stringLoop.simps [of v] Let_def not_less)
qed

lemma consumeString_at:
  "list_all (\<lambda>c. code c \<le> 127 \<and> c \<noteq> quote) s \<Longrightarrow> r = [] \<or> hd r \<noteq> quote \<Longrightarrow>
   consumeString (lxAt pre (quote # s @ quote # r)) = Inr (s, lxAt (pre @ quote # s @ [quote]) r)"
  by (simp add: consumeString_def Let_def skipWS_at stringLoop_at)

section \<open>Expressions\<close>

text \<open>What may follow a primary (\<open>followPrim\<close>) and a whole comparison (\<open>followExpr\<close>): the
  next token neither extends the last one nor is an operator.\<close>

definition followPrim :: "string \<Rightarrow> bool" where
  "followPrim r \<longleftrightarrow> ends r \<and> (r = [] \<or> hd r \<noteq> quote) \<and> nextChar r \<noteq> Some CHR ''.''"

definition opStart :: "char \<Rightarrow> bool" where
  "opStart c \<longleftrightarrow> c = CHR ''='' \<or> c = CHR ''!'' \<or> c = CHR ''<'' \<or> c = CHR ''>''"

definition followExpr :: "string \<Rightarrow> bool" where
  "followExpr r \<longleftrightarrow> followPrim r \<and> (\<forall>c. nextChar r = Some c \<longrightarrow> \<not> opStart c)"

definition parsesStr ::
  "(Lexer \<Rightarrow> (ASTExpr \<times> Lexer) result) \<Rightarrow> string \<Rightarrow> ASTExpr \<Rightarrow> string \<Rightarrow> string \<Rightarrow> bool" where
  "parsesStr f x e pre r \<longleftrightarrow> (\<exists>q. f (lxAt pre (x @ r)) = Inr (e, q)
                               \<and> skipWS q = skipWS (lxAt (pre @ x) r))"

abbreviation parsesAs ::
  "(Lexer \<Rightarrow> (ASTExpr \<times> Lexer) result) \<Rightarrow> ASTExpr \<Rightarrow> string \<Rightarrow> string \<Rightarrow> bool" where
  "parsesAs f e \<equiv> parsesStr f (exprToSQL e) e"

lemma parsesAsE:
  assumes "parsesAs f e pre r"
  obtains q where "f (lxAt pre (exprToSQL e @ r)) = Inr (e, q)"
    "skipWS q = skipWS (lxAt (pre @ exprToSQL e) r)"
  using assms by (auto simp: parsesStr_def)

lemma readOp_at:
  "readOp (lxAt pre (tl (opStr k) @ r)) = Some (k, lxAt (pre @ butlast (tl (opStr k))) (CHR '' '' # r))"
  by (cases k) (simp_all add: readOp_def twoChars_def lxAt_def cur_def advance_def nth_append)

lemma readOp_none: "\<not> opStart c \<Longrightarrow> readOp (lxAt pre (c # r)) = None"
  by (auto simp: readOp_def twoChars_def lxAt_def cur_def nth_append opStart_def)

lemma ident_start:
  assumes "isIdent a"
  obtains c s where "a = c # s" "identChar c" "\<not> isdigit c"
  using assms by (cases a) (auto simp: isIdent_def isalpha_def isdigit_def code_def)

lemma column_start:
  assumes "isQual n"
  obtains c s where "n = c # s" "identChar c" "\<not> isdigit c"
proof (cases "find_char CHR ''.'' n")
  case None
  with assms have "isIdent n" by (simp add: isQual_def del: find_char_None)
  then show thesis using that by (rule ident_start)
next
  case (Some d)
  with assms have "isIdent (take d n)" by (simp add: isQual_def)
  then obtain c s where "take d n = c # s" "identChar c" "\<not> isdigit c" by (rule ident_start)
  then show thesis using that [of c "s @ drop d n"] by (metis append_Cons append_take_drop_id)
qed

lemma identChar_facts:
  "identChar c \<Longrightarrow> c \<noteq> quote \<and> c \<noteq> CHR ''('' \<and> c \<noteq> CHR ''-'' \<and> \<not> isspace c"
  by (auto simp: identChar_not_quote identChar_not_space)

lemma parsePrimary_column:
  assumes "isQual n" "followPrim r"
  shows "parsesAs parsePrimary (ColumnRef n) pre r"
proof -
  obtain c s where c: "n = c # s" "identChar c" "\<not> isdigit c"
    using assms(1) by (rule column_start)
  obtain q where "consumeQualifiedIdent (lxAt pre (n @ r)) = Inr (n, q)"
    "skipWS q = skipWS (lxAt (pre @ n) r)"
    using assms by (auto simp: followPrim_def elim: consumeQualifiedIdent_at)
  with c show ?thesis
    by (simp add: parsesStr_def parsePrimary.simps skipWS_at identChar_facts)
qed

lemma parsePrimary_int:
  assumes "- INT64_MAX \<le> i" "i \<le> INT64_MAX" "followPrim r"
  shows "parsesAs parsePrimary (IntLiteral i) pre r"
proof -
  obtain c s where c: "show_int i = c # s" "isdigit c \<or> c = CHR ''-''"
    by (metis show_int_def show_nat_Cons)
  then have "\<not> isspace c" "c \<noteq> CHR ''(''"
    using isdigit_facts identChar_not_space by (auto simp: char_classes)
  with c consumeInt_at [OF assms(1,2), of r pre] assms(3) show ?thesis
    by (auto simp: parsesStr_def parsePrimary.simps skipWS_at followPrim_def Let_def)
qed

lemma parsePrimary_string:
  assumes "list_all (\<lambda>c. code c \<le> 127 \<and> c \<noteq> quote) s" "followPrim r"
  shows "parsesAs parsePrimary (StringLiteral s) pre r"
  using assms consumeString_at [OF assms(1), of r pre]
  by (simp add: parsesStr_def parsePrimary.simps skipWS_at followPrim_def Let_def)

section \<open>Keywords in general position\<close>

definition nextWord :: "string \<Rightarrow> string" where
  "nextWord r = takeWhile identChar (dropWhile isspace r)"

lemma tryKeyword_nextWord:
  "tryKeyword kw (lxAt pre r) =
     (if toUpper (nextWord r) = kw
      then (True, lxAt (pre @ takeWhile isspace r @ nextWord r)
                       (dropWhile identChar (dropWhile isspace r)))
      else (False, skipWS (lxAt pre r)))"
proof -
  have e: "ends (dropWhile identChar x)" for x
    by (cases "dropWhile identChar x = []")
      (simp_all add: ends_def hd_dropWhile del: dropWhile_eq_Nil_conv)
  have "list_all identChar (takeWhile identChar x)" for x
    by (auto simp: list_all_iff dest: set_takeWhileD)
  with e have "scanWord [] (lxAt p (takeWhile identChar x @ dropWhile identChar x))
      = ([] @ takeWhile identChar x, lxAt (p @ takeWhile identChar x) (dropWhile identChar x))" for p x
    by (intro scanWord_at)
  then show ?thesis by (simp add: tryKeyword_def skipWS_at nextWord_def)
qed

text \<open>Literal upper-case letters: the conditions are evaluated by the simplifier.\<close>

lemma letters [simp]:
  "65 \<le> (of_char c :: nat) \<Longrightarrow> of_char c \<le> (90 :: nat) \<Longrightarrow> identChar c"
  "33 \<le> (of_char c :: nat) \<Longrightarrow> \<not> isspace c"
  "(of_char c :: nat) < 97 \<Longrightarrow> toupper c = c"
  by (auto simp: identChar_def isalnum_def isalpha_def isspace_def toupper_def code_def)

lemma toUpper_simps [simp]: "toUpper [] = []" "toUpper (c # s) = toupper c # toUpper s"
  by (simp_all add: toUpper_def)

lemma nextWord_simps [simp]:
  "identChar c \<Longrightarrow> nextWord (c # r) = c # takeWhile identChar r"
  "nextWord [] = []" "isspace c \<Longrightarrow> nextWord (c # r) = nextWord r"
  "\<not> isspace c \<Longrightarrow> \<not> identChar c \<Longrightarrow> nextWord (c # r) = []"
  by (auto simp add: nextWord_def identChar_not_space)

lemma nextWord_word: "list_all identChar w \<Longrightarrow> ends r \<Longrightarrow> w \<noteq> [] \<Longrightarrow> nextWord (w @ r) = w"
proof (induction w)
  case (Cons c w)
  have "takeWhile identChar (w @ r) = w"
    using Cons.prems(1,2) by (cases r) (auto simp: ends_def takeWhile_append list_all_iff)
  with Cons.prems show ?case by (auto simp: nextWord_def identChar_not_space)
qed simp

lemma loop_stops:
  assumes "skipWS q = skipWS (lxAt pre r)"
  shows "toUpper (nextWord r) \<noteq> ''AND'' \<Longrightarrow> andLoop e q = Inr (e, skipWS q)"
    and "toUpper (nextWord r) \<noteq> ''OR'' \<Longrightarrow> orLoop e q = Inr (e, skipWS q)"
proof -
  have k: "tryKeyword kw q = tryKeyword kw (lxAt pre r)" for kw
    by (metis assms skip_first(1))
  show "toUpper (nextWord r) \<noteq> ''AND'' \<Longrightarrow> andLoop e q = Inr (e, skipWS q)"
    "toUpper (nextWord r) \<noteq> ''OR'' \<Longrightarrow> orLoop e q = Inr (e, skipWS q)"
    by (simp_all add: andLoop.simps [of e q] orLoop.simps [of e q] k tryKeyword_nextWord assms)
qed

lemma parse_space:
  "parseNot (lxAt pre (CHR '' '' # s)) = parseNot (lxAt (pre @ '' '') s)"
  "parseAnd (lxAt pre (CHR '' '' # s)) = parseAnd (lxAt (pre @ '' '') s)"
  "parseExpr (lxAt pre (CHR '' '' # s)) = parseExpr (lxAt (pre @ '' '') s)"
  "parsePrimary (lxAt pre (CHR '' '' # s)) = parsePrimary (lxAt (pre @ '' '') s)"
proof -
  have "skipWS (lxAt pre (CHR '' '' # s)) = skipWS (lxAt (pre @ '' '') s)"
    by (simp add: skipWS_at)
  then show "parseNot (lxAt pre (CHR '' '' # s)) = parseNot (lxAt (pre @ '' '') s)"
    "parseAnd (lxAt pre (CHR '' '' # s)) = parseAnd (lxAt (pre @ '' '') s)"
    "parseExpr (lxAt pre (CHR '' '' # s)) = parseExpr (lxAt (pre @ '' '') s)"
    "parsePrimary (lxAt pre (CHR '' '' # s)) = parsePrimary (lxAt (pre @ '' '') s)"
    by (metis skip_first_parse skip_first)+
qed

section \<open>Expressions parse back\<close>

lemma toUpper_digits: "list_all isdigit w \<Longrightarrow> toUpper w \<noteq> ''NOT''"
  by (cases w) (auto simp: toUpper_def toupper_def isdigit_def code_def)

lemma not_NOT:
  assumes "canonExpr e" "primaryExpr e" "followPrim r"
  shows "toUpper (nextWord (exprToSQL e @ r)) \<noteq> ''NOT''"
proof (cases e)
  case (ColumnRef n)
  show ?thesis
  proof (cases "find_char CHR ''.'' n")
    case None
    with ColumnRef assms have "isIdent n" "toUpper n \<noteq> ''NOT''" "ends r"
      by (simp_all add: isQual_def qualifier_def followPrim_def del: find_char_None)
    with ColumnRef show ?thesis by (simp add: nextWord_word isIdent_word)
  next
    case (Some d)
    then obtain b where b: "n = take d n @ CHR ''.'' # b"
      by (auto simp: find_char_Some)
    from Some ColumnRef assms have i: "isIdent (take d n)" "toUpper (take d n) \<noteq> ''NOT''"
      by (simp_all add: isQual_def qualifier_def)
    have "nextWord (take d n @ (CHR ''.'' # b @ r)) = take d n"
      using isIdent_word [OF i(1)] nextWord_word [of "take d n" "CHR ''.'' # b @ r"]
      by (simp del: take_eq_Nil)
    with ColumnRef i b show ?thesis by (metis append.assoc append_Cons exprToSQL.simps(1))
  qed
next
  case (IntLiteral i)
  show ?thesis
  proof (cases "i < 0")
    case False
    have "nextWord (show_nat (nat i) @ r) = show_nat (nat i)"
      using assms(3) show_nat_at [of "nat i"]
      by (intro nextWord_word) (auto simp: list_all_iff followPrim_def dest: isdigit_facts)
    with False IntLiteral show ?thesis by (simp add: show_int_def toUpper_digits show_nat_at)
  qed (simp add: IntLiteral show_int_def toUpper_def)
qed (use assms(2) in \<open>simp_all add: toUpper_def\<close>)

lemma fall_comparison:
  assumes "parsesStr parsePrimary x e pre r" "followExpr r"
  shows "parsesStr parseComparison x e pre r"
proof -
  obtain q where q: "parsePrimary (lxAt pre (x @ r)) = Inr (e, q)"
    "skipWS q = skipWS (lxAt (pre @ x) r)"
    using assms(1) by (auto simp: parsesStr_def)
  have "parseComparison (lxAt pre (x @ r)) = Inr (e, skipWS q)"
  proof (cases "dropWhile isspace r")
    case Nil
    then have "atEnd (skipWS q)" unfolding q(2) skipWS_at by simp
    with q(1) show ?thesis by (simp add: parseComparison.simps)
  next
    case (Cons c s)
    with assms(2) have "\<not> opStart c" by (simp add: followExpr_def nextChar_def)
    then have "readOp (skipWS q) = None" "\<not> atEnd (skipWS q)"
      using Cons unfolding q(2) skipWS_at by (simp_all add: readOp_none)
    with q(1) show ?thesis by (simp add: parseComparison.simps)
  qed
  with q(2) show ?thesis by (simp add: parsesStr_def)
qed

lemma fall_not:
  assumes "parsesStr parseComparison x e pre r" "toUpper (nextWord (x @ r)) \<noteq> ''NOT''"
  shows "parsesStr parseNot x e pre r"
  using assms
  by (simp add: parsesStr_def parseNot.simps tryKeyword_nextWord skip_first_parse)

lemma follow_op: "followPrim (opStr k @ r)"
  by (cases k) (simp_all add: followPrim_def isspace_def code_def quote_def)

lemma follow_close [simp]: "followExpr (CHR '')'' # r)"
  by (simp add: followExpr_def followPrim_def opStart_def quote_def)

lemma comparison_parses:
  assumes l: "\<And>pre r. followPrim r \<Longrightarrow> parsesAs parsePrimary e1 pre r"
    and r: "\<And>pre r. followPrim r \<Longrightarrow> parsesAs parsePrimary e2 pre r" and f: "followExpr r"
  shows "parsesAs parseComparison (Comparison k e1 e2) pre r"
proof -
  obtain op where op: "opStr k = CHR '' '' # op @ '' ''" "tl (opStr k) = op @ '' ''"
    "\<not> isspace (hd op)" "op \<noteq> []"
    by (cases k) (auto simp: isspace_def code_def)
  let ?s1 = "opStr k @ exprToSQL e2 @ r" and ?p1 = "pre @ exprToSQL e1"
  obtain q where q: "parsePrimary (lxAt pre (exprToSQL e1 @ ?s1)) = Inr (e1, q)"
    "skipWS q = skipWS (lxAt ?p1 ?s1)"
    using l [OF follow_op] by (rule parsesAsE)
  let ?p2 = "?p1 @ '' '' @ op"
  have s: "skipWS q = lxAt (?p1 @ '' '') (tl (opStr k) @ exprToSQL e2 @ r)"
    using op by (cases op) (auto simp: q(2) skipWS_at)
  have o: "readOp (skipWS q) = Some (k, lxAt ?p2 (CHR '' '' # exprToSQL e2 @ r))"
    unfolding s using readOp_at [of "?p1 @ '' ''" k "exprToSQL e2 @ r"] op(2) by simp
  obtain q' where q': "parsePrimary (lxAt (?p2 @ '' '') (exprToSQL e2 @ r)) = Inr (e2, q')"
    "skipWS q' = skipWS (lxAt ((?p2 @ '' '') @ exprToSQL e2) r)"
    using r f unfolding followExpr_def by (metis parsesAsE)
  have "\<not> atEnd (skipWS q)" unfolding s using op by simp
  then have "parseComparison (lxAt pre (exprToSQL e1 @ ?s1)) = Inr (Comparison k e1 e2, q')"
    using q(1) o q'(1) by (simp add: parseComparison.simps parse_space)
  then show ?thesis using q'(2) op(1) by (simp add: parsesStr_def)
qed

text \<open>Inside parentheses: an operand, or two operands joined by \<open>AND\<close> or \<open>OR\<close>.\<close>

lemma parens_primary:
  assumes "parseExpr (lxAt (pre @ ''('') (x @ CHR '')'' # r)) = Inr (e, q)"
    "skipWS q = skipWS (lxAt (pre @ CHR ''('' # x) (CHR '')'' # r))"
  shows "parsePrimary (lxAt pre (CHR ''('' # x @ CHR '')'' # r))
           = Inr (e, lxAt (pre @ CHR ''('' # x @ '')'') r)"
proof -
  have "expectChar CHR '')'' q = expectChar CHR '')'' (lxAt (pre @ CHR ''('' # x) (CHR '')'' # r))"
    by (metis assms(2) skip_first(3))
  also have "\<dots> = Inr (lxAt (pre @ CHR ''('' # x @ '')'') r)"
    by (simp add: expectChar_def skipWS_at)
  finally show ?thesis
    using assms(1) by (simp add: parsePrimary.simps skipWS_at Let_def)
qed

definition parsesOperand :: "ASTExpr \<Rightarrow> bool" where
  "parsesOperand e \<longleftrightarrow> (\<forall>pre r. followExpr r \<longrightarrow> parsesAs parseNot e pre r)"

lemma parsesOperandE:
  assumes "parsesOperand e" "followExpr r"
  obtains q where "parseNot (lxAt pre (exprToSQL e @ r)) = Inr (e, q)"
    "skipWS q = skipWS (lxAt (pre @ exprToSQL e) r)"
  using assms by (metis parsesOperand_def parsesAsE)

lemma followExpr_and [simp]: "followExpr ('' AND '' @ s)" "followExpr ('' OR '' @ s)"
  by (simp_all add: followExpr_def followPrim_def opStart_def quote_def isspace_def code_def)

lemma try_and_or:
  "tryKeyword ''AND'' (lxAt pre ('' AND '' @ s)) = (True, lxAt (pre @ '' AND'') (CHR '' '' # s))"
  "tryKeyword ''OR'' (lxAt pre ('' OR '' @ s)) = (True, lxAt (pre @ '' OR'') (CHR '' '' # s))"
  by (simp_all add: tryKeyword_nextWord)

lemma pair_and:
  assumes "parsesOperand e1" "parsesOperand e2"
  obtains q where
    "parseExpr (lxAt pre (exprToSQL e1 @ '' AND '' @ exprToSQL e2 @ CHR '')'' # r)) = Inr (And e1 e2, q)"
    "skipWS q = skipWS (lxAt (pre @ exprToSQL e1 @ '' AND '' @ exprToSQL e2) (CHR '')'' # r))"
proof -
  let ?r = "CHR '')'' # r" and ?p1 = "pre @ exprToSQL e1"
  let ?s1 = "'' AND '' @ exprToSQL e2 @ ?r"
  obtain q1 where q1: "parseNot (lxAt pre (exprToSQL e1 @ ?s1)) = Inr (e1, q1)"
    "skipWS q1 = skipWS (lxAt ?p1 ?s1)"
    using parsesOperandE [OF assms(1) followExpr_and(1)] by blast
  obtain q2 where q2: "parseNot (lxAt (?p1 @ '' AND '') (exprToSQL e2 @ ?r)) = Inr (e2, q2)"
    "skipWS q2 = skipWS (lxAt ((?p1 @ '' AND '') @ exprToSQL e2) ?r)"
    using parsesOperandE [OF assms(2) follow_close] by blast
  have "tryKeyword ''AND'' q1 = (True, lxAt (?p1 @ '' AND'') (CHR '' '' # exprToSQL e2 @ ?r))"
    by (metis q1(2) skip_first(1) try_and_or(1))
  then have "andLoop e1 q1 = andLoop (And e1 e2) q2"
    using q2(1) by (simp add: andLoop.simps [of e1 q1] parse_space)
  also have "\<dots> = Inr (And e1 e2, skipWS q2)"
    by (rule loop_stops(1) [OF q2(2)]) simp
  finally have "parseAnd (lxAt pre (exprToSQL e1 @ ?s1)) = Inr (And e1 e2, skipWS q2)"
    using q1(1) by (simp add: parseAnd.simps)
  moreover have "orLoop (And e1 e2) (skipWS q2) = Inr (And e1 e2, skipWS q2)"
    unfolding skip_first_parse by (rule loop_stops(2) [OF q2(2)]) simp
  ultimately show thesis
    using that [of "skipWS q2"] q2(2) by (simp add: parseExpr.simps parseOr.simps)
qed

lemma pair_or:
  assumes "parsesOperand e1" "parsesOperand e2"
  obtains q where
    "parseExpr (lxAt pre (exprToSQL e1 @ '' OR '' @ exprToSQL e2 @ CHR '')'' # r)) = Inr (Or e1 e2, q)"
    "skipWS q = skipWS (lxAt (pre @ exprToSQL e1 @ '' OR '' @ exprToSQL e2) (CHR '')'' # r))"
proof -
  let ?r = "CHR '')'' # r" and ?p1 = "pre @ exprToSQL e1"
  let ?s1 = "'' OR '' @ exprToSQL e2 @ ?r"
  obtain q1 where q1: "parseNot (lxAt pre (exprToSQL e1 @ ?s1)) = Inr (e1, q1)"
    "skipWS q1 = skipWS (lxAt ?p1 ?s1)"
    using parsesOperandE [OF assms(1) followExpr_and(2)] by blast
  obtain q2 where q2: "parseNot (lxAt (?p1 @ '' OR '') (exprToSQL e2 @ ?r)) = Inr (e2, q2)"
    "skipWS q2 = skipWS (lxAt ((?p1 @ '' OR '') @ exprToSQL e2) ?r)"
    using parsesOperandE [OF assms(2) follow_close] by blast
  have a1: "parseAnd (lxAt pre (exprToSQL e1 @ ?s1)) = Inr (e1, skipWS q1)"
    using q1(1) loop_stops(1) [OF q1(2)] by (simp add: parseAnd.simps)
  have a2: "parseAnd (lxAt (?p1 @ '' OR '') (exprToSQL e2 @ ?r)) = Inr (e2, skipWS q2)"
    using q2(1) loop_stops(1) [OF q2(2)] by (simp add: parseAnd.simps)
  have "tryKeyword ''OR'' q1 = (True, lxAt (?p1 @ '' OR'') (CHR '' '' # exprToSQL e2 @ ?r))"
    by (metis q1(2) skip_first(1) try_and_or(2))
  then have "orLoop e1 q1 = orLoop (Or e1 e2) (skipWS q2)"
    using a2 by (simp add: orLoop.simps [of e1 q1] parse_space)
  also have "\<dots> = Inr (Or e1 e2, skipWS q2)"
    unfolding skip_first_parse by (rule loop_stops(2) [OF q2(2)]) simp
  finally have "orLoop e1 (skipWS q1) = Inr (Or e1 e2, skipWS q2)"
    by (simp add: skip_first_parse)
  with a1 show thesis
    using that [of "skipWS q2"] q2(2) by (simp add: parseExpr.simps parseOr.simps)
qed

lemma single_operand:
  assumes "parsesOperand e"
  obtains q where "parseExpr (lxAt pre (exprToSQL e @ CHR '')'' # r)) = Inr (e, q)"
    "skipWS q = skipWS (lxAt (pre @ exprToSQL e) (CHR '')'' # r))"
proof -
  obtain q where q: "parseNot (lxAt pre (exprToSQL e @ CHR '')'' # r)) = Inr (e, q)"
    "skipWS q = skipWS (lxAt (pre @ exprToSQL e) (CHR '')'' # r))"
    using parsesOperandE [OF assms follow_close] by blast
  have "parseAnd (lxAt pre (exprToSQL e @ CHR '')'' # r)) = Inr (e, skipWS q)"
    using q(1) loop_stops(1) [OF q(2)] by (simp add: parseAnd.simps)
  moreover have "orLoop e (skipWS q) = Inr (e, skipWS q)"
    unfolding skip_first_parse by (rule loop_stops(2) [OF q(2)]) simp
  ultimately show thesis
    using that [of "skipWS q"] q(2) by (simp add: parseExpr.simps parseOr.simps)
qed

text \<open>A primary is an operand; so is what stands in parentheses.\<close>

lemma primary_operand:
  assumes "\<And>pre r. followPrim r \<Longrightarrow> parsesAs parsePrimary e pre r" "canonExpr e" "primaryExpr e"
  shows "parsesOperand e"
  unfolding parsesOperand_def
proof (intro allI impI)
  fix pre r assume "followExpr r"
  then show "parsesAs parseNot e pre r"
    using assms(1) [of r pre] not_NOT [OF assms(2,3)]
    by (intro fall_not fall_comparison) (simp_all add: followExpr_def)
qed

lemma not_operand:
  assumes "parsesOperand e"
  shows "parsesOperand (NotExpr e)"
  unfolding parsesOperand_def
proof (intro allI impI)
  fix pre r assume f: "followExpr r"
  let ?x = "CHR ''('' # exprToSQL e @ '')''" and ?p = "pre @ ''NOT''"
  obtain q where q: "parseExpr (lxAt (?p @ ''('') (exprToSQL e @ CHR '')'' # r)) = Inr (e, q)"
    "skipWS q = skipWS (lxAt ((?p @ ''('') @ exprToSQL e) (CHR '')'' # r))"
    using single_operand [OF assms] by blast
  have "parsePrimary (lxAt ?p (CHR ''('' # exprToSQL e @ CHR '')'' # r))
      = Inr (e, lxAt (?p @ CHR ''('' # exprToSQL e @ '')'') r)"
    using parens_primary [of ?p "exprToSQL e" r e q] q(1) q(2) by (simp only: append.simps append_assoc)
  then have "parsesStr parsePrimary ?x e ?p r" by (simp add: parsesStr_def)
  then have "parsesStr parseNot ?x e ?p r" using f by (intro fall_not fall_comparison) simp_all
  then obtain q' where "parseNot (lxAt ?p (?x @ r)) = Inr (e, q')"
    "skipWS q' = skipWS (lxAt (?p @ ?x) r)" by (auto simp: parsesStr_def)
  then show "parsesAs parseNot (NotExpr e) pre r"
    by (simp add: parsesStr_def parseNot.simps [of "lxAt pre _"] tryKeyword_nextWord)
qed

lemma parses_canon:
  "canonExpr e \<Longrightarrow> (primaryExpr e \<longrightarrow> (\<forall>pre r. followPrim r \<longrightarrow> parsesAs parsePrimary e pre r))
                    \<and> parsesOperand e"
proof (induction e)
  case (ColumnRef n)
  then show ?case using parsePrimary_column primary_operand by simp
next
  case (IntLiteral i)
  then show ?case using parsePrimary_int primary_operand by simp
next
  case (StringLiteral s)
  then show ?case using parsePrimary_string primary_operand by simp
next
  case (Comparison k l r)
  have "parsesAs parseNot (Comparison k l r) pre s" if "followExpr s" for pre s
    using Comparison that not_NOT [of l "opStr k @ exprToSQL r @ s"]
    by (intro fall_not comparison_parses) (simp_all add: follow_op)
  then show ?case by (simp add: parsesOperand_def)
next
  case (And l r)
  then have "parsesAs parsePrimary (And l r) pre s" for pre s
    using pair_and [of l r "pre @ ''(''" s]
      parens_primary [of pre "exprToSQL l @ '' AND '' @ exprToSQL r" s "And l r"]
    by (fastforce simp: parsesStr_def)
  with And.prems show ?case using primary_operand by simp
next
  case (Or l r)
  then have "parsesAs parsePrimary (Or l r) pre s" for pre s
    using pair_or [of l r "pre @ ''(''" s]
      parens_primary [of pre "exprToSQL l @ '' OR '' @ exprToSQL r" s "Or l r"]
    by (fastforce simp: parsesStr_def)
  with Or.prems show ?case using primary_operand by simp
next
  case (NotExpr e)
  then show ?case by (simp add: not_operand)
qed

text \<open>A whole expression, followed by something that is no \<open>AND\<close>, \<open>OR\<close> or operator.\<close>

lemma parseExpr_canon:
  assumes "canonExpr e" "followExpr r" "toUpper (nextWord r) \<noteq> ''AND''" "toUpper (nextWord r) \<noteq> ''OR''"
  shows "parseExpr (lxAt pre (exprToSQL e @ r)) = Inr (e, skipWS (lxAt (pre @ exprToSQL e) r))"
proof -
  obtain q where q: "parseNot (lxAt pre (exprToSQL e @ r)) = Inr (e, q)"
    "skipWS q = skipWS (lxAt (pre @ exprToSQL e) r)"
    using parsesOperandE [OF conjunct2 [OF parses_canon [OF assms(1)]] assms(2)] by blast
  have "parseAnd (lxAt pre (exprToSQL e @ r)) = Inr (e, skipWS q)"
    using q(1) loop_stops(1) [OF q(2) assms(3)] by (simp add: parseAnd.simps)
  moreover have "orLoop e (skipWS q) = Inr (e, skipWS q)"
    unfolding skip_first_parse by (rule loop_stops(2) [OF q(2) assms(4)])
  ultimately show ?thesis using q(2) by (simp add: parseExpr.simps parseOr.simps)
qed

end
