(* ===== verification/Hega_Args.thy ===== *)
theory Hega_Args
  imports Hega_Roundtrip
begin

text \<open>
  The command lines of the two programs (\<open>server/server_main.cpp\<close>, \<open>client/client_main.cpp\<close>).
  \<open>std::stoi\<close> throws on a text without digits or out of the range of \<open>int\<close>; neither \<open>main\<close>
  catches that, so the program is terminated.
\<close>

section \<open>Definitions\<close>

definition INT_MAX :: int where
  "INT_MAX = 2147483647"

fun readDigits :: "int \<Rightarrow> string \<Rightarrow> int" where
  "readDigits acc [] = acc"
| "readDigits acc (c # cs) = (if isdigit c then readDigits (acc * 10 + (int (code c) - 48)) cs else acc)"

text \<open>\<open>std::stoi\<close>; \<open>None\<close> is an exception.\<close>

definition stoi :: "string \<Rightarrow> int option" where
  "stoi s =
     (let s1 = dropWhile isspace s;
          negative = (case s1 of c # _ \<Rightarrow> c = CHR ''-'' | [] \<Rightarrow> False);
          s2 = (case s1 of c # cs \<Rightarrow> if c = CHR ''-'' \<or> c = CHR ''+'' then cs else s1 | [] \<Rightarrow> s1) in
      if s2 = [] \<or> \<not> isdigit (hd s2) then None
      else let v = (if negative then - readDigits 0 s2 else readDigits 0 s2) in
        if - INT_MAX - 1 \<le> v \<and> v \<le> INT_MAX then Some v else None)"

datatype 'a Startup = Run 'a | ExitCode int | Terminated

record ServerArgs =
  sa_port :: "16 word"
  sa_dataDir :: string
  sa_keysDir :: string

definition defaultServerArgs :: ServerArgs where
  "defaultServerArgs = \<lparr>sa_port = 7777, sa_dataDir = ''./server_data'', sa_keysDir = ''./server_keys''\<rparr>"

function serverArgs :: "string list \<Rightarrow> ServerArgs \<Rightarrow> ServerArgs Startup" where
  "serverArgs argv a =
     (case argv of
        [] \<Rightarrow> Run a
      | arg # rest \<Rightarrow>
          if arg = ''--port'' \<and> rest \<noteq> [] then
            (case stoi (hd rest) of
               None \<Rightarrow> Terminated
             | Some p \<Rightarrow> serverArgs (tl rest) (a\<lparr>sa_port := word_of_int p\<rparr>))
          else if arg = ''--data-dir'' \<and> rest \<noteq> [] then serverArgs (tl rest) (a\<lparr>sa_dataDir := hd rest\<rparr>)
          else if arg = ''--keys-dir'' \<and> rest \<noteq> [] then serverArgs (tl rest) (a\<lparr>sa_keysDir := hd rest\<rparr>)
          else if arg = ''--help'' then ExitCode 0
          else ExitCode 1)"
  by pat_completeness auto
termination
  by (relation "measure (\<lambda>(argv, a). length argv)") auto

record ClientArgs =
  ca_host :: string
  ca_port :: "16 word"
  ca_keysDir :: string
  ca_dataDir :: string
  ca_setup :: bool

definition defaultClientArgs :: ClientArgs where
  "defaultClientArgs = \<lparr>ca_host = ''127.0.0.1'', ca_port = 7777, ca_keysDir = ''./server_keys'',
     ca_dataDir = ''./server_data'', ca_setup = False\<rparr>"

text \<open>The client skips what it does not know.\<close>

function clientArgs :: "string list \<Rightarrow> ClientArgs \<Rightarrow> ClientArgs Startup" where
  "clientArgs argv a =
     (case argv of
        [] \<Rightarrow> Run a
      | arg # rest \<Rightarrow>
          if arg = ''--host'' \<and> rest \<noteq> [] then clientArgs (tl rest) (a\<lparr>ca_host := hd rest\<rparr>)
          else if arg = ''--port'' \<and> rest \<noteq> [] then
            (case stoi (hd rest) of
               None \<Rightarrow> Terminated
             | Some p \<Rightarrow> clientArgs (tl rest) (a\<lparr>ca_port := word_of_int p\<rparr>))
          else if arg = ''--keys-dir'' \<and> rest \<noteq> [] then clientArgs (tl rest) (a\<lparr>ca_keysDir := hd rest\<rparr>)
          else if arg = ''--data-dir'' \<and> rest \<noteq> [] then clientArgs (tl rest) (a\<lparr>ca_dataDir := hd rest\<rparr>)
          else if arg = ''--setup'' then clientArgs rest (a\<lparr>ca_setup := True\<rparr>)
          else if arg = ''--help'' then ExitCode 0
          else clientArgs rest a)"
  by pat_completeness auto
termination
  by (relation "measure (\<lambda>(argv, a). length argv)") auto

declare serverArgs.simps [simp del] clientArgs.simps [simp del]

section \<open>Ports\<close>

lemma readDigits_append:
  "list_all isdigit ds \<Longrightarrow> readDigits acc (ds @ cs) = readDigits (readDigits acc ds) cs"
  by (induction ds arbitrary: acc) simp_all

lemma readDigits_show: "readDigits 0 (show_nat n) = int n"
proof (induction n rule: show_nat.induct)
  case (1 n)
  have d: "isdigit (char_of (48 + k)) \<and> int (code (char_of (48 + k))) - 48 = int k" if "k < 10" for k :: nat
    using that by (simp add: isdigit_def code_def)
  show ?case
  proof (cases "n < 10")
    case True
    then show ?thesis using d [OF True] by (simp add: show_nat.simps [of n])
  next
    case False
    with 1 have "readDigits 0 (show_nat (n div 10)) = int (n div 10)" by simp
    moreover have "n mod 10 < 10" by simp
    moreover have "int (n div 10) * 10 + int (n mod 10) = int n" by presburger
    ultimately show ?thesis
      using False d [of "n mod 10"] show_nat_at [of "n div 10"]
      by (simp add: show_nat.simps [of n] readDigits_append)
  qed
qed

lemma stoi_show: "n \<le> 2147483647 \<Longrightarrow> stoi (show_nat n) = Some (int n)"
proof -
  assume n: "n \<le> 2147483647"
  obtain c ds where s: "show_nat n = c # ds" "isdigit c" by (rule show_nat_Cons)
  then have "\<not> isspace c" "c \<noteq> CHR ''-''" "c \<noteq> CHR ''+''"
    by (auto simp: isdigit_def isspace_def code_def)
  with s n readDigits_show [of n] show ?thesis
    by (simp add: stoi_def Let_def INT_MAX_def)
qed

section \<open>Properties\<close>

text \<open>A port number is read as an \<open>int\<close> and cast to 16 bits without a check: both
  programs use it modulo 65536.\<close>

lemma port_wraps:
  assumes "n \<le> 2147483647"
  shows "serverArgs [''--port'', show_nat n] a = Run (a\<lparr>sa_port := of_nat (n mod 65536)\<rparr>)
     \<and> clientArgs [''--port'', show_nat n] b = Run (b\<lparr>ca_port := of_nat (n mod 65536)\<rparr>)"
proof -
  have "(of_nat (n mod 65536) :: 16 word) = of_nat n"
    by (rule word_unat_eq_iff [THEN iffD2]) (simp add: unsigned_of_nat take_bit_eq_mod)
  with stoi_show [OF assms] show ?thesis
    by (simp add: serverArgs.simps [of "_ # _"] serverArgs.simps [of "[]"]
        clientArgs.simps [of "_ # _"] clientArgs.simps [of "[]"])
qed

lemma port_wraps_example:
  "serverArgs [''--port'', show_nat 70000] defaultServerArgs = Run (defaultServerArgs\<lparr>sa_port := 4464\<rparr>)"
  using port_wraps [of 70000 defaultServerArgs defaultClientArgs] by simp

text \<open>An argument that is none of the options makes the server exit with status
  1, while the client goes on as if it had not been given.\<close>

lemma unknown_arguments:
  assumes "arg \<notin> {''--host'', ''--port'', ''--keys-dir'', ''--data-dir'', ''--setup'', ''--help''}"
  shows "serverArgs (arg # rest) a = ExitCode 1 \<and> clientArgs (arg # rest) b = clientArgs rest b"
  using assms by (simp add: serverArgs.simps [of "_ # _"] clientArgs.simps [of "arg # rest"])

lemma unknown_arguments_example:
  "serverArgs [''--keys''] defaultServerArgs = ExitCode 1
   \<and> clientArgs [''--keys''] defaultClientArgs = clientArgs [] defaultClientArgs"
  by (rule unknown_arguments) simp

end
