(* ===== verification/Hega_Server.thy ===== *)
theory Hega_Server
  imports Hega_Walk Hega_Transport Hega_Args
begin

text \<open>
  The server program (\<open>server/server_main.cpp\<close>): the query handler, which validates a package and
  executes it, and \<open>main\<close>, which loads the context, opens the storage and serves.  The file
  system, the key loader and the storage are parameters; the handler's clock reading is an argument
  of its log.
\<close>

section \<open>Definitions\<close>

subsection \<open>The query handler\<close>

definition handler ::
  "'ct Fhe \<Rightarrow> ('ct, 'e, 'op) Proto1 \<Rightarrow> Catalog \<Rightarrow> string \<Rightarrow> QueryPackage \<Rightarrow> EncryptedResultBatch list result option" where
  "handler F P cat sid pkg =
     Option.bind (validate cat sid pkg) (\<lambda>v.
       case v of
         Inl e \<Rightarrow> Some (Inl e)
       | Inr _ \<Rightarrow> execute F P cat pkg)"

text \<open>The ciphertext bytes of an answer, which server and client both count.\<close>

definition batchBytes :: "EncryptedResultBatch \<Rightarrow> nat" where
  "batchBytes b = sum_list (map (\<lambda>c. length (cr_ciphertextBytes c)) (rb_columns b)) + length (rb_selectionMaskBytes b)"

definition answerBytes :: "EncryptedResultBatch list \<Rightarrow> nat" where
  "answerBytes batches = sum_list (map batchBytes batches)"

text \<open>What the handler logs; \<open>ms\<close> is the time it measured.\<close>

definition handlerLog ::
  "'ct Fhe \<Rightarrow> ('ct, 'e, 'op) Proto1 \<Rightarrow> Catalog \<Rightarrow> string \<Rightarrow> QueryPackage \<Rightarrow> int \<Rightarrow> string list option" where
  "handlerLog F P cat sid pkg ms =
     (let start = ''[Server] Validating query: '' @ pk_queryId pkg in
      Option.bind (validate cat sid pkg) (\<lambda>v.
        case v of
          Inl _ \<Rightarrow> Some [start]
        | Inr _ \<Rightarrow> Option.bind (execute F P cat pkg) (\<lambda>r.
            let more = [start, ''[Server] Validation OK'', ''[Server] Executing encrypted query...''] in
            case r of
              Inl _ \<Rightarrow> Some more
            | Inr batches \<Rightarrow> Some (more @ [''[Server] Execution complete: '' @ show_nat (length batches) @ '' batch(es), ''
                @ show_nat (answerBytes batches) @ '' ciphertext bytes, '' @ show_int ms @ '' ms'']))))"

subsection \<open>The program\<close>

record ('ct, 'e, 'op) ServerEnv =
  se_exists :: "string \<Rightarrow> bool"
  se_loadContext :: "string \<Rightarrow> 'ct Fhe result"
  se_openStorage :: "string \<Rightarrow> ('ct, 'e, 'op) Proto1 result"
  se_listen :: ListenOutcome
  se_events :: "ServerEvent list"

text \<open>\<open>Run r\<close> is a server that came into \<open>serve\<close>, with the state of its loop after the outcomes of
  \<open>accept\<close> so far (no code of the program calls \<open>stop()\<close>, so it is \<open>Serving\<close>); an exception that leaves
  \<open>main\<close> terminates the program.\<close>

definition serverMain ::
  "Archive \<Rightarrow> (err \<Rightarrow> string) \<Rightarrow> ('ct, 'e, 'op) ServerEnv \<Rightarrow> string list \<Rightarrow> ServeRun Startup option" where
  "serverMain ar std env argv =
     (case serverArgs argv defaultServerArgs of
        ExitCode c \<Rightarrow> Some (ExitCode c)
      | Terminated \<Rightarrow> Some Terminated
      | Run a \<Rightarrow>
          if \<not> se_exists env (sa_keysDir a) then Some (ExitCode 1)
          else (case serverContextLoad (se_loadContext env) (sa_keysDir a) of
              Inl _ \<Rightarrow> Some (ExitCode 1)
            | Inr F \<Rightarrow>
                if \<not> se_exists env (sa_dataDir a) then Some (ExitCode 1)
                else (case se_openStorage env (sa_dataDir a) of
                    Inl _ \<Rightarrow> Some Terminated
                  | Inr P \<Rightarrow>
                      map_option (\<lambda>r. case r of Inl _ \<Rightarrow> Terminated | Inr run \<Rightarrow> Run run)
                        (serve ar std (handler F P makeEmployeesCatalog (fhe_paramSetId F)) (unat (sa_port a))
                          (se_listen env) (se_events env)))))"

section \<open>Availability\<close>

lemma handler_returns:
  assumes "\<not> cyclicTree pkg"
  shows "\<exists>r. handler F P cat sid pkg = Some r"
proof -
  obtain v where v: "validate cat sid pkg = Some v" using acyclic_validates [OF assms] by blast
  have e: "\<exists>r. execute F P cat pkg = Some r" by (rule acyclic_executes [OF assms])
  from v e show ?thesis by (cases v) (simp_all add: handler_def)
qed

text \<open>The handler is a service for the packages without a cycle.\<close>

interpretation server: query_service "handler F P cat sid" "\<lambda>pkg. \<not> cyclicTree pkg" for F P cat sid
  by unfold_locales (simp add: handler_returns)

lemma handler_stuck:
  assumes "checkHeader cat sid pkg = Inr t" "trapped (pk_predicateNodes pkg) S"
    "pk_predicateNodes pkg \<noteq> []" "of_nat (length (pk_predicateNodes pkg) - 1) \<in> S"
  shows "handler F P cat sid pkg = None"
  using validate_diverges [OF assms] by (simp add: handler_def)

text \<open>The startup, as one condition.\<close>

definition starts :: "('ct, 'e, 'op) ServerEnv \<Rightarrow> string list \<Rightarrow> 'ct Fhe \<Rightarrow> ('ct, 'e, 'op) Proto1 \<Rightarrow> bool" where
  "starts env argv F P \<longleftrightarrow> (\<exists>a. serverArgs argv defaultServerArgs = Run a
     \<and> se_exists env (sa_keysDir a) \<and> se_loadContext env (sa_keysDir a) = Inr F
     \<and> se_exists env (sa_dataDir a) \<and> se_openStorage env (sa_dataDir a) = Inr P)
     \<and> lo_socket (se_listen env) \<and> lo_bind (se_listen env) \<and> lo_listen (se_listen env)"

lemma starts_serves:
  "starts env argv F P \<Longrightarrow> serverMain ar std env argv =
     map_option Run (serveLoop ar std (handler F P makeEmployeesCatalog (fhe_paramSetId F)) (se_events env))"
  by (auto simp: starts_def serverMain_def serve_def option.map_comp o_def)

definition sampleEnv :: "ServerEvent list \<Rightarrow> (int list, plainExpr, int list EncBatch list) ServerEnv" where
  "sampleEnv events =
     \<lparr>se_exists = (\<lambda>_. True), se_loadContext = (\<lambda>_. Inr (plainFhe\<lparr>fhe_paramSetId := ''p''\<rparr>)),
      se_openStorage = (\<lambda>_. Inr plainProto1),
      se_listen = \<lparr>lo_socket = True, lo_bind = True, lo_listen = True\<rparr>, se_events = events\<rparr>"

lemma sample_starts: "starts (sampleEnv events) [] (plainFhe\<lparr>fhe_paramSetId := ''p''\<rparr>) plainProto1"
  by (simp add: starts_def sampleEnv_def serverArgs.simps)

section \<open>Packages with a cycle or shared nodes\<close>

definition cyclicPackage :: QueryPackage where
  "cyclicPackage = tinyPackage\<lparr>pk_predicateNodes := [emptyNode\<lparr>pn_kind := PNot, pn_left := 0, pn_right := 0\<rparr>]\<rparr>"

lemma cyclicPackage_sized: "sizedPackage cyclicPackage" "length (serializePackage unaryArchive cyclicPackage) < 2 ^ 32"
proof -
  have "length (serializePackage unaryArchive cyclicPackage) \<le> 10000" by code_simp
  then show "length (serializePackage unaryArchive cyclicPackage) < 2 ^ 32" by simp
  show "sizedPackage cyclicPackage"
    by (simp add: cyclicPackage_def tinyPackage_def samplePackage_def sizedPackage_def sized_def emptyNode_def)
qed

lemma cyclicPackage_header: "checkHeader makeEmployeesCatalog ''p'' cyclicPackage = Inr employeesSchema"
proof -
  have "bareName ''age'' = ''age''" "hasColumn employeesSchema ''age''"
    by (rule bareName_undotted) (simp_all add: hasDot_iff hasColumn_iff employeesSchema_def)
  then show ?thesis
    by (simp add: checkHeader_iff cyclicPackage_def tinyPackage_def samplePackage_def checkColumn_def targetTable_def
        encSample_columns)
qed

lemma cyclicPackage_trapped:
  "trapped (pk_predicateNodes cyclicPackage) {0}" "pk_predicateNodes cyclicPackage \<noteq> []"
  "of_nat (length (pk_predicateNodes cyclicPackage) - 1) \<in> {0 :: u32}"
  by (simp_all add: cyclicPackage_def trapped_def UINT32_MAX_def)

lemma cyclicPackage_cyclic: "cyclicTree cyclicPackage"
proof -
  have "(0, 0) \<in> childEdges (pk_predicateNodes cyclicPackage)"
    by (simp add: childEdges_def children_def leafKind_def cyclicPackage_def)
  then have "(0, 0) \<in> (childEdges (pk_predicateNodes cyclicPackage))\<^sup>+" by (rule r_into_trancl)
  then have "meetsCycle (pk_predicateNodes cyclicPackage) 0" unfolding meetsCycle_def by blast
  then show ?thesis by (simp add: cyclicTree_def rootIndex_def) (simp add: cyclicPackage_def)
qed

lemma trivial_not:
  "unat (0 :: u32) < length [emptyNode\<lparr>pn_kind := PNot, pn_left := 0, pn_right := 0\<rparr>]
     \<and> (let node = [emptyNode\<lparr>pn_kind := PNot, pn_left := 0, pn_right := 0\<rparr>] ! unat (0 :: u32) in
          (leafKind (pn_kind node) \<longrightarrow> isOk (checkLeaf cat pkg schema node)) \<and> UINT32_MAX \<notin> children node)"
  by (simp add: leafKind_def children_def UINT32_MAX_def)

lemma cyclicPackage_faultless:
  "faultless makeEmployeesCatalog cyclicPackage employeesSchema (rootIndex (pk_predicateNodes cyclicPackage))"
proof -
  have "j = 0" if "(0, j) \<in> (childEdges (pk_predicateNodes cyclicPackage))\<^sup>*" for j
    using that by induction (auto simp: childEdges_def children_def leafKind_def cyclicPackage_def)
  moreover have "rootIndex (pk_predicateNodes cyclicPackage) = 0"
    "pk_predicateNodes cyclicPackage = [emptyNode\<lparr>pn_kind := PNot, pn_left := 0, pn_right := 0\<rparr>]"
    by (simp_all add: rootIndex_def cyclicPackage_def)
  ultimately show ?thesis
    unfolding faultless_def by (metis (no_types, lifting) trivial_not)
qed

definition chainPackage :: "nat \<Rightarrow> QueryPackage" where
  "chainPackage n = tinyPackage\<lparr>pk_predicateNodes := chainNodes n\<rparr>"

lemma chainPackage_ordered:
  assumes "n < 2 ^ 32 - 1"
  shows "ordered (chainPackage n)"
proof -
  have "childOk (Suc k) (of_nat k)" if "k < n" for k
    using of_nat_inverse [OF refl, of k, where ?'a = 32] that assms by (simp add: childOk_def)
  then show ?thesis
    by (auto simp: ordered_def Let_def chainPackage_def chainNodes_def emptyNode_def binaryKind_def nth_Cons split: nat.splits)
qed

lemma chainPackage_walks:
  assumes "n < 2 ^ 32 - 1"
  shows "validate makeEmployeesCatalog ''p'' (chainPackage n) = Some (Inr ())"
    "walkCalls makeEmployeesCatalog (chainPackage n) employeesSchema (of_nat n) = Some (Inr (), 2 ^ (n + 1) - 1)"
proof -
  have age: "bareName ''age'' = ''age''" "hasColumn employeesSchema ''age''"
    by (rule bareName_undotted) (simp_all add: hasDot_iff hasColumn_iff employeesSchema_def)
  then have h: "checkHeader makeEmployeesCatalog ''p'' (chainPackage n) = Inr employeesSchema"
    by (simp add: checkHeader_iff chainPackage_def tinyPackage_def samplePackage_def checkColumn_def targetTable_def
        encSample_columns)
  have "checkColumn makeEmployeesCatalog (chainPackage n) employeesSchema e ''age'' = Inr ()" for e
    using age by (simp add: checkColumn_def targetTable_def chainPackage_def tinyPackage_def samplePackage_def)
  from chain_walk [OF _ assms this, of n] have w:
    "validatePredTree makeEmployeesCatalog (chainPackage n) employeesSchema (of_nat n) = Some (Inr ())"
    "walkCalls makeEmployeesCatalog (chainPackage n) employeesSchema (of_nat n) = Some (Inr (), 2 ^ Suc n - 1)"
    by (simp_all add: chainPackage_def)
  have "length (pk_predicateNodes (chainPackage n)) = Suc n" by (simp add: chainPackage_def)
  with h w(1) show "validate makeEmployeesCatalog ''p'' (chainPackage n) = Some (Inr ())"
    by (auto simp: validate_def)
  from w(2) show "walkCalls makeEmployeesCatalog (chainPackage n) employeesSchema (of_nat n) = Some (Inr (), 2 ^ (n + 1) - 1)"
    by simp
qed

section \<open>Properties\<close>

text \<open>C21: the handler returns batches or an exception, whatever else is in the package,
  if no cycle of child indices can be reached from the root; and for a package without other faults
  it returns only then.  Nodes that stand after their children have no cycle.\<close>

theorem handler_terminates:
  shows "(\<not> cyclicTree pkg \<longrightarrow> (\<exists>r. handler F P cat sid pkg = Some r))
    \<and> (checkHeader cat sid pkg = Inr t \<and> faultless cat pkg t (rootIndex (pk_predicateNodes pkg)) \<longrightarrow>
         (handler F P cat sid pkg = None \<longleftrightarrow> cyclicTree pkg))
    \<and> (ordered pkg \<and> length (pk_predicateNodes pkg) < 2 ^ 32 \<longrightarrow> \<not> cyclicTree pkg)"
proof -
  have "handler F P cat sid pkg = None"
    if "checkHeader cat sid pkg = Inr t" "faultless cat pkg t (rootIndex (pk_predicateNodes pkg))" "cyclicTree pkg"
    using faultless_diverges [OF that] by (simp add: handler_def)
  moreover have "\<not> cyclicTree pkg \<longrightarrow> (\<exists>r. handler F P cat sid pkg = Some r)"
    using handler_returns [of pkg F P cat sid] by blast
  ultimately show ?thesis using ordered_acyclic [of pkg] by (metis option.distinct(1))
qed

theorem handler_terminates_witness:
  "(\<exists>r. handler plainFhe plainProto1 makeEmployeesCatalog ''p'' samplePackage = Some r)
     \<and> handler plainFhe plainProto1 makeEmployeesCatalog ''p'' cyclicPackage = None"
proof -
  have "childOk k UINT32_MAX" "childOk (Suc (Suc 0)) 0" "childOk (Suc (Suc 0)) 1" for k by (simp_all add: childOk_def)
  then have "ordered samplePackage"
    by (auto simp: ordered_def samplePackage_def emptyNode_def binaryKind_def less_Suc_eq numeral_3_eq_3)
  moreover have "length (pk_predicateNodes samplePackage) < 2 ^ 32" by (simp add: samplePackage_def)
  ultimately have "\<exists>r. handler plainFhe plainProto1 makeEmployeesCatalog ''p'' samplePackage = Some r"
    using handler_terminates [of samplePackage plainFhe plainProto1 makeEmployeesCatalog "''p''"] by blast
  moreover have "handler plainFhe plainProto1 makeEmployeesCatalog ''p'' cyclicPackage = None"
    using handler_terminates [of cyclicPackage plainFhe plainProto1 makeEmployeesCatalog "''p''" employeesSchema]
      cyclicPackage_header cyclicPackage_faultless cyclicPackage_cyclic by blast
  ultimately show ?thesis ..
qed

text \<open>C24: the number of calls of the recursive validation is below 2^n on n nodes that
  stand after their children, and this is attained: nodes that share their children make the
  server accept a package of n + 1 nodes after 2^(n+1) - 1 calls.\<close>

theorem validation_exponential:
  assumes "n < 2 ^ 32 - 1"
  shows "length (pk_predicateNodes (chainPackage n)) = n + 1 \<and> ordered (chainPackage n)
    \<and> validate makeEmployeesCatalog ''p'' (chainPackage n) = Some (Inr ())
    \<and> walkCalls makeEmployeesCatalog (chainPackage n) employeesSchema (of_nat n) = Some (Inr (), 2 ^ (n + 1) - 1)
    \<and> (\<forall>pkg schema. ordered pkg \<and> length (pk_predicateNodes pkg) = n + 1 \<longrightarrow>
         (\<exists>r calls. validatePredTree cat pkg schema (of_nat n) = Some r
            \<and> walkCalls cat pkg schema (of_nat n) = Some (r, calls) \<and> calls \<le> 2 ^ (n + 1) - 1))"
proof -
  have "\<exists>r calls. validatePredTree cat pkg schema (of_nat n) = Some r
      \<and> walkCalls cat pkg schema (of_nat n) = Some (r, calls) \<and> calls \<le> 2 ^ (n + 1) - 1"
    if "ordered pkg" "length (pk_predicateNodes pkg) = n + 1" for pkg schema
  proof -
    have u: "unat (of_nat n :: u32) = n" by (rule of_nat_inverse [OF refl]) (use assms in simp)
    with walkCalls_bound [OF that(1), of "of_nat n" cat schema] that(2) assms show ?thesis by fastforce
  qed
  with chainPackage_walks [OF assms] chainPackage_ordered [OF assms] show ?thesis
    by (simp add: chainPackage_def)
qed

theorem validation_exponential_witness:
  "validate makeEmployeesCatalog ''p'' (chainPackage 40) = Some (Inr ())
     \<and> walkCalls makeEmployeesCatalog (chainPackage 40) employeesSchema 40 = Some (Inr (), 2199023255551)"
  using validation_exponential [of 40] by simp

text \<open>C20: the server stays available.  After every finite sequence of connections and failed calls of
  \<open>accept\<close>, it has handled each connection and closed it exactly once, in order, and is in \<open>accept\<close>
  again, if the packages that reach it have no cycle below their root, as the client's do not;
  frames that are cut short, of another type or not a package are dropped.\<close>

theorem server_serves:
  assumes "starts env argv F P" "Stopped \<notin> set (se_events env)"
    and "\<forall>s\<in>set (accepted (se_events env)). \<forall>pkg. arrives ar s pkg \<longrightarrow> \<not> cyclicTree pkg"
  shows "\<exists>socks. serverMain ar std env argv = Some (Run (Serving socks))
     \<and> list_all2 (\<lambda>s t. so_closes t = so_closes s + 1) (accepted (se_events env)) socks"
proof -
  have "\<not> cyclicTree pkg" if "s \<in> set (accepted (se_events env))" "arrives ar s pkg" for s pkg
    using assms(3) that by blast
  then obtain socks where "serveLoop ar std (handler F P makeEmployeesCatalog (fhe_paramSetId F)) (se_events env) =
      Some (after (se_events env) socks)" "list_all2 (\<lambda>s t. so_closes t = so_closes s + 1) (accepted (se_events env)) socks"
    using server.loop_serves [where events = "se_events env" and ar = ar and std = std] by blast
  with assms(2) show ?thesis by (simp add: starts_serves [OF assms(1)] after_def)
qed

theorem server_serves_witness:
  "\<exists>socks. serverMain unaryArchive (\<lambda>_. []) (sampleEnv [Connected slowSocket, AcceptFailed, Connected slowSocket]) []
     = Some (Run (Serving socks)) \<and> length socks = 2"
proof -
  have "fst (recvFrame slowSocket) = Inl connectionClosed"
    using recvFrame_short [OF slow_patient(1), of 0 ErrorMsg "[]"] by (auto simp: slowSocket_def frame_def)
  then have "\<not> arrives unaryArchive slowSocket pkg" for pkg by (auto simp: arrives_def)
  with server_serves [OF sample_starts, of "[Connected slowSocket, AcceptFailed, Connected slowSocket]" unaryArchive "\<lambda>_. []"]
  show ?thesis by (force simp: sampleEnv_def dest: list_all2_lengthD)
qed

text \<open>C16: one well-formed request whose predicate nodes form a cycle stops the
  server for good: whatever was served before and whoever connects afterwards, the program
  never gets past that connection.\<close>

theorem cyclic_package_hangs:
  assumes run: "starts env argv F P" "se_events env = pre @ Connected s # post" "Stopped \<notin> set pre"
    and wire: "archive_laws ar" "patient s" "so_in s = request ar pkg" "sizedPackage pkg"
      "length (serializePackage ar pkg) < 2 ^ 32"
    and header: "checkHeader makeEmployeesCatalog (fhe_paramSetId F) pkg = Inr t"
    and cycle: "trapped (pk_predicateNodes pkg) S" "pk_predicateNodes pkg \<noteq> []"
      "of_nat (length (pk_predicateNodes pkg) - 1) \<in> S"
  shows "serverMain ar std env argv = None"
proof -
  let ?h = "handler F P makeEmployeesCatalog (fhe_paramSetId F)"
  have "?h pkg = None" by (rule handler_stuck [OF header cycle])
  then have "handleClient ar std ?h s = None"
    using server_receives [OF wire, of std ?h] by auto
  from serve_stuck [OF run(3) this] show ?thesis by (simp add: starts_serves [OF run(1)] run(2))
qed

theorem cyclic_package_hangs_witness:
  "serverMain unaryArchive (\<lambda>_. [])
     (sampleEnv [Connected slowSocket, Connected (slowSocket\<lparr>so_in := request unaryArchive cyclicPackage\<rparr>)]) [] = None"
proof (rule cyclic_package_hangs [where pre = "[Connected slowSocket]" and S = "{0}" and pkg = cyclicPackage,
      OF sample_starts _ _ unaryArchive_laws slow_patient(2) _ cyclicPackage_sized _ cyclicPackage_trapped])
  show "checkHeader makeEmployeesCatalog (fhe_paramSetId (plainFhe\<lparr>fhe_paramSetId := ''p''\<rparr>)) cyclicPackage
      = Inr employeesSchema"
    using cyclicPackage_header by simp
qed (simp_all add: sampleEnv_def)

end
