(* ===== verification/Hega_Console.thy ===== *)
theory Hega_Console
  imports Hega_Result Hega_Server
begin

text \<open>
  What the client prints: the result table and the query id of \<open>client/client_main.cpp\<close>, and the
  metrics of \<open>include/proto2/metrics.h\<close> and \<open>transport/metrics.cpp\<close>.  A console is the text
  written so far and the stream's adjustment flag: \<open>std::left\<close>, once set, stays set for every
  later output, while \<open>std::setw\<close> holds for one.
\<close>

section \<open>Definitions\<close>

subsection \<open>Streams\<close>

record Console =
  co_text :: string
  co_left :: bool

definition nl :: string where
  "nl = [CHR 0x0A]"

definition put :: "string \<Rightarrow> Console \<Rightarrow> Console" where
  "put x c = c\<lparr>co_text := co_text c @ x\<rparr>"

definition setLeft :: "Console \<Rightarrow> Console" where
  "setLeft c = c\<lparr>co_left := True\<rparr>"

text \<open>\<open>std::setw(n) << x\<close>.\<close>

definition padded :: "bool \<Rightarrow> nat \<Rightarrow> string \<Rightarrow> string" where
  "padded left n x =
     (let fill = replicate (n - length x) CHR '' '' in if left then x @ fill else fill @ x)"

definition putw :: "nat \<Rightarrow> string \<Rightarrow> Console \<Rightarrow> Console" where
  "putw n x c = put (padded (co_left c) n x) c"

subsection \<open>Query ids\<close>

definition hexDigit :: "nat \<Rightarrow> char" where
  "hexDigit d = char_of (if d < 10 then 48 + d else 87 + d)"

fun show_hex :: "nat \<Rightarrow> string" where
  "show_hex n = (if n < 16 then [hexDigit n] else show_hex (n div 16) @ [hexDigit (n mod 16)])"

declare show_hex.simps [simp del]

text \<open>The two draws of the generator, each as eight hexadecimal digits.\<close>

definition hex8 :: "u32 \<Rightarrow> string" where
  "hex8 v = (let x = show_hex (unat v) in replicate (8 - length x) CHR ''0'' @ x)"

definition makeQueryId :: "u32 \<Rightarrow> u32 \<Rightarrow> string" where
  "makeQueryId a b = hex8 a @ hex8 b"

subsection \<open>The result table\<close>

text \<open>The widths, the loop over the rows for one column.\<close>

fun columnWidth :: "string \<Rightarrow> ResultRow list \<Rightarrow> nat \<Rightarrow> nat" where
  "columnWidth col [] w = w"
| "columnWidth col (row # rows) w =
     (let w1 = (case rr_values row col of None \<Rightarrow> w | Some v \<Rightarrow> max w (length (show_int v)));
          w2 = (case rr_stringValues row col of None \<Rightarrow> w1 | Some t \<Rightarrow> max w1 (length t))
      in columnWidth col rows w2)"

definition cellText :: "ResultRow \<Rightarrow> string \<Rightarrow> string" where
  "cellText row col =
     (case rr_values row col of
        Some v \<Rightarrow> show_int v
      | None \<Rightarrow> (case rr_stringValues row col of Some t \<Rightarrow> t | None \<Rightarrow> ''NULL''))"

fun printCells :: "bool \<Rightarrow> (nat \<times> string) list \<Rightarrow> Console \<Rightarrow> Console" where
  "printCells started [] c = c"
| "printCells started ((w, x) # cells) c =
     printCells True cells (putw w x (setLeft (if started then put '' | '' c else c)))"

fun printRule :: "bool \<Rightarrow> nat list \<Rightarrow> Console \<Rightarrow> Console" where
  "printRule started [] c = c"
| "printRule started (w # ws) c =
     printRule True ws (put (replicate w CHR ''-'') (if started then put ''-+-'' c else c))"

fun printRows :: "string list \<Rightarrow> nat list \<Rightarrow> ResultRow list \<Rightarrow> Console \<Rightarrow> Console" where
  "printRows cols widths [] c = c"
| "printRows cols widths (row # rows) c =
     printRows cols widths rows (put nl (printCells False (zip widths (map (cellText row) cols)) c))"

definition rowCount :: "nat \<Rightarrow> string" where
  "rowCount n = ''('' @ show_nat n @ '' row'' @ (if n = 1 then [] else ''s'') @ '')'' @ nl"

definition printResult :: "string list \<Rightarrow> ResultRow list \<Rightarrow> Console \<Rightarrow> Console" where
  "printResult cols rows c =
     (if rows = [] then put (''(0 rows)'' @ nl) c
      else let widths = map (\<lambda>col. columnWidth col rows (length col)) cols;
               c1 = put nl (printCells False (zip widths cols) c);
               c2 = put nl (printRule False widths c1)
           in put (rowCount (length rows)) (printRows cols widths rows c2))"

subsection \<open>Metrics\<close>

record ClientMetrics =
  mt_parseMs :: int
  mt_semanticMs :: int
  mt_planMs :: int
  mt_encryptMs :: int
  mt_serializeMs :: int
  mt_networkUpMs :: int
  mt_networkDownMs :: int
  mt_decryptMs :: int
  mt_reconstructMs :: int
  mt_totalMs :: int
  mt_queryPackageBytes :: nat
  mt_resultBytesReceived :: nat
  mt_batchCount :: u32

definition metricLine :: "string \<Rightarrow> int \<Rightarrow> Console \<Rightarrow> Console" where
  "metricLine label v c = put ('' ms'' @ nl) (putw 6 (show_int v) (put label c))"

definition printMetrics :: "ClientMetrics \<Rightarrow> Console \<Rightarrow> Console" where
  "printMetrics m c =
     fold (\<lambda>x. put (fst x @ snd x @ nl))
       [(''  Query package:      '', show_nat (mt_queryPackageBytes m) @ '' bytes''),
        (''  Result received:    '', show_nat (mt_resultBytesReceived m) @ '' bytes''),
        (''  Result batches:     '', show_nat (unat (mt_batchCount m)))]
       (fold (\<lambda>x. metricLine (fst x) (snd x))
          [(''  Parse:              '', mt_parseMs m),
           (''  Semantic analysis:  '', mt_semanticMs m),
           (''  Planning:           '', mt_planMs m),
           (''  Literal encryption: '', mt_encryptMs m),
           (''  Serialization:      '', mt_serializeMs m),
           (''  Network upload:     '', mt_networkUpMs m),
           (''  Network download:   '', mt_networkDownMs m),
           (''  Decryption:         '', mt_decryptMs m),
           (''  Reconstruction:     '', mt_reconstructMs m),
           (''  Total:              '', mt_totalMs m)]
          (put (nl @ ''[Client Metrics]'' @ nl) c))"

record ServerMetrics =
  sm_validationMs :: int
  sm_storageReadMs :: int
  sm_fheExecMs :: int
  sm_serializeMs :: int
  sm_resultBytesProduced :: nat

definition printServerMetrics :: "ServerMetrics \<Rightarrow> Console \<Rightarrow> Console" where
  "printServerMetrics m c =
     put (''  Result produced:    '' @ show_nat (sm_resultBytesProduced m) @ '' bytes'' @ nl)
       (fold (\<lambda>x. metricLine (fst x) (snd x))
          [(''  Validation:         '', sm_validationMs m),
           (''  Storage read+exec:  '', sm_fheExecMs m),
           (''  Serialization:      '', sm_serializeMs m)]
          (put (nl @ ''[Server Metrics]'' @ nl) c))"

section \<open>Query ids\<close>

fun readHex :: "nat \<Rightarrow> string \<Rightarrow> nat" where
  "readHex acc [] = acc"
| "readHex acc (c # cs) = readHex (16 * acc + (if code c < 58 then code c - 48 else code c - 87)) cs"

lemma readHex_append: "readHex acc (xs @ ys) = readHex (readHex acc xs) ys"
  by (induction xs arbitrary: acc) simp_all

lemma readHex_zeros: "readHex 0 (replicate k CHR ''0'' @ x) = readHex 0 x"
  by (induction k) (simp_all add: code_def)

lemma readHex_digit: "d < 16 \<Longrightarrow> readHex acc [hexDigit d] = 16 * acc + d"
  by (simp add: hexDigit_def code_def)

lemma readHex_show: "readHex 0 (show_hex n) = n"
proof (induction n rule: show_hex.induct)
  case (1 n)
  then show ?case
    by (cases "n < 16") (simp_all add: show_hex.simps [of n] readHex_append readHex_digit del: readHex.simps)
qed

lemma show_hex_length: "n < 16 ^ Suc k \<Longrightarrow> length (show_hex n) \<le> Suc k"
proof (induction k arbitrary: n)
  case 0
  then show ?case by (simp add: show_hex.simps [of n])
next
  case (Suc k)
  have "n div 16 < 16 ^ Suc k" using Suc.prems by (simp add: less_mult_imp_div_less mult.commute)
  from Suc.IH [OF this] show ?case by (simp add: show_hex.simps [of n])
qed

lemma hex8_length: "length (hex8 v) = 8"
proof -
  have "unat v < 16 ^ Suc 7" using unsigned_less [of v, where ?'a = nat] by simp
  from show_hex_length [OF this] show ?thesis by (simp add: hex8_def Let_def)
qed

lemma hex8_inject: "hex8 a = hex8 b \<longleftrightarrow> a = b"
proof
  assume "hex8 a = hex8 b"
  then have "readHex 0 (hex8 a) = readHex 0 (hex8 b)" by simp
  then show "a = b" by (simp add: hex8_def Let_def readHex_zeros readHex_show word_unat_eq_iff)
qed simp

section \<open>Tables\<close>

text \<open>A line as a text: the cells padded on the right and joined by a separator.\<close>

fun joinWith :: "string \<Rightarrow> string list \<Rightarrow> string" where
  "joinWith sep [] = []"
| "joinWith sep [x] = x"
| "joinWith sep (x # y # ys) = x @ sep @ joinWith sep (y # ys)"

definition tableLine :: "nat list \<Rightarrow> string list \<Rightarrow> string" where
  "tableLine widths cells = joinWith '' | '' (map2 (padded True) widths cells)"

definition tableRule :: "nat list \<Rightarrow> string" where
  "tableRule widths = joinWith ''-+-'' (map (\<lambda>w. replicate w CHR ''-'') widths)"

lemma joinWith_Cons: "joinWith sep (x # xs) = x @ concat (map (\<lambda>y. sep @ y) xs)"
  by (induction xs arbitrary: x) simp_all

lemma joinWith_length:
  "length (joinWith sep xs) = sum_list (map length xs) + length sep * (length xs - 1)"
proof (cases xs)
  case (Cons x ys)
  have "length (concat (map (\<lambda>y. sep @ y) ys)) = sum_list (map length ys) + length sep * length ys"
    by (induction ys) simp_all
  with Cons show ?thesis by (simp add: joinWith_Cons)
qed simp

lemma printCells_text:
  "co_text (printCells started cells c) = co_text c
     @ (if started then concat (map (\<lambda>(w, x). '' | '' @ padded True w x) cells)
        else joinWith '' | '' (map (\<lambda>(w, x). padded True w x) cells))"
proof (induction started cells c rule: printCells.induct)
  case (2 started w x cells c)
  then show ?case
    by (simp add: put_def putw_def setLeft_def joinWith_Cons o_def split_def)
qed simp

lemma printRule_text:
  "co_text (printRule started ws c) = co_text c
     @ (if started then concat (map (\<lambda>w. ''-+-'' @ replicate w CHR ''-'') ws) else tableRule ws)"
proof (induction started ws c rule: printRule.induct)
  case (2 started w ws c)
  then show ?case by (simp add: put_def tableRule_def joinWith_Cons o_def)
qed (simp add: tableRule_def)

lemma printLine_text: "co_text (printCells False (zip widths cells) c) = co_text c @ tableLine widths cells"
  by (simp add: printCells_text tableLine_def)

lemma printRows_text:
  "co_text (printRows cols widths rows c) = co_text c
     @ concat (map (\<lambda>row. tableLine widths (map (cellText row) cols) @ nl) rows)"
  by (induction rows arbitrary: c) (simp_all add: put_def printLine_text)

lemma columnWidth_start: "w \<le> columnWidth col rows w"
proof (induction rows arbitrary: w)
  case (Cons row rows)
  have "w \<le> (case rr_stringValues row col of None \<Rightarrow> (case rr_values row col of None \<Rightarrow> w | Some v \<Rightarrow> max w (length (show_int v)))
      | Some t \<Rightarrow> max (case rr_values row col of None \<Rightarrow> w | Some v \<Rightarrow> max w (length (show_int v))) (length t))"
    by (auto simp: le_max_iff_disj split: option.split)
  also have "\<dots> \<le> columnWidth col (row # rows) w" using Cons.IH by (simp add: Let_def)
  finally show ?case .
qed simp

lemma columnWidth_cell:
  "row \<in> set rows \<Longrightarrow> rr_values row col \<noteq> None \<or> rr_stringValues row col \<noteq> None \<Longrightarrow>
   length (cellText row col) \<le> columnWidth col rows w"
proof (induction rows arbitrary: w)
  case (Cons r rows)
  show ?case
  proof (cases "row = r")
    case True
    let ?w1 = "case rr_values r col of None \<Rightarrow> w | Some v \<Rightarrow> max w (length (show_int v))"
    let ?w2 = "case rr_stringValues r col of None \<Rightarrow> ?w1 | Some t \<Rightarrow> max ?w1 (length t)"
    have "length (cellText r col) \<le> ?w2"
      using Cons.prems(2) True by (auto simp: cellText_def split: option.split)
    also have "\<dots> \<le> columnWidth col rows ?w2" by (rule columnWidth_start)
    finally show ?thesis using True by (simp add: Let_def)
  next
    case False
    with Cons show ?thesis by (simp add: Let_def)
  qed
qed simp

lemma padded_length: "length (padded left n x) = max n (length x)"
  by (auto simp: padded_def Let_def max_def)

lemma tableLine_length:
  assumes "list_all2 (\<lambda>w x. length x \<le> w) widths cells"
  shows "length (tableLine widths cells) = sum_list widths + 3 * (length widths - 1)"
proof -
  from assms have "map length (map2 (padded True) widths cells) = widths"
    by (induction rule: list_all2_induct) (simp_all add: padded_length)
  with assms show ?thesis by (simp add: tableLine_def joinWith_length list_all2_lengthD)
qed

lemma tableRule_length: "length (tableRule widths) = sum_list widths + 3 * (length widths - 1)"
  by (simp add: tableRule_def joinWith_length o_def)

section \<open>Properties\<close>

text \<open>A query id is 16 characters, and two ids are equal only when both draws
  of the generator are.\<close>

lemma queryId_injective:
  "length (makeQueryId a b) = 16 \<and> (makeQueryId a b = makeQueryId c d \<longleftrightarrow> a = c \<and> b = d)"
  by (simp add: makeQueryId_def hex8_length hex8_inject append_eq_append_conv)

text \<open>When every row has a value in every displayed column, the table is the header,
  the rule and one line per row, every line as wide as the others.\<close>

lemma table_aligned:
  fixes rows cols
  defines "widths \<equiv> map (\<lambda>col. columnWidth col rows (length col)) cols"
  defines "body \<equiv> tableLine widths cols # tableRule widths # map (\<lambda>row. tableLine widths (map (cellText row) cols)) rows"
  assumes "rows \<noteq> []"
    and full: "\<forall>row\<in>set rows. \<forall>col\<in>set cols. rr_values row col \<noteq> None \<or> rr_stringValues row col \<noteq> None"
  shows "co_text (printResult cols rows c) = co_text c @ concat (map (\<lambda>l. l @ nl) body) @ rowCount (length rows)
     \<and> (\<forall>l\<in>set body. length l = sum_list widths + 3 * (length cols - 1))"
proof
  show "co_text (printResult cols rows c) = co_text c @ concat (map (\<lambda>l. l @ nl) body) @ rowCount (length rows)"
    using assms(3)
    by (simp add: printResult_def Let_def put_def printRows_text printRule_text printLine_text body_def widths_def o_def)
  have "length (tableLine widths cols) = sum_list widths + 3 * (length widths - 1)"
    by (rule tableLine_length) (simp add: widths_def list_all2_conv_all_nth columnWidth_start)
  moreover have "length (tableLine widths (map (cellText row) cols)) = sum_list widths + 3 * (length widths - 1)"
    if "row \<in> set rows" for row
    by (rule tableLine_length)
      (use that full in \<open>simp add: widths_def list_all2_conv_all_nth columnWidth_cell\<close>)
  moreover have "length widths = length cols" by (simp add: widths_def)
  ultimately show "\<forall>l\<in>set body. length l = sum_list widths + 3 * (length cols - 1)"
    by (simp add: body_def tableRule_length)
qed

lemma table_aligned_example:
  "co_text (printResult [''id''] [\<lparr>rr_values = [''id'' \<mapsto> 100], rr_stringValues = Map.empty\<rparr>] \<lparr>co_text = [], co_left = False\<rparr>)
   = ''id '' @ nl @ ''---'' @ nl @ ''100'' @ nl @ rowCount 1"
proof -
  let ?rows = "[\<lparr>rr_values = [''id'' \<mapsto> 100], rr_stringValues = Map.empty\<rparr>]"
  have n: "show_int 100 = ''100''" by code_simp
  have "co_text (printResult [''id''] ?rows \<lparr>co_text = [], co_left = False\<rparr>) = [] @ concat (map (\<lambda>l. l @ nl)
      (tableLine [columnWidth ''id'' ?rows (length ''id'')] [''id''] # tableRule [columnWidth ''id'' ?rows (length ''id'')]
       # map (\<lambda>row. tableLine [columnWidth ''id'' ?rows (length ''id'')] (map (cellText row) [''id''])) ?rows)) @ rowCount (length ?rows)"
    using table_aligned [of ?rows "[''id'']" "\<lparr>co_text = [], co_left = False\<rparr>"] by simp
  also have "\<dots> = ''id '' @ nl @ ''---'' @ nl @ ''100'' @ nl @ rowCount 1"
    by (simp add: n tableLine_def tableRule_def padded_def cellText_def numeral_eq_Suc)
  finally show ?thesis .
qed

end
