(* ===== verification/Hega_Client.thy ===== *)
theory Hega_Client
  imports Hega_Console
begin

text \<open>
  The client program (\<open>client/client_main.cpp\<close>): one query from its text to the printed table, the
  terminal loop, the setup and \<open>main\<close>.  The clock, the random draws and the socket of a query are
  arguments, as is the FHE context that the query sees (encryption is randomised).  An exception
  that is not caught ends the program.  The banner of \<open>main\<close> is not modelled.
\<close>

section \<open>Definitions\<close>

subsection \<open>One query\<close>

record QueryWorld =
  qw_clock :: "nat \<Rightarrow> int"
  qw_random :: "u32 \<times> u32"
  qw_connect :: ConnectOutcome

record Endpoint =
  ep_host :: string
  ep_port :: "16 word"

fun isParseError :: "err \<Rightarrow> bool" where
  "isParseError (ParseError m) = True"
| "isParseError e = False"

fun isSemanticError :: "err \<Rightarrow> bool" where
  "isSemanticError (SemanticError m) = True"
| "isSemanticError e = False"

text \<open>\<open>duration_cast<milliseconds>\<close> of the difference of two readings in nanoseconds.\<close>

definition elapsedMs :: "QueryWorld \<Rightarrow> nat \<Rightarrow> nat \<Rightarrow> int" where
  "elapsedMs w a b =
     (let d = qw_clock w b - qw_clock w a in if d < 0 then - ((- d) div 1000000) else d div 1000000)"

definition clientMeta :: "'ct Fhe \<Rightarrow> FHEParamsMeta" where
  "clientMeta F = \<lparr>fm_paramSetId = fhe_paramSetId F, fm_plaintextModulus = 0, fm_multiplicativeDepth = 0,
     fm_ringDimension = 0, fm_slotCount = of_nat (fhe_slotCount F), fm_keyId = ''key-0''\<rparr>"

text \<open>Planning, encryption and the query id.\<close>

definition preparePackage ::
  "'ct Fhe \<Rightarrow> Catalog \<Rightarrow> QueryWorld \<Rightarrow> SelectStatement \<Rightarrow> TableSchema \<Rightarrow> (PhysicalPlan \<times> QueryPackage) result" where
  "preparePackage F cat w stmt schema =
     bindE (planStatement stmt schema) (\<lambda>plan.
     bindE (encryptCatalog F stmt plan cat (clientMeta F)) (\<lambda>pkg.
     Inr (plan, pkg\<lparr>pk_queryId := makeQueryId (fst (qw_random w)) (snd (qw_random w))\<rparr>)))"

definition reportQuery :: "Archive \<Rightarrow> PhysicalPlan \<Rightarrow> QueryPackage \<Rightarrow> Console \<Rightarrow> Console" where
  "reportQuery ar plan pkg =
     put (nl @ ''[Query ID] '' @ pk_queryId pkg @ nl
        @ ''[Plan]     table='' @ pp_tableName plan
        @ '' scan='' @ show_nat (length (pp_scanColumns plan))
        @ '' project='' @ show_nat (length (pp_projectColumns plan))
        @ '' filter='' @ (if pp_hasFilter plan then ''yes'' else ''no'') @ nl
        @ ''[Literals] '' @ show_nat (length (pk_encryptedLiterals pkg)) @ '' encrypted'' @ nl
        @ ''[Package]  '' @ show_nat (length (serializePackage ar pkg)) @ '' bytes'' @ nl)"

definition decodeBatches :: "'ct Fhe \<Rightarrow> EncryptedResultBatch list \<Rightarrow> ResultRow list result" where
  "decodeBatches F batches =
     foldE (\<lambda>batch allRows. bindE (decode F batch) (\<lambda>rows. Inr (allRows @ rows))) batches []"

definition displayColumns :: "SelectStatement \<Rightarrow> PhysicalPlan \<Rightarrow> string list" where
  "displayColumns stmt plan = (if st_projections stmt = [] then pp_projectColumns plan else st_projections stmt)"

text \<open>The readings: 0 at the start, then before and after each stage, 15 at the end.\<close>

definition queryMetrics ::
  "Archive \<Rightarrow> QueryWorld \<Rightarrow> QueryPackage \<Rightarrow> QueryResponse \<Rightarrow> EncryptedResultBatch list \<Rightarrow> ClientMetrics" where
  "queryMetrics ar w pkg resp batches =
     (let net = elapsedMs w 11 12; half = (if net < 0 then - ((- net) div 2) else net div 2) in
      \<lparr>mt_parseMs = elapsedMs w 1 2, mt_semanticMs = elapsedMs w 3 4, mt_planMs = elapsedMs w 5 6,
       mt_encryptMs = elapsedMs w 7 8, mt_serializeMs = elapsedMs w 9 10,
       mt_networkUpMs = half, mt_networkDownMs = half,
       mt_decryptMs = elapsedMs w 13 14, mt_reconstructMs = 0, mt_totalMs = elapsedMs w 0 15,
       mt_queryPackageBytes = length (serializePackage ar pkg),
       mt_resultBytesReceived = answerBytes batches, mt_batchCount = qr_batchCount resp\<rparr>)"

text \<open>The rest of \<open>executeQuery\<close> once the package is built.\<close>

definition exchange ::
  "Archive \<Rightarrow> (err \<Rightarrow> string) \<Rightarrow> 'ct Fhe \<Rightarrow> Endpoint \<Rightarrow> QueryWorld \<Rightarrow> SelectStatement \<Rightarrow> PhysicalPlan \<Rightarrow> QueryPackage \<Rightarrow>
   Console \<Rightarrow> unit result \<times> Console \<times> Socket option" where
  "exchange ar std F ep w stmt plan pkg c =
     (let c1 = reportQuery ar plan pkg c in
      case sendQuery ar (connectSocket (ep_host ep) (unat (ep_port ep)) (qw_connect w)) pkg [] of
        (Inl e, _, s) \<Rightarrow> (Inr (), put (''Error: Network: '' @ what std e @ nl) c1, s)
      | (Inr resp, batches, s) \<Rightarrow>
          if \<not> qr_success resp then (Inr (), put (''Error: Server: '' @ qr_errorMessage resp @ nl) c1, s)
          else (case decodeBatches F batches of
                  Inl e \<Rightarrow> (Inl e, c1, s)
                | Inr allRows \<Rightarrow>
                    (let rows = applySortAndLimit allRows (st_orderByColumns stmt) (st_limitCount stmt) in
                     (Inr (), printMetrics (queryMetrics ar w pkg resp batches)
                        (printResult (displayColumns stmt plan) rows (put nl c1)), s))))"

definition executeQuery ::
  "Archive \<Rightarrow> (err \<Rightarrow> string) \<Rightarrow> 'ct Fhe \<Rightarrow> Catalog \<Rightarrow> Endpoint \<Rightarrow> QueryWorld \<Rightarrow> string \<Rightarrow> Console \<Rightarrow>
   unit result \<times> Console \<times> Socket option" where
  "executeQuery ar std F cat ep w sql c =
     (case parse sql of
        Inl e \<Rightarrow> if isParseError e then (Inr (), put (''Error: '' @ what std e @ nl) c, None) else (Inl e, c, None)
      | Inr stmt \<Rightarrow>
          (case analyze cat stmt of
             Inl e \<Rightarrow> if isSemanticError e then (Inr (), put (''Error: '' @ what std e @ nl) c, None) else (Inl e, c, None)
           | Inr schema \<Rightarrow>
               (case preparePackage F cat w stmt schema of
                  Inl e \<Rightarrow> (Inl e, c, None)
                | Inr (plan, pkg) \<Rightarrow> exchange ar std F ep w stmt plan pkg c)))"

subsection \<open>The terminal loop\<close>

fun quoteLoop :: "bool \<Rightarrow> string \<Rightarrow> bool" where
  "quoteLoop inString [] = inString"
| "quoteLoop inString [c] = (if c \<noteq> quote then inString else \<not> inString)"
| "quoteLoop inString (c # d # cs) =
     (if c \<noteq> quote then quoteLoop inString (d # cs)
      else if inString \<and> d = quote then quoteLoop inString cs
      else quoteLoop (\<not> inString) (d # cs))"

definition hasStatementTerminator :: "string \<Rightarrow> bool" where
  "hasStatementTerminator sql \<longleftrightarrow> \<not> quoteLoop False sql \<and> CHR '';'' \<in> set sql"

definition trimRight :: "string \<Rightarrow> string" where
  "trimRight line = rev (dropWhile isspace (rev line))"

datatype ClientEnd = Goodbye | Aborted err

definition prompt :: "string \<Rightarrow> Console \<Rightarrow> Console" where
  "prompt sql = put (if sql = [] then ''SQL> '' else ''  -> '')"

definition goodbye :: "Console \<Rightarrow> Console" where
  "goodbye = put (nl @ ''Goodbye.'' @ nl)"

text \<open>\<open>qs k\<close> is the context and the surroundings of the k-th query.  The third component is the
  sockets of the queries, as they were left.\<close>

fun repl ::
  "Archive \<Rightarrow> (err \<Rightarrow> string) \<Rightarrow> Catalog \<Rightarrow> Endpoint \<Rightarrow> (nat \<Rightarrow> 'ct Fhe \<times> QueryWorld) \<Rightarrow> nat \<Rightarrow> string list \<Rightarrow> string \<Rightarrow>
   Console \<Rightarrow> ClientEnd \<times> Console \<times> Socket option list" where
  "repl ar std cat ep qs k [] sql c = (Goodbye, goodbye (prompt sql c), [])"
| "repl ar std cat ep qs k (line0 # lines) sql c =
     (let c1 = prompt sql c; line = trimRight line0 in
      if line = ''exit'' \<or> line = ''quit'' then (Goodbye, goodbye c1, [])
      else if line = [] then repl ar std cat ep qs k lines sql c1
      else let sql1 = sql @ (if sql = [] then [] else '' '') @ line in
        if \<not> hasStatementTerminator sql1 then repl ar std cat ep qs k lines sql1 c1
        else (case parse sql1 of
            Inl e \<Rightarrow>
              if isParseError e then repl ar std cat ep qs k lines [] (put (''Error: '' @ what std e @ nl) c1)
              else (Aborted e, c1, [])
          | Inr _ \<Rightarrow>
              (case executeQuery ar std (fst (qs k)) cat ep (snd (qs k)) sql1 c1 of
                 (Inl e, c2, s) \<Rightarrow>
                   if isParseError e
                   then (let (r, c3, ss) = repl ar std cat ep qs (Suc k) lines [] (put (''Error: '' @ what std e @ nl) c2)
                         in (r, c3, s # ss))
                   else (Aborted e, c2, [s])
               | (Inr _, c2, s) \<Rightarrow>
                   (let (r, c3, ss) = repl ar std cat ep qs (Suc k) lines [] c2 in (r, c3, s # ss)))))"

subsection \<open>Setup\<close>

text \<open>The library calls of \<open>--setup\<close> in order.  A proto1 schema is its initializer: the name, and for
  each column the name, the type and the width where one is given.\<close>

record FHEParameterSet =
  ps_id :: string
  ps_plaintextModulus :: nat
  ps_multiplicativeDepth :: nat
  ps_ringDimension :: nat

record Proto1Schema =
  p1s_name :: string
  p1s_columns :: "(string \<times> DataType \<times> nat option) list"

datatype SetupAction =
    CreateContext FHEParameterSet
  | CreateDirectories string
  | SaveServerKeys string
  | SavePrivateKey string
  | RequireFile string
  | CopyFile string string
  | OpenStorage string
  | IngestCSV string Proto1Schema nat
  | RemoveFile string

definition setupParams :: FHEParameterSet where
  "setupParams = \<lparr>ps_id = ''bfv-257-depth12'', ps_plaintextModulus = 257, ps_multiplicativeDepth = 12,
     ps_ringDimension = 128\<rparr>"

definition employeesIngest :: Proto1Schema where
  "employeesIngest = \<lparr>p1s_name = ''employees'', p1s_columns =
     [(''id'', INT64, None), (''age'', INT64, None), (''salary'', INT64, None), (''department_id'', INT64, None),
      (''name'', STRING, Some 16)]\<rparr>"

definition departmentsIngest :: Proto1Schema where
  "departmentsIngest = \<lparr>p1s_name = ''departments'', p1s_columns =
     [(''id'', INT64, None), (''department_name'', STRING, Some 16)]\<rparr>"

text \<open>\<open>ClientCryptoContext::create\<close> and \<open>saveKeys\<close>: the private key goes into a directory below that of the
  server's keys.\<close>

definition contextCreate :: "FHEParameterSet \<Rightarrow> SetupAction list" where
  "contextCreate params = [CreateContext params]"

definition saveKeys :: "string \<Rightarrow> SetupAction list" where
  "saveKeys dir = [SaveServerKeys dir, SavePrivateKey (dir @ ''/client'')]"

definition setupActions :: "string \<Rightarrow> string \<Rightarrow> string \<Rightarrow> string \<Rightarrow> SetupAction list" where
  "setupActions sourceDir tmpDir keysDir dataDir =
     (let bundledCsv = sourceDir @ ''/data.csv''; tmpCsv = tmpDir @ ''/proto2_employees.csv'';
          departmentsCsv = sourceDir @ ''/departments.csv''; departmentsTmp = tmpDir @ ''/proto2_departments.csv'' in
      contextCreate setupParams @ [CreateDirectories keysDir] @ saveKeys keysDir @
      [RequireFile bundledCsv, CopyFile bundledCsv tmpCsv,
       CreateDirectories dataDir, OpenStorage dataDir, IngestCSV tmpCsv employeesIngest 1,
       RequireFile departmentsCsv, CopyFile departmentsCsv departmentsTmp,
       IngestCSV departmentsTmp departmentsIngest 1, RemoveFile departmentsTmp, RemoveFile tmpCsv])"

text \<open>\<open>outcome\<close> is the exception of a call, if it throws; the calls done so far are kept.\<close>

fun runActions :: "(SetupAction \<Rightarrow> err option) \<Rightarrow> SetupAction list \<Rightarrow> SetupAction list \<times> unit result" where
  "runActions outcome [] = ([], Inr ())"
| "runActions outcome (a # as) =
     (case outcome a of
        Some e \<Rightarrow> ([], Inl e)
      | None \<Rightarrow> (let (done', r) = runActions outcome as in (a # done', r)))"

text \<open>A file that is required and missing throws.\<close>

definition missingDataset :: "string \<Rightarrow> err" where
  "missingDataset path = RuntimeError (''Dataset not found: '' @ path)"

definition setupOutcome :: "(string \<Rightarrow> bool) \<Rightarrow> (SetupAction \<Rightarrow> err option) \<Rightarrow> SetupAction \<Rightarrow> err option" where
  "setupOutcome exists calls a =
     (case a of RequireFile p \<Rightarrow> if exists p then None else Some (missingDataset p) | _ \<Rightarrow> calls a)"

definition runSetup ::
  "(string \<Rightarrow> bool) \<Rightarrow> (SetupAction \<Rightarrow> err option) \<Rightarrow> string \<Rightarrow> string \<Rightarrow> string \<Rightarrow> string \<Rightarrow> SetupAction list \<times> unit result" where
  "runSetup exists calls sourceDir tmpDir keysDir dataDir =
     runActions (setupOutcome exists calls) (setupActions sourceDir tmpDir keysDir dataDir)"

subsection \<open>The program\<close>

record 'ct ClientEnv =
  ce_exists :: "string \<Rightarrow> bool"
  ce_calls :: "SetupAction \<Rightarrow> err option"
  ce_sourceDir :: string
  ce_tmpDir :: string
  ce_loadContext :: "string \<Rightarrow> (nat \<Rightarrow> 'ct Fhe) result"
  ce_worlds :: "nat \<Rightarrow> QueryWorld"
  ce_lines :: "string list"

datatype ClientRun =
    Session ClientEnd Console "Socket option list"
  | SetupRun "SetupAction list" "unit result"
  | Exited int
  | BadArgument

definition clientMain :: "Archive \<Rightarrow> (err \<Rightarrow> string) \<Rightarrow> 'ct ClientEnv \<Rightarrow> string list \<Rightarrow> ClientRun" where
  "clientMain ar std env argv =
     (case clientArgs argv defaultClientArgs of
        ExitCode n \<Rightarrow> Exited n
      | Terminated \<Rightarrow> BadArgument
      | Run a \<Rightarrow>
          if ca_setup a then
            (let (acts, r) = runSetup (ce_exists env) (ce_calls env) (ce_sourceDir env) (ce_tmpDir env) (ca_keysDir a) (ca_dataDir a)
             in SetupRun acts r)
          else if \<not> ce_exists env (ca_keysDir a) then Exited 1
          else (case clientContextLoad (ce_loadContext env) (ca_keysDir a) of
              Inl _ \<Rightarrow> Exited 1
            | Inr Fs \<Rightarrow>
                (let c0 = put (''[Client] FHE context loaded: paramSetId='' @ fhe_paramSetId (Fs 0)
                            @ '' slotCount='' @ show_nat (fhe_slotCount (Fs 0)) @ nl
                            @ ''[Client] Server: '' @ ca_host a @ '':'' @ show_nat (unat (ca_port a)) @ nl
                            @ ''[Client] Type SQL queries. '' @ [quote] @ ''exit'' @ [quote] @ '' or Ctrl-D to quit.'' @ nl @ nl)
                          \<lparr>co_text = [], co_left = False\<rparr>;
                     (r, c, ss) = repl ar std makeEmployeesCatalog \<lparr>ep_host = ca_host a, ep_port = ca_port a\<rparr>
                                    (\<lambda>k. (Fs k, ce_worlds env k)) 0 (ce_lines env) [] c0
                 in Session r c ss)))"

section \<open>The end of a statement\<close>

lemma quoteLoop_parity: "quoteLoop b s \<longleftrightarrow> b \<noteq> odd (count_list s quote)"
  by (induction b s rule: quoteLoop.induct) auto

section \<open>Sessions\<close>

declare repl.simps [simp del]

text \<open>A line that is a whole statement by itself.\<close>

definition wholeStatement :: "string \<Rightarrow> string \<Rightarrow> bool" where
  "wholeStatement line0 line \<longleftrightarrow> trimRight line0 = line \<and> line \<notin> {[], ''exit'', ''quit''} \<and> hasStatementTerminator line"

lemma repl_statement:
  assumes "wholeStatement line0 line" "parse line = Inr s"
    "executeQuery ar std (fst (qs k)) cat ep (snd (qs k)) line (prompt [] c) = (Inl e, c2, so)" "\<not> isParseError e"
  shows "repl ar std cat ep qs k (line0 # lines) [] c = (Aborted e, c2, [so])"
  using assms by (simp add: repl.simps(2) wholeStatement_def Let_def)

lemma repl_rejected:
  assumes "wholeStatement line0 line" "parse line = Inl (ParseError m)"
  shows "repl ar std cat ep qs k (line0 # lines) [] c =
     repl ar std cat ep qs k lines [] (put (''Error: '' @ m @ nl) (prompt [] c))"
  using assms by (simp add: repl.simps(2) wholeStatement_def Let_def)

lemma repl_continues:
  assumes "wholeStatement line0 line" "parse line = Inr s"
    "executeQuery ar std (fst (qs k)) cat ep (snd (qs k)) line (prompt [] c) = (Inr (), c2, so)"
  shows "repl ar std cat ep qs k (line0 # lines) [] c =
     (let (r, c3, ss) = repl ar std cat ep qs (Suc k) lines [] c2 in (r, c3, so # ss))"
  using assms by (simp add: repl.simps(2) wholeStatement_def Let_def)

section \<open>Two sample lines\<close>

definition badLine :: string where
  "badLine = ''SELECT * FROM employees e WHERE e.foo = 1;''"

lemma badLine_parsed: "parse badLine = Inr unknownColumnStmt"
  by code_simp

lemma badLine_whole: "wholeStatement (badLine @ '' '') badLine" "wholeStatement ''SHOW;'' ''SHOW;''"
  by code_simp+

lemma badLine_rest: "analyze makeEmployeesCatalog (unknownColumnStmt\<lparr>st_whereClause := None\<rparr>) = Inr employeesSchema"
  by code_simp

lemma badLine_clause:
  "st_whereClause unknownColumnStmt = Some (Comparison Equal (ColumnRef (''e'' @ CHR ''.'' # ''foo'')) (IntLiteral 1))"
  "CHR ''.'' \<notin> set ''e''" "whereTable unknownColumnStmt ''e'' = Some ''employees''"
  "cat_tables makeEmployeesCatalog ''employees'' = Some employeesSchema" "\<not> hasColumn employeesSchema ''foo''"
  by (simp_all add: unknownColumnStmt_def whereTable_def encSample_columns) code_simp

definition emptyConsole :: Console where
  "emptyConsole = \<lparr>co_text = [], co_left = False\<rparr>"

definition deadWorld :: QueryWorld where
  "deadWorld = \<lparr>qw_clock = (\<lambda>_. 0), qw_random = (0, 0), qw_connect = NotConnected\<rparr>"

definition localhost :: Endpoint where
  "localhost = \<lparr>ep_host = ''127.0.0.1'', ep_port = 7777\<rparr>"

section \<open>Properties\<close>

text \<open>The loop over the quotes is a parity: a text is taken for a complete statement
  exactly when it has an even number of quotes and a semicolon anywhere, even inside a closed
  string literal.\<close>

lemma terminator_iff:
  "hasStatementTerminator sql \<longleftrightarrow> even (count_list sql quote) \<and> CHR '';'' \<in> set sql"
  by (simp add: hasStatementTerminator_def quoteLoop_parity)

text \<open>C38: a statement that does not parse or is rejected with a
  \<open>SemanticError\<close> is reported, and the session goes on with the next line as if it had not been
  typed, having sent nothing.\<close>

theorem rejected_statement_keeps_session:
  assumes "wholeStatement line0 line"
    and "parse line = Inl (ParseError m) \<or> (\<exists>s. parse line = Inr s \<and> analyze cat s = Inl (SemanticError m))"
  shows "\<exists>k' quiet. (\<forall>so\<in>set quiet. so = None)
     \<and> repl ar std cat ep qs k (line0 # lines) [] c =
       (let (r, c3, ss) = repl ar std cat ep qs k' lines [] (put (''Error: '' @ m @ nl) (prompt [] c)) in (r, c3, quiet @ ss))"
proof (cases "parse line")
  case (Inl e)
  with assms have "e = ParseError m" by auto
  with repl_rejected [OF assms(1), of m] Inl show ?thesis
    by (intro exI [of _ k] exI [of _ "[]"]) (simp add: split_def)
next
  case (Inr s)
  with assms have "executeQuery ar std (fst (qs k)) cat ep (snd (qs k)) line (prompt [] c) =
      (Inr (), put (''Error: '' @ m @ nl) (prompt [] c), None)"
    by (auto simp: executeQuery_def)
  from repl_continues [where qs = qs and k = k, OF assms(1) Inr this] show ?thesis
    by (intro exI [of _ "Suc k"] exI [of _ "[None]"]) (simp add: split_def)
qed

theorem rejected_statement_keeps_session_witness:
  "\<exists>m. fst (repl unaryArchive (\<lambda>_. []) makeEmployeesCatalog localhost (\<lambda>_. (plainFhe, deadWorld)) 0 [''SHOW;''] [] emptyConsole) = Goodbye
     \<and> parse ''SHOW;'' = Inl (ParseError m)"
proof -
  obtain m where m: "parse ''SHOW;'' = Inl (ParseError m)"
  proof -
    have "(case parse ''SHOW;'' of Inl e \<Rightarrow> isParseError e | Inr _ \<Rightarrow> False)" by code_simp
    with that show thesis by (auto split: sum.splits elim!: isParseError.elims)
  qed
  from rejected_statement_keeps_session [OF badLine_whole(2), of m makeEmployeesCatalog unaryArchive "\<lambda>_. []" localhost
      "\<lambda>_. (plainFhe, deadWorld)" 0 "[]" emptyConsole] m
  show ?thesis by (auto simp: repl.simps(1) Let_def split_def)
qed

text \<open>C31: a WHERE comparison of a qualified column that its table does
  not have is no semantic error for the analyzer: the exception is not caught, and the client
  program ends, whatever lines follow.\<close>

theorem unknown_where_column_ends_session:
  assumes line: "wholeStatement line0 line" "parse line = Inr s"
    and rest: "analyze cat (s\<lparr>st_whereClause := None\<rparr>) = Inr t"
    and clause: "st_whereClause s = Some (Comparison k (ColumnRef (a @ CHR ''.'' # n)) (IntLiteral i))"
      "CHR ''.'' \<notin> set a" "whereTable s a = Some tn" "cat_tables cat tn = Some u" "\<not> hasColumn u n"
  shows "repl ar std cat ep qs q (line0 # lines) [] c = (Aborted (columnNotFound n), prompt [] c, [None])"
proof (rule repl_statement [OF line])
  have "analyze cat s = Inl (columnNotFound n)" by (rule unknown_where_column [OF rest clause])
  with line(2) show "executeQuery ar std (fst (qs q)) cat ep (snd (qs q)) line (prompt [] c) =
      (Inl (columnNotFound n), prompt [] c, None)"
    by (simp add: executeQuery_def columnNotFound_def)
qed (simp add: columnNotFound_def)

theorem unknown_where_column_ends_session_witness:
  "repl unaryArchive (\<lambda>_. []) makeEmployeesCatalog localhost (\<lambda>_. (plainFhe, deadWorld)) 0
     [badLine @ '' '', ''SELECT * FROM employees;''] [] emptyConsole =
   (Aborted (columnNotFound ''foo''), prompt [] emptyConsole, [None])"
  by (rule unknown_where_column_ends_session [OF badLine_whole(1) badLine_parsed badLine_rest badLine_clause])

text \<open>C39: what can leave \<open>executeQuery\<close>: a signed overflow in the parser, an unknown
  column, an error of planning or encryption, or one of decoding a successful answer.  No failure
  of the network or of the server is among them.\<close>

theorem escaping_errors:
  assumes "executeQuery ar std F cat ep w sql c = (Inl e, c', so)"
  shows "(parse sql = Inl e \<and> \<not> isParseError e)
     \<or> (\<exists>s n. parse sql = Inr s \<and> analyze cat s = Inl e \<and> e = columnNotFound n)
     \<or> (\<exists>s t. parse sql = Inr s \<and> analyze cat s = Inr t \<and> preparePackage F cat w s t = Inl e)
     \<or> (\<exists>s t plan pkg resp batches. parse sql = Inr s \<and> analyze cat s = Inr t
          \<and> preparePackage F cat w s t = Inr (plan, pkg)
          \<and> sendQuery ar (connectSocket (ep_host ep) (unat (ep_port ep)) (qw_connect w)) pkg [] = (Inr resp, batches, so)
          \<and> qr_success resp \<and> decodeBatches F batches = Inl e)"
proof (cases "parse sql")
  case (Inl e')
  with assms show ?thesis by (simp add: executeQuery_def split: if_splits)
next
  case p: (Inr s)
  show ?thesis
  proof (cases "analyze cat s")
    case (Inl e')
    with p assms have "e' = e" "\<not> isSemanticError e" by (auto simp: executeQuery_def split: if_splits)
    with analyze_kind [OF Inl] p Inl show ?thesis by auto
  next
    case a: (Inr t)
    show ?thesis
    proof (cases "preparePackage F cat w s t")
      case (Inl e')
      with p a assms show ?thesis by (simp add: executeQuery_def)
    next
      case (Inr pp)
      obtain plan pkg where pp: "pp = (plan, pkg)" by fastforce
      obtain r batches so' where q:
        "sendQuery ar (connectSocket (ep_host ep) (unat (ep_port ep)) (qw_connect w)) pkg [] = (r, batches, so')"
        by (metis prod_cases3)
      with p a Inr pp assms show ?thesis
        by (auto simp: executeQuery_def exchange_def Let_def split: sum.splits if_splits)
    qed
  qed
qed

theorem escaping_errors_witness:
  "\<exists>e c' so n. executeQuery unaryArchive (\<lambda>_. []) plainFhe makeEmployeesCatalog localhost deadWorld badLine emptyConsole = (Inl e, c', so)
     \<and> e = columnNotFound n"
proof -
  have a: "analyze makeEmployeesCatalog unknownColumnStmt = Inl (columnNotFound ''foo'')"
    by (rule unknown_where_column [OF badLine_rest badLine_clause])
  then have q: "executeQuery unaryArchive (\<lambda>_. []) plainFhe makeEmployeesCatalog localhost deadWorld badLine emptyConsole =
      (Inl (columnNotFound ''foo''), emptyConsole, None)"
    by (simp add: executeQuery_def badLine_parsed columnNotFound_def)
  from escaping_errors [OF q] q show ?thesis by (auto simp: badLine_parsed a)
qed

text \<open>The catalog's view of an initializer.\<close>

definition schemaOf :: "Proto1Schema \<Rightarrow> TableSchema" where
  "schemaOf p = \<lparr>ts_tableId = p1s_name p, ts_columns =
     map (\<lambda>(n, ty, w). \<lparr>cs_name = n, cs_type = ty, cs_maxLength = (case w of None \<Rightarrow> 0 | Some k \<Rightarrow> k)\<rparr>) (p1s_columns p)\<rparr>"

lemma schemas_match: "schemaOf employeesIngest = employeesSchema" "schemaOf departmentsIngest = departmentsSchema"
  by (simp_all add: schemaOf_def employeesIngest_def departmentsIngest_def employeesSchema_def departmentsSchema_def)

lemma catalog_tables: "{t. \<exists>i. cat_tables makeEmployeesCatalog i = Some t} = {employeesSchema, departmentsSchema}"
proof -
  have n: "ts_tableId employeesSchema = ''employees''" "ts_tableId departmentsSchema = ''departments''"
    by (simp_all add: employeesSchema_def departmentsSchema_def)
  have "cat_tables makeEmployeesCatalog = Map.empty(''employees'' \<mapsto> employeesSchema, ''departments'' \<mapsto> departmentsSchema)"
    by (simp add: makeEmployeesCatalog_def registerTable_def emptyCatalog_def n)
  then have "ran (cat_tables makeEmployeesCatalog) = {departmentsSchema, employeesSchema}"
    by (simp add: ran_map_upd)
  then show ?thesis by (simp only: ran_def insert_commute)
qed

text \<open>Setup ingests exactly the tables of the built-in catalog, with the
  columns, types and widths that client and server look up there, in chunks of one row.\<close>

lemma setup_matches_catalog:
  "{t. \<exists>i. cat_tables makeEmployeesCatalog i = Some t} =
     schemaOf ` {p. \<exists>path n. IngestCSV path p n \<in> set (setupActions sourceDir tmpDir keysDir dataDir)}
   \<and> {n. \<exists>path p. IngestCSV path p n \<in> set (setupActions sourceDir tmpDir keysDir dataDir)} = {1}"
proof -
  have "{p. \<exists>path n. IngestCSV path p n \<in> set (setupActions sourceDir tmpDir keysDir dataDir)} =
      {employeesIngest, departmentsIngest}"
    "{n. \<exists>path p. IngestCSV path p n \<in> set (setupActions sourceDir tmpDir keysDir dataDir)} = {1}"
    by (auto simp: setupActions_def contextCreate_def saveKeys_def Let_def)
  then show ?thesis by (simp add: schemas_match catalog_tables)
qed

end
