(* ===== verification/Hega_EndToEnd.thy ===== *)
theory Hega_EndToEnd
  imports Hega_Client
begin

text \<open>
  The program as a whole: a single-table query from its text on the client through the server and
  back to the printed table.  The operators of the \<open>proto1\<close> library are parameters; \<open>operator_law\<close>
  states what their documentation promises of scan, filter and project over the stored chunks.
\<close>

section \<open>Stored tables\<close>

text \<open>A stored table: its chunks in the order of the scan, each a map from physical columns and a
  number of rows.\<close>

record 'ct StoredTable =
  sto_count :: nat
  sto_columns :: "nat \<Rightarrow> string \<Rightarrow> 'ct Chunk option"
  sto_rows :: "nat \<Rightarrow> nat"

definition scanBatch :: "'ct StoredTable \<Rightarrow> string list \<Rightarrow> nat \<Rightarrow> 'ct EncBatch" where
  "scanBatch st cols k =
     \<lparr>eb_logicalRowCount = int (sto_rows st k),
      eb_columns = (\<lambda>c. if c \<in> set cols then sto_columns st k c else None), eb_selectionMask = None\<rparr>"

definition projected :: "string list \<Rightarrow> 'ct EncBatch \<Rightarrow> 'ct EncBatch" where
  "projected ps b = b\<lparr>eb_columns := (\<lambda>c. if c \<in> set ps then eb_columns b c else None)\<rparr>"

text \<open>The stream over project, filter and scan: one batch per chunk, with the projected columns and,
  when there is a filter, the predicate evaluated on the scanned columns as its mask.\<close>

definition operator_law :: "('ct, 'e, 'op) Proto1 \<Rightarrow> string \<Rightarrow> 'ct StoredTable \<Rightarrow> bool" where
  "operator_law P table st \<longleftrightarrow> (\<forall>cols ps.
     set ps \<subseteq> set cols \<longrightarrow> (\<forall>k < sto_count st. \<forall>c\<in>set cols. sto_columns st k c \<noteq> None) \<longrightarrow>
       p1_batches P (p1_project P (p1_tableScan P table cols) ps) =
         map (\<lambda>k. Inr (projected ps (scanBatch st cols k))) [0..<sto_count st]
       \<and> (\<forall>ex. p1_batches P (p1_project P (p1_filter P (p1_tableScan P table cols) ex) ps) =
            map (\<lambda>k. bindE (p1_evaluate P ex (scanBatch st cols k)) (\<lambda>m.
                   Inr (projected ps ((scanBatch st cols k)\<lparr>eb_selectionMask := Some m\<rparr>)))) [0..<sto_count st]))"

text \<open>A chunk that holds encrypted values in range, and a table whose chunks hold given rows.\<close>

definition holds :: "'ct Fhe \<Rightarrow> 'ct Chunk option \<Rightarrow> (nat \<Rightarrow> int) \<Rightarrow> bool" where
  "holds F chunk f \<longleftrightarrow>
     (\<exists>ch ct cts. chunk = Some ch \<and> ch_ciphertexts ch = ct # cts \<and> decryptsTo F ct f)
     \<and> (\<forall>i < fhe_slotCount F. small (f i))"

definition columnStored ::
  "'ct Fhe \<Rightarrow> ('ct, 'e, 'op) Proto1 \<Rightarrow> (string \<Rightarrow> 'ct Chunk option) \<Rightarrow> Rows \<Rightarrow> ColumnSchema \<Rightarrow> bool" where
  "columnStored F P stored R cs \<longleftrightarrow>
     (if cs_type cs = STRING
      then 0 < cs_maxLength cs \<and> cs_maxLength cs < 2 ^ 32
        \<and> (\<forall>i < fhe_slotCount F. textOk (cs_maxLength cs) (rw_string R (cs_name cs) i))
        \<and> (\<forall>p < cs_maxLength cs. holds F (stored (p1_stringPhysicalColumn P (cs_name cs) p))
              (\<lambda>i. charAt (rw_string R (cs_name cs) i) p))
      else holds F (stored (cs_name cs)) (rw_int R (cs_name cs)))"

definition tableStored ::
  "'ct Fhe \<Rightarrow> ('ct, 'e, 'op) Proto1 \<Rightarrow> TableSchema \<Rightarrow> 'ct StoredTable \<Rightarrow> (nat \<Rightarrow> Rows) \<Rightarrow> bool" where
  "tableStored F P t st R \<longleftrightarrow> (\<forall>k < sto_count st.
     sto_rows st k \<le> fhe_slotCount F \<and> sto_rows st k < 2 ^ 60
     \<and> (\<forall>cs\<in>set (ts_columns t). columnStored F P (sto_columns st k) (R k) cs))"

text \<open>Clauses whose literals are in range and whose operands have the right types.\<close>

fun termFits :: "TableSchema \<Rightarrow> ASTExpr \<Rightarrow> bool" where
  "termFits t (ColumnRef n) \<longleftrightarrow> (case columnOpt t n of None \<Rightarrow> False | Some cs \<Rightarrow> cs_type cs \<noteq> STRING)"
| "termFits t (IntLiteral v) \<longleftrightarrow> 0 \<le> v \<and> v \<le> 128"
| "termFits t _ \<longleftrightarrow> False"

fun clauseFits :: "TableSchema \<Rightarrow> ASTExpr \<Rightarrow> bool" where
  "clauseFits t (Comparison k l r) \<longleftrightarrow>
     (if stringComparison l r
      then (case columnOpt t (stringColumn l r) of
              None \<Rightarrow> False
            | Some cs \<Rightarrow> cs_type cs = STRING \<and> textOk (cs_maxLength cs) (stringLiteral l r))
      else termFits t l \<and> termFits t r)"
| "clauseFits t (And l r) \<longleftrightarrow> clauseFits t l \<and> clauseFits t r"
| "clauseFits t (Or l r) \<longleftrightarrow> clauseFits t l \<and> clauseFits t r"
| "clauseFits t (NotExpr e) \<longleftrightarrow> clauseFits t e"
| "clauseFits t _ \<longleftrightarrow> False"

text \<open>The reference answer: the rows of the table that match, in storage order.\<close>

definition selectedBy :: "SelectStatement \<Rightarrow> Rows \<Rightarrow> nat \<Rightarrow> bool" where
  "selectedBy s R i = (case st_whereClause s of None \<Rightarrow> True | Some e \<Rightarrow> rowMatches R i e)"

definition columnsOf :: "TableSchema \<Rightarrow> string list \<Rightarrow> ColumnSchema list" where
  "columnsOf t names = map (\<lambda>n. the (columnOpt t n)) names"

definition answerRows ::
  "SelectStatement \<Rightarrow> TableSchema \<Rightarrow> string list \<Rightarrow> 'ct StoredTable \<Rightarrow> (nat \<Rightarrow> Rows) \<Rightarrow> ResultRow list" where
  "answerRows s t names st R =
     concat (map (\<lambda>k. map (rowOf (R k) (columnsOf t names)) (filter (selectedBy s (R k)) [0..<sto_rows st k]))
       [0..<sto_count st])"

section \<open>Physical columns\<close>

definition physicalOf :: "('ct, 'e, 'op) Proto1 \<Rightarrow> TableSchema \<Rightarrow> string \<Rightarrow> string list" where
  "physicalOf P t n = physicalNames P n (the (columnOpt t n))"

lemma expand_known:
  assumes "cat_tables cat (pk_tableName pkg) = Some t" "\<forall>n\<in>set names. hasColumn t n"
  shows "expandColumns P cat pkg names = Inr (concat (map (physicalOf P t) names))"
proof -
  have "mapE (\<lambda>name. bindE (getTable cat (pk_tableName pkg)) (\<lambda>t.
      bindE (column t name) (\<lambda>cs. Inr (physicalNames P name cs)))) names = Inr (map (physicalOf P t) names)"
  proof (intro mapE_total)
    fix n assume "n \<in> set names"
    then obtain cs where cs: "columnOpt t n = Some cs" using assms(2) by (auto simp: hasColumn_columnOpt)
    then have "column t n = Inr cs" by (simp add: column_columnOpt)
    with cs assms(1) show "bindE (getTable cat (pk_tableName pkg)) (\<lambda>t.
        bindE (column t n) (\<lambda>cs. Inr (physicalNames P n cs))) = Inr (physicalOf P t n)"
      by (simp add: getTable_def physicalOf_def)
  qed
  then show ?thesis by (simp add: expandColumns_def)
qed

lemma stored_column:
  assumes "tableStored F P t st R" "k < sto_count st" "columnOpt t n = Some cs"
  shows "columnStored F P (sto_columns st k) (R k) cs" "cs_name cs = n"
proof -
  have "column t n = Inr cs" using assms(3) by (simp add: column_columnOpt)
  from column_Inr [OF this] assms(1,2) show "columnStored F P (sto_columns st k) (R k) cs" "cs_name cs = n"
    by (auto simp: tableStored_def)
qed

lemma stored_physical:
  assumes "tableStored F P t st R" "k < sto_count st" "hasColumn t n" "c \<in> set (physicalOf P t n)"
  shows "sto_columns st k c \<noteq> None"
proof -
  obtain cs where cs: "columnOpt t n = Some cs" using assms(3) by (auto simp: hasColumn_columnOpt)
  from stored_column [OF assms(1,2) cs] assms(4) cs show ?thesis
    by (auto simp: columnStored_def physicalOf_def physicalNames_def holds_def split: if_splits)
qed

section \<open>The filter on a scan\<close>

lemma scan_held: "holds F (sto_columns st k c) f \<Longrightarrow> c \<in> set cols \<Longrightarrow> heldAs F (scanBatch st cols k) c f"
  by (simp add: holds_def heldAs_def scanBatch_def)

lemma clause_filterable:
  assumes st: "tableStored F P t st R" "k < sto_count st" and wf: "wfSchema t"
  shows "clauseFits t e \<Longrightarrow> \<forall>n\<in>exprColumns e. set (physicalOf P t n) \<subseteq> set cols \<Longrightarrow>
    filterable F P t (scanBatch st cols k) (R k) e"
proof (induction e)
  case (Comparison c l r)
  have operand: "termOk F (scanBatch st cols k) (R k) e"
    if fits: "termFits t e" and cov: "\<forall>n\<in>exprColumns e. set (physicalOf P t n) \<subseteq> set cols" for e
  proof (cases e)
    case (ColumnRef n)
    with fits obtain cs where cs: "columnOpt t n = Some cs" "cs_type cs \<noteq> STRING" by (auto split: option.splits)
    with stored_column [OF st cs(1)] cov ColumnRef show ?thesis
      by (auto simp: columnStored_def physicalOf_def physicalNames_def scan_held)
  qed (use fits in \<open>simp_all add: small_def\<close>)
  show ?case
  proof (cases "stringComparison l r")
    case True
    let ?n = "stringColumn l r"
    from True have n: "?n \<in> exprColumns (Comparison c l r)"
      by (cases l; cases r) (simp_all add: stringComparison_def stringColumn_def)
    from Comparison.prems(1) True obtain cs where cs: "columnOpt t ?n = Some cs" "cs_type cs = STRING"
      "textOk (cs_maxLength cs) (stringLiteral l r)" by (auto split: option.splits)
    have c: "column t ?n = Inr cs" using cs(1) by (simp add: column_columnOpt)
    then have "\<not> hasDot ?n" using wf column_Inr [of t ?n cs] by (auto simp: wfSchema_def list_all_iff)
    then have "column t (bareName ?n) = Inr cs" using c by (simp add: bareName_undotted)
    moreover have "heldAs F (scanBatch st cols k) (p1_stringPhysicalColumn P ?n p) (\<lambda>i. charAt (rw_string (R k) ?n i) p)"
      if "p < cs_maxLength cs" for p
    proof (rule scan_held)
      show "p1_stringPhysicalColumn P ?n p \<in> set cols"
        using Comparison.prems(2) n cs(1,2) that by (fastforce simp: physicalOf_def physicalNames_def)
    qed (use stored_column [OF st cs(1)] cs(2) that in \<open>simp add: columnStored_def\<close>)
    ultimately have "stringOk F P t (scanBatch st cols k) (R k) ?n (stringLiteral l r)"
      using stored_column [OF st cs(1)] cs(2,3) by (simp add: stringOk_def columnStored_def)
    with True show ?thesis by simp
  next
    case False
    with Comparison.prems operand show ?thesis by simp
  qed
qed simp_all

section \<open>The answer of the server\<close>

lemma stored_values:
  assumes "fhe_wire_law F" "n \<le> fhe_slotCount F" "decryptsTo F ct f"
  shows "deserializesTo F (fhe_serialize F ct) n f"
proof -
  obtain ct' where "fhe_deserializeWithSize F (fhe_serialize F ct) n = Inr ct'" "fhe_decrypt F ct' n = fhe_decrypt F ct n"
    using assms(1,2) unfolding fhe_wire_law_def by blast
  with assms(2,3) show ?thesis by (simp add: deserializesTo_def decryptVector_def decryptsTo_def)
qed

text \<open>The results of one stored column, under the name that the answer gives it.\<close>

lemma column_results:
  assumes st: "columnStored F P stored R cs" and wire: "fhe_wire_law F" and r: "n \<le> fhe_slotCount F"
    and look: "\<And>ph ch. ph \<in> set (physicalNames P (cs_name cs) cs) \<Longrightarrow> stored ph = Some ch \<Longrightarrow> look ph = Inr ch"
    and names: "rw_int R' name = rw_int R (cs_name cs)" "rw_string R' name = rw_string R (cs_name cs)"
  shows "\<exists>crs. columnResults F P look err name (cs_name cs) cs = Inr crs
     \<and> columnHolds F R' n (cs\<lparr>cs_name := name\<rparr>) crs"
proof (cases "cs_type cs = STRING")
  case False
  with st obtain ch ct cts where ch: "stored (cs_name cs) = Some ch" "ch_ciphertexts ch = ct # cts"
    "decryptsTo F ct (rw_int R (cs_name cs))" by (auto simp: columnStored_def holds_def)
  have "look (cs_name cs) = Inr ch" using False ch(1) look by (simp add: physicalNames_def)
  then have "columnResults F P look err name (cs_name cs) cs = Inr [columnResult F name cs 0 ct]"
    using False ch(2) by (simp add: columnResults_def physicalNames_def)
  with False stored_values [OF wire r ch(3)] names(1) show ?thesis
    by (simp add: columnHolds_def intResult_def columnResult_def)
next
  case True
  let ?w = "cs_maxLength cs" and ?p = "p1_stringPhysicalColumn P (cs_name cs)"
  from st True have w: "0 < ?w" "?w < 2 ^ 32" "\<forall>i < fhe_slotCount F. textOk ?w (rw_string R (cs_name cs) i)"
    and h: "\<And>p. p < ?w \<Longrightarrow> holds F (stored (?p p)) (\<lambda>i. charAt (rw_string R (cs_name cs) i) p)"
    by (auto simp: columnStored_def)
  have "\<forall>p. p < ?w \<longrightarrow> (\<exists>ct ch cts. stored (?p p) = Some ch \<and> ch_ciphertexts ch = ct # cts
      \<and> decryptsTo F ct (\<lambda>i. charAt (rw_string R (cs_name cs) i) p))" using h unfolding holds_def by blast
  then obtain ct where ct: "\<And>p. p < ?w \<Longrightarrow> \<exists>ch cts. stored (?p p) = Some ch \<and> ch_ciphertexts ch = ct p # cts
      \<and> decryptsTo F (ct p) (\<lambda>i. charAt (rw_string R (cs_name cs) i) p)" by metis
  let ?crs = "map (\<lambda>p. columnResult F name cs p (ct p)) [0..<?w]"
  have "columnResults F P look err name (cs_name cs) cs =
      Inr (map (\<lambda>(p, _). columnResult F name cs p (ct p)) (enumerate 0 (map ?p [0..<?w])))"
    unfolding columnResults_def physicalNames_def if_P [OF True]
  proof (intro mapE_total, clarsimp simp: in_set_enumerate_eq)
    fix p assume p: "p < ?w"
    from ct [OF p] obtain ch cts where ch: "stored (?p p) = Some ch" "ch_ciphertexts ch = ct p # cts" by blast
    then have "look (?p p) = Inr ch" using p True by (intro look) (simp_all add: physicalNames_def)
    with ch(2) show "bindE (look (?p p)) (\<lambda>chunk. case ch_ciphertexts chunk of [] \<Rightarrow> Inl (err (?p p))
        | c # _ \<Rightarrow> Inr (columnResult F name cs p c)) = Inr (columnResult F name cs p (ct p))" by simp
  qed
  also have "map (\<lambda>(p, _). columnResult F name cs p (ct p)) (enumerate 0 (map ?p [0..<?w])) = ?crs"
    by (intro nth_equalityI) (simp_all add: nth_enumerate_eq)
  finally have "columnResults F P look err name (cs_name cs) cs = Inr ?crs" .
  moreover have "stringResult F R' n name ?w ?crs"
    using w r ct stored_values [OF wire r] True names(2) by (fastforce simp: stringResult_def columnResult_def)
  ultimately show ?thesis using True by (auto simp: columnHolds_def)
qed

lemma batch_column:
  assumes st: "tableStored F P t st R" "k < sto_count st" and wire: "fhe_wire_law F"
    and t: "cat_tables cat (pk_tableName pkg) = Some t" "columnOpt t n = Some cs"
    and b: "\<And>c. c \<in> set (physicalOf P t n) \<Longrightarrow> eb_columns b c = sto_columns st k c"
  shows "\<exists>crs. batchColumn F P cat pkg b n = Inr crs \<and> columnHolds F (R k) (sto_rows st k) cs crs"
proof -
  note cs = stored_column [OF st t(2)]
  have r: "sto_rows st k \<le> fhe_slotCount F" using st by (simp add: tableStored_def)
  let ?look = "\<lambda>physical. case eb_columns b physical of None \<Rightarrow> Inl (missingColumn physical) | Some c \<Rightarrow> Inr c"
  have u: "batchColumn F P cat pkg b n = columnResults F P ?look emptyCiphertext n (cs_name cs) cs"
    using t cs(2) by (simp add: batchColumn_def getTable_def column_columnOpt [THEN iffD2])
  have "?look ph = Inr ch" if "ph \<in> set (physicalNames P (cs_name cs) cs)" "sto_columns st k ph = Some ch" for ph ch
    using that b [of ph] t(2) cs(2) by (simp add: physicalOf_def)
  from column_results [where look = ?look and R' = "R k" and name = n and err = emptyCiphertext, OF cs(1) wire r this]
  have "\<exists>crs. columnResults F P ?look emptyCiphertext n (cs_name cs) cs = Inr crs
      \<and> columnHolds F (R k) (sto_rows st k) (cs\<lparr>cs_name := n\<rparr>) crs" using cs(2) by simp
  moreover have "cs\<lparr>cs_name := n\<rparr> = cs" using cs(2) by (cases cs) simp
  ultimately show ?thesis using u by simp
qed

definition resultOf :: "'ct Fhe \<Rightarrow> nat \<Rightarrow> 'ct EncBatch \<Rightarrow> EncryptedColumnResult list list \<Rightarrow> EncryptedResultBatch" where
  "resultOf F i b crss =
     \<lparr>rb_batchId = of_nat i, rb_logicalRowCount = eb_logicalRowCount b, rb_columns = concat crss,
      rb_selectionMaskBytes = (case eb_selectionMask b of None \<Rightarrow> [] | Some m \<Rightarrow> fhe_serialize F m),
      rb_hasMask = (eb_selectionMask b \<noteq> None)\<rparr>"

lemma serialize_all:
  assumes "list_all2 (\<lambda>b crss. mapE (batchColumn F P cat pkg b) (pk_projectColumns pkg) = Inr crss) bs crsss"
  shows "\<exists>out. foldE (serializeResult F P cat pkg) (map Inr bs) rs = Inr (rs @ out)
    \<and> list_all2 (\<lambda>(b, crss) r. \<exists>i. r = resultOf F i b crss) (zip bs crsss) out"
  using assms
proof (induction arbitrary: rs rule: list_all2_induct)
  case (Cons b bs crss crsss)
  let ?r = "resultOf F (length rs) b crss"
  have "serializeResult F P cat pkg (Inr b) rs = Inr (rs @ [?r])"
    using Cons.hyps(1) by (simp add: serializeResult_def resultOf_def)
  with Cons.IH [of "rs @ [?r]"] show ?case by auto
qed simp

lemma decode_all:
  "list_all2 (\<lambda>b rows. decode F b = Inr rows) bs rowss \<Longrightarrow>
   foldE (\<lambda>batch allRows. bindE (decode F batch) (\<lambda>rows. Inr (allRows @ rows))) bs acc = Inr (acc @ concat rowss)"
  by (induction arbitrary: acc rule: list_all2_induct) simp_all

text \<open>A stream whose batches carry the projected columns of the chunks and a mask each.\<close>

lemma stream_answers:
  assumes st: "tableStored F P t st R" and wire: "fhe_wire_law F"
    and t: "cat_tables cat (pk_tableName pkg) = Some t"
    and names: "\<forall>n\<in>set (pk_projectColumns pkg). hasColumn t n" "distinct (pk_projectColumns pkg)"
    and outs: "\<And>k. k < sto_count st \<Longrightarrow> eb_logicalRowCount (outs k) = int (sto_rows st k)"
      "\<And>k c. k < sto_count st \<Longrightarrow> c \<in> set (concat (map (physicalOf P t) (pk_projectColumns pkg))) \<Longrightarrow>
         eb_columns (outs k) c = sto_columns st k c"
      "\<And>k. k < sto_count st \<Longrightarrow> (case eb_selectionMask (outs k) of None \<Rightarrow> \<forall>i. sel k i
         | Some m \<Rightarrow> decryptsTo F m (\<lambda>i. of_bool (sel k i)))"
  shows "\<exists>rs. foldE (serializeResult F P cat pkg) (map Inr (map outs [0..<sto_count st])) [] = Inr rs
     \<and> length rs = sto_count st
     \<and> decodeBatches F rs = Inr (concat (map (\<lambda>k. map (rowOf (R k) (columnsOf t (pk_projectColumns pkg)))
          (filter (sel k) [0..<sto_rows st k])) [0..<sto_count st]))"
proof -
  let ?ns = "pk_projectColumns pkg"
  have "\<exists>crss. mapE (batchColumn F P cat pkg (outs k)) ?ns = Inr crss
      \<and> list_all2 (columnHolds F (R k) (sto_rows st k)) (columnsOf t ?ns) crss" if k: "k < sto_count st" for k
  proof -
    have "\<forall>n. \<exists>crs. n \<in> set ?ns \<longrightarrow> batchColumn F P cat pkg (outs k) n = Inr crs
        \<and> columnHolds F (R k) (sto_rows st k) (the (columnOpt t n)) crs"
    proof
      fix n
      show "\<exists>crs. n \<in> set ?ns \<longrightarrow> batchColumn F P cat pkg (outs k) n = Inr crs
        \<and> columnHolds F (R k) (sto_rows st k) (the (columnOpt t n)) crs"
      proof (cases "n \<in> set ?ns")
        case True
        with names(1) obtain cs where cs: "columnOpt t n = Some cs" by (auto simp: hasColumn_columnOpt)
        have "eb_columns (outs k) c = sto_columns st k c" if "c \<in> set (physicalOf P t n)" for c
          using outs(2) [OF k] that True by auto
        from batch_column [OF st k wire t cs this] cs show ?thesis by simp
      qed simp
    qed
    then obtain g where g: "\<And>n. n \<in> set ?ns \<Longrightarrow> batchColumn F P cat pkg (outs k) n = Inr (g n)
        \<and> columnHolds F (R k) (sto_rows st k) (the (columnOpt t n)) (g n)" by metis
    then have "mapE (batchColumn F P cat pkg (outs k)) ?ns = Inr (map g ?ns)" by (intro mapE_total) simp
    moreover have "list_all2 (columnHolds F (R k) (sto_rows st k)) (columnsOf t ?ns) (map g ?ns)"
      using g by (simp add: columnsOf_def list_all2_conv_all_nth)
    ultimately show ?thesis by blast
  qed
  then obtain crss where crss: "\<And>k. k < sto_count st \<Longrightarrow> mapE (batchColumn F P cat pkg (outs k)) ?ns = Inr (crss k)"
    "\<And>k. k < sto_count st \<Longrightarrow> list_all2 (columnHolds F (R k) (sto_rows st k)) (columnsOf t ?ns) (crss k)" by metis
  have "list_all2 (\<lambda>b crss. mapE (batchColumn F P cat pkg b) ?ns = Inr crss)
      (map outs [0..<sto_count st]) (map crss [0..<sto_count st])"
    using crss(1) by (simp add: list_all2_conv_all_nth)
  from serialize_all [OF this, of "[]"] obtain rs where
    rs: "foldE (serializeResult F P cat pkg) (map Inr (map outs [0..<sto_count st])) [] = Inr rs"
      "length rs = sto_count st" "\<And>k. k < sto_count st \<Longrightarrow> \<exists>i. rs ! k = resultOf F i (outs k) (crss k)"
    by (auto simp: list_all2_conv_all_nth)
  have "decode F (rs ! k) = Inr (map (rowOf (R k) (columnsOf t ?ns)) (filter (sel k) [0..<sto_rows st k]))"
    if k: "k < sto_count st" for k
  proof -
    obtain i where r: "rs ! k = resultOf F i (outs k) (crss k)" using rs(3) [OF k] by blast
    have n: "sto_rows st k \<le> fhe_slotCount F" "sto_rows st k < 2 ^ 60" using st k by (simp_all add: tableStored_def)
    have "map cs_name (columnsOf t ?ns) = ?ns"
      using names(1) stored_column(2) [OF st k] by (auto simp: columnsOf_def hasColumn_columnOpt intro!: map_idI)
    with names(2) have d: "distinct (map cs_name (columnsOf t ?ns))" by simp
    show ?thesis
    proof (rule decode_batch [OF _ n(2) _ crss(2) [OF k] d])
      show "if rb_hasMask (rs ! k) then deserializesTo F (rb_selectionMaskBytes (rs ! k)) (sto_rows st k) (\<lambda>i. of_bool (sel k i))
          else \<forall>i < sto_rows st k. sel k i"
        using outs(3) [OF k] stored_values [OF wire n(1)]
        by (auto simp: r resultOf_def split: option.splits)
    qed (simp_all add: r resultOf_def outs(1) [OF k])
  qed
  then have "list_all2 (\<lambda>b rows. decode F b = Inr rows) rs (map (\<lambda>k. map (rowOf (R k) (columnsOf t ?ns))
      (filter (sel k) [0..<sto_rows st k])) [0..<sto_count st])"
    using rs(2) by (simp add: list_all2_conv_all_nth)
  from decode_all [OF this, of "[]"] rs(1,2) show ?thesis by (simp add: decodeBatches_def)
qed

lemma scan_execution:
  assumes st: "tableStored F P t st R" and wire: "fhe_wire_law F" and op: "operator_law P (pk_tableName pkg) st"
    and t: "cat_tables cat (pk_tableName pkg) = Some t" and nj: "\<not> pk_hasJoin pkg"
    and names: "\<forall>n\<in>set (pk_scanColumns pkg). hasColumn t n" "set (pk_projectColumns pkg) \<subseteq> set (pk_scanColumns pkg)"
      "distinct (pk_projectColumns pkg)"
    and w: "buildWhere F P pkg = Some (Inr w)"
    and m: "\<And>k. k < sto_count st \<Longrightarrow> case w of None \<Rightarrow> \<forall>i. sel k i
      | Some ex \<Rightarrow> \<exists>ct. p1_evaluate P ex (scanBatch st (concat (map (physicalOf P t) (pk_scanColumns pkg))) k) = Inr ct
          \<and> decryptsTo F ct (\<lambda>i. of_bool (sel k i))"
  shows "\<exists>rs. execute F P cat pkg = Some (Inr rs) \<and> length rs = sto_count st
     \<and> decodeBatches F rs = Inr (concat (map (\<lambda>k. map (rowOf (R k) (columnsOf t (pk_projectColumns pkg)))
          (filter (sel k) [0..<sto_rows st k])) [0..<sto_count st]))"
proof -
  let ?cols = "concat (map (physicalOf P t) (pk_scanColumns pkg))"
  let ?ps = "concat (map (physicalOf P t) (pk_projectColumns pkg))"
  have proj: "\<forall>n\<in>set (pk_projectColumns pkg). hasColumn t n" using names(1,2) by auto
  have sub: "set ?ps \<subseteq> set ?cols" using names(2) by auto
  have there: "\<forall>k < sto_count st. \<forall>c\<in>set ?cols. sto_columns st k c \<noteq> None"
    using stored_physical [OF st] names(1) by auto
  obtain mask where mask: "\<And>k. k < sto_count st \<Longrightarrow> (case w of None \<Rightarrow> mask k = None \<and> (\<forall>i. sel k i)
      | Some ex \<Rightarrow> \<exists>ct. mask k = Some ct \<and> p1_evaluate P ex (scanBatch st ?cols k) = Inr ct
          \<and> decryptsTo F ct (\<lambda>i. of_bool (sel k i)))"
  proof (cases w)
    case None
    with m show thesis by (intro that [of "\<lambda>_. None"]) simp
  next
    case (Some ex)
    with m have "\<forall>k. k < sto_count st \<longrightarrow> (\<exists>ct. p1_evaluate P ex (scanBatch st ?cols k) = Inr ct
        \<and> decryptsTo F ct (\<lambda>i. of_bool (sel k i)))" by fastforce
    then obtain ct where "\<And>k. k < sto_count st \<Longrightarrow> p1_evaluate P ex (scanBatch st ?cols k) = Inr (ct k)
        \<and> decryptsTo F (ct k) (\<lambda>i. of_bool (sel k i))" by metis
    with Some that [of "\<lambda>k. Some (ct k)"] show thesis by simp
  qed
  let ?outs = "\<lambda>k. projected ?ps ((scanBatch st ?cols k)\<lparr>eb_selectionMask := mask k\<rparr>)"
  let ?root = "case w of None \<Rightarrow> p1_tableScan P (pk_tableName pkg) ?cols
    | Some ex \<Rightarrow> p1_filter P (p1_tableScan P (pk_tableName pkg) ?cols) ex"
  have stream: "p1_batches P (p1_project P ?root ?ps) = map Inr (map ?outs [0..<sto_count st])"
  proof (cases w)
    case None
    have "?outs k = projected ?ps (scanBatch st ?cols k)" if "k < sto_count st" for k
      using mask [OF that] None by (simp add: scanBatch_def)
    with None op sub there show ?thesis by (simp add: operator_law_def)
  next
    case (Some ex)
    have "p1_evaluate P ex (scanBatch st ?cols k) = Inr (the (mask k)) \<and> mask k = Some (the (mask k))"
      if "k < sto_count st" for k using mask [OF that] Some by auto
    then have "map (\<lambda>k. bindE (p1_evaluate P ex (scanBatch st ?cols k)) (\<lambda>m.
          Inr (projected ?ps ((scanBatch st ?cols k)\<lparr>eb_selectionMask := Some m\<rparr>)))) [0..<sto_count st] =
        map Inr (map ?outs [0..<sto_count st])" by simp
    with Some op sub there show ?thesis by (simp add: operator_law_def)
  qed
  have run: "execute F P cat pkg =
      Some (foldE (serializeResult F P cat pkg) (map Inr (map ?outs [0..<sto_count st])) [])"
    using nj w stream expand_known [OF t names(1), of P] expand_known [OF t proj, of P]
    by (simp add: execute_def executeScan_def Let_def)
  have "\<exists>rs. foldE (serializeResult F P cat pkg) (map Inr (map ?outs [0..<sto_count st])) [] = Inr rs
     \<and> length rs = sto_count st
     \<and> decodeBatches F rs = Inr (concat (map (\<lambda>k. map (rowOf (R k) (columnsOf t (pk_projectColumns pkg)))
          (filter (sel k) [0..<sto_rows st k])) [0..<sto_count st]))"
  proof (rule stream_answers [OF st wire t proj names(3)])
    show "eb_columns (?outs k) c = sto_columns st k c" if "c \<in> set ?ps" for k c
      using that sub by (auto simp: projected_def scanBatch_def)
    show "case eb_selectionMask (?outs k) of None \<Rightarrow> \<forall>i. sel k i
        | Some m \<Rightarrow> decryptsTo F m (\<lambda>i. of_bool (sel k i))" if "k < sto_count st" for k
      using mask [OF that] by (auto simp: projected_def split: option.splits)
  qed (simp add: projected_def scanBatch_def)
  with run show ?thesis by simp
qed

section \<open>The answer to a query\<close>

text \<open>The conditions under which a single-table query is answered: the statement is accepted and
  unqualified, the library keeps its documented behaviour, the table is stored in range and the
  clause fits the parameters.\<close>

definition answerable ::
  "'ct Fhe \<Rightarrow> ('ct, 'e, 'op) Proto1 \<Rightarrow> Catalog \<Rightarrow> nat \<Rightarrow> ('ct EncBatch \<Rightarrow> 'e ExprSem) \<Rightarrow> 'ct StoredTable \<Rightarrow> (nat \<Rightarrow> Rows) \<Rightarrow>
   SelectStatement \<Rightarrow> TableSchema \<Rightarrow> bool" where
  "answerable F P cat depth S st R s t \<longleftrightarrow>
     wfCatalog cat \<and> widthsFit t \<and> unqualified s \<and> distinct (st_projections s)
     \<and> fhe_wire_law F \<and> fhe_decrypt_law F \<and> operator_law P (st_tableName s) st
     \<and> (\<forall>b. expr_law F P depth b (S b)) \<and> 0 < sto_count st \<and> tableStored F P t st R
     \<and> (case st_whereClause s of None \<Rightarrow> True | Some e \<Rightarrow> clauseFits t e \<and> whereDepth t e \<le> depth)"

definition fitsIndices :: "QueryPackage \<Rightarrow> bool" where
  "fitsIndices pkg \<longleftrightarrow> length (pk_predicateNodes pkg) < 2 ^ 32 \<and> length (pk_encryptedLiterals pkg) < 2 ^ 32"

lemma plan_distinct:
  assumes "planStatement s t = Inr plan" "wfSchema t" "distinct (st_projections s)"
  shows "distinct (pp_projectColumns plan)"
proof -
  have "distinct (outputColumns s t)" using assms(2,3) by (simp add: outputColumns_def wfSchema_def)
  then have "distinct (fold push_new (map ob_columnName (st_orderByColumns s)) (outputColumns s t))"
    by (rule push_all_distinct)
  with assms(1) show ?thesis by (auto simp: planStatement_eq bindE_eq_Inr Let_def)
qed

lemma prepared_package:
  assumes "preparePackage F cat w s t = Inr (plan, pkg)"
  obtains pkg0 rs est where "planStatement s t = Inr plan" "encryptCatalog F s plan cat (clientMeta F) = Inr pkg0"
    "pkg = pkg0\<lparr>pk_queryId := makeQueryId (fst (qw_random w)) (snd (qw_random w))\<rparr>"
    "pkg0 = packageOf plan (clientMeta F) rs est" "st_whereClause s = None \<longrightarrow> es_nodes est = []"
proof -
  from assms obtain pkg0 where p: "planStatement s t = Inr plan" "encryptCatalog F s plan cat (clientMeta F) = Inr pkg0"
    "pkg = pkg0\<lparr>pk_queryId := makeQueryId (fst (qw_random w)) (snd (qw_random w))\<rparr>"
    by (auto simp: preparePackage_def bindE_eq_Inr)
  from p(2) obtain rs est where "pkg0 = packageOf plan (clientMeta F) rs est" "st_whereClause s = None \<longrightarrow> est = startState"
    by (auto simp: encryptCatalog_def bindE_eq_Inr split: option.splits)
  with p that show thesis by simp
qed

lemma query_answered:
  assumes a: "analyze cat s = Inr t" and ok: "answerable F P cat depth S st R s t"
    and p: "preparePackage F cat w s t = Inr (plan, pkg)" and size: "fitsIndices pkg"
  shows "\<exists>rs. handler F P cat (fhe_paramSetId F) pkg = Some (Inr rs) \<and> length rs = sto_count st
     \<and> decodeBatches F rs = Inr (answerRows s t (pp_projectColumns plan) st R)"
proof -
  have wf: "wfCatalog cat" "widthsFit t" and u: "unqualified s" "distinct (st_projections s)"
    and laws: "fhe_wire_law F" "fhe_decrypt_law F" "operator_law P (st_tableName s) st" "\<And>b. expr_law F P depth b (S b)"
    and some: "0 < sto_count st" and st: "tableStored F P t st R"
    and clause: "\<And>e. st_whereClause s = Some e \<Longrightarrow> clauseFits t e \<and> whereDepth t e \<le> depth"
    using ok by (auto simp: answerable_def)
  obtain pkg0 rs est where q: "planStatement s t = Inr plan" "encryptCatalog F s plan cat (clientMeta F) = Inr pkg0"
    "pkg = pkg0\<lparr>pk_queryId := makeQueryId (fst (qw_random w)) (snd (qw_random w))\<rparr>"
    "pkg0 = packageOf plan (clientMeta F) rs est" "st_whereClause s = None \<longrightarrow> es_nodes est = []"
    by (rule prepared_package [OF p])
  have small: "length (pk_predicateNodes pkg0) < 2 ^ 32" "length (pk_encryptedLiterals pkg0) < 2 ^ 32"
    using size by (simp_all add: fitsIndices_def q(3))
  have ser: "\<forall>ct. fhe_serialize F ct \<noteq> []" using laws(1) by (simp add: fhe_wire_law_def)
  have "fm_paramSetId (clientMeta F) = fhe_paramSetId F" by (simp add: clientMeta_def)
  from client_package_passes [OF a u(1) wf q(1,2) this ser small]
  have v: "validate cat (fhe_paramSetId F) pkg = Some (Inr ())" by (simp add: q(3))
  from a have sok: "statementOk cat s" and t: "cat_tables cat (st_tableName s) = Some t"
    by (simp_all add: analyze_accepts)
  have wfS: "wfSchema t" using wf(1) t by (simp add: wfCatalog_def)
  have j: "st_joins s = []" using u(1) by (simp add: unqualified_def)
  obtain pp where "planStatement s t = Inr pp" "planFor s t pp" using plan_meets_spec [of s t] j by auto
  with q(1) have pf: "planFor s t plan" by simp
  have f: "pk_tableName pkg = st_tableName s" "\<not> pk_hasJoin pkg" "pk_scanColumns pkg = pp_scanColumns plan"
    "pk_projectColumns pkg = pp_projectColumns plan"
    using pf j by (simp_all add: q(3,4) packageOf_def planFor_def)
  note cols = unqualified_columns [OF sok u(1) t wfS]
  have proj: "hasColumn t n" "bareName n = n" if "n \<in> set (pp_projectColumns plan)" for n
    using that cols [of n] pf by (simp_all add: planFor_def bareName_undotted)
  have plain: "plainWhere t e" if "st_whereClause s = Some e" for e
    using that sok u(1) exprOk_plain [OF t j wf(2), of e]
    by (auto simp: statementOk_def unqualified_def whereColumns_def)
  have wcols: "hasColumn t n" "bareName n = n" if "n \<in> whereColumns s" for n
    using that u(1) plain where_columns_in
    by (fastforce simp: unqualified_def whereColumns_def bareName_undotted split: option.splits)+
  have scan: "set (pp_scanColumns plan) = whereColumns s \<union> set (pp_projectColumns plan)"
  proof -
    have "bareName ` whereColumns s = whereColumns s" using wcols(2) by force
    moreover have "bareName ` set (pp_projectColumns plan) = set (pp_projectColumns plan)" using proj(2) by force
    moreover have "\<not> pp_hasJoin plan" using pf j by (simp add: planFor_def)
    then have "{c \<in> set (pp_projectColumns plan). \<not> ofJoinedTable (pp_hasJoin plan) (pp_joinedTableAlias plan) c} =
        set (pp_projectColumns plan)" by (simp add: ofJoinedTable_def)
    moreover have "set (pp_scanColumns plan) = bareName ` whereColumns s \<union> bareName ` {c \<in> set (pp_projectColumns plan).
        \<not> ofJoinedTable (pp_hasJoin plan) (pp_joinedTableAlias plan) c}" using pf by (simp only: planFor_def)
    ultimately show ?thesis by metis
  qed
  let ?cols = "concat (map (physicalOf P t) (pk_scanColumns pkg))"
  obtain wh where wh: "buildWhere F P pkg = Some (Inr wh)"
    "\<And>k. k < sto_count st \<Longrightarrow> case wh of None \<Rightarrow> \<forall>i. selectedBy s (R k) i
      | Some ex \<Rightarrow> \<exists>ct. p1_evaluate P ex (scanBatch st ?cols k) = Inr ct
          \<and> decryptsTo F ct (\<lambda>i. of_bool (selectedBy s (R k) i))"
  proof (cases "st_whereClause s")
    case None
    with q(5) have "buildWhere F P pkg = Some (Inr None)" by (simp add: buildWhere_def q(3,4) packageOf_def)
    moreover have "selectedBy s (R k) i" for k i using None by (simp add: selectedBy_def)
    ultimately show thesis by (intro that [of None]) auto
  next
    case (Some e)
    have tt: "cat_tables cat (pp_tableName plan) = Some t" using pf t by (simp add: planFor_def)
    have rep: "represents F t (pk_predicateNodes pkg) (pk_encryptedLiterals pkg)
        (of_nat (length (pk_predicateNodes pkg) - 1)) e"
      using encrypted_represents [OF q(2) Some tt small] by (simp add: q(3))
    have lits: "literalsOk (pk_encryptedLiterals pkg)"
      using package_literalsOk [OF q(2) ser small(2)] by (simp add: q(3))
    have mask: "\<exists>ex ct. buildWhere F P pkg = Some (Inr (Some ex)) \<and> p1_evaluate P ex (scanBatch st ?cols k) = Inr ct
        \<and> decryptsTo F ct (\<lambda>i. of_bool (rowMatches (R k) i e))" if k: "k < sto_count st" for k
    proof -
      have "set (physicalOf P t n) \<subseteq> set ?cols" if "n \<in> exprColumns e" for n
      proof -
        have "n \<in> set (pp_scanColumns plan)" using that Some scan by (simp add: whereColumns_def)
        then show ?thesis by (auto simp: f(3))
      qed
      with clause_filterable [OF st k wfS, of e ?cols] clause [OF Some]
      have "filterable F P t (scanBatch st ?cols k) (R k) e" by blast
      from represented_mask [OF rep lits laws(1,2,4) this] clause [OF Some] show ?thesis by blast
    qed
    from mask [OF some] obtain ex where ex: "buildWhere F P pkg = Some (Inr (Some ex))" by blast
    with mask have "\<exists>ct. p1_evaluate P ex (scanBatch st ?cols k) = Inr ct
        \<and> decryptsTo F ct (\<lambda>i. of_bool (rowMatches (R k) i e))" if "k < sto_count st" for k
      using that by fastforce
    with Some show thesis by (intro that [OF ex]) (simp add: selectedBy_def)
  qed
  have "\<forall>n\<in>set (pk_scanColumns pkg). hasColumn t n" "set (pk_projectColumns pkg) \<subseteq> set (pk_scanColumns pkg)"
    using scan wcols(1) proj(1) by (auto simp: f)
  moreover have "distinct (pk_projectColumns pkg)" using plan_distinct [OF q(1) wfS u(2)] by (simp add: f)
  ultimately have "\<exists>rs. execute F P cat pkg = Some (Inr rs) \<and> length rs = sto_count st
     \<and> decodeBatches F rs = Inr (answerRows s t (pp_projectColumns plan) st R)"
    using scan_execution [OF st laws(1), where pkg = pkg and cat = cat and w = wh and sel = "\<lambda>k. selectedBy s (R k)"] laws(3) t f(1,2) wh
    by (simp add: answerRows_def f(4))
  with v show ?thesis by (simp add: handler_def)
qed

section \<open>A query over the wire\<close>

text \<open>Whatever the statement: when the handler answers the client's package with batches that decrypt to
  some rows, the client prints these rows.\<close>

lemma wired_query:
  assumes query: "parse sql = Inr s" "analyze cat s = Inr t" and prep: "preparePackage F cat w s t = Inr (plan, pkg)"
    and rs: "handler F P cat sid pkg = Some (Inr rs)" "decodeBatches F rs = Inr rows"
    and frames: "archive_laws ar" "fitsFrames ar pkg rs"
    and client: "qw_connect w = Opened cs" "patient cs" "so_out cs = []"
    and server: "handleClient ar std (handler F P cat sid) ss = Some ss'" "patient ss" "so_out ss = []"
    and wires: "so_in ss = request ar pkg" "so_in cs = so_out ss'"
  shows "\<exists>m cs'. executeQuery ar std' F cat ep w sql c =
     (Inr (), printMetrics m (printResult (displayColumns s plan)
        (applySortAndLimit rows (st_orderByColumns s) (st_limitCount s))
        (put nl (reportQuery ar plan pkg c))), Some cs') \<and> so_out cs' = so_in ss"
proof -
  obtain r got so where q: "sendQuery ar (Inr cs) pkg [] = (r, got, so)" by (metis prod_cases3)
  then obtain cs' where so: "so = Some cs'" using sendQuery_outcome by blast
  from exchange_delivers [OF frames(1,2) rs(1) client(2) server(2) client(3) server(3) q [unfolded so] server(1) wires]
  have "r = Inr (okResponse pkg rs)" "got = rs" "so_out cs' = so_in ss" by simp_all
  with q so rs(2) query prep client(1) show ?thesis
    by (auto simp: executeQuery_def exchange_def Let_def okResponse_def)
qed

section \<open>A sample table\<close>

text \<open>The four employees of \<open>sampleRows\<close> in one chunk.\<close>

definition sampleStored :: "int list StoredTable" where
  "sampleStored = \<lparr>sto_count = 1, sto_columns = (\<lambda>_ c. Some \<lparr>ch_logicalRowCount = 4,
     ch_ciphertexts = [if c \<in> {''id'', ''age'', ''salary'', ''department_id''} then map (rw_int sampleRows c) [0..<4]
       else map (\<lambda>i. charAt (rw_string sampleRows ''name'' i) (length c - 5)) [0..<4]]\<rparr>),
     sto_rows = (\<lambda>_. 4)\<rparr>"

definition sampleProto1 :: "(int list, plainExpr, int list EncBatch list) Proto1" where
  "sampleProto1 = plainProto1\<lparr>p1_tableScan := (\<lambda>_ cols. [scanBatch sampleStored cols 0])\<rparr>"

lemma sample_operators: "operator_law sampleProto1 table sampleStored"
  by (simp add: operator_law_def sampleProto1_def plainProto1_def sampleStored_def projected_def scanBatch_def)

lemma sample_expressions: "expr_law plainFhe sampleProto1 depth b (plainSem b)"
  using plain_expr_law [of depth b]
  by (simp add: expr_law_def leaf_law_def eval_law_def sampleProto1_def)

lemma sample_stored: "tableStored plainFhe sampleProto1 employeesSchema sampleStored (\<lambda>_. sampleRows)"
proof -
  have slots: "fhe_slotCount plainFhe = 4" by (simp add: plainFhe_def)
  have names: "textOk 16 (rw_string sampleRows n i)" if "i < 4" for n i
    using that by (auto simp: less_four sampleRows_def textOk_def code_def)
  have ints: "small (rw_int sampleRows n i)" if "i < 4" for n i
    using that by (auto simp: less_four sampleRows_def small_def)
  have "holds plainFhe (sto_columns sampleStored k n) (rw_int sampleRows n)"
    if "n \<in> {''id'', ''age'', ''salary'', ''department_id''}" for n k
    using that ints by (simp add: holds_def sampleStored_def plain_map slots)
  moreover have "holds plainFhe (sto_columns sampleStored k (p1_stringPhysicalColumn sampleProto1 ''name'' p))
      (\<lambda>i. charAt (rw_string sampleRows ''name'' i) p)" for p k
    using plain_map charAt_small [OF names]
    by (simp add: holds_def sampleStored_def sampleProto1_def plainProto1_def slots)
  ultimately show ?thesis
    using names by (simp add: tableStored_def columnStored_def employeesSchema_def slots) (simp add: sampleStored_def slots)
qed

lemma sample_accepted: "analyze makeEmployeesCatalog encSample = Inr employeesSchema"
  by code_simp

lemma sample_answerable:
  "answerable plainFhe sampleProto1 makeEmployeesCatalog 13 plainSem sampleStored (\<lambda>_. sampleRows) encSample employeesSchema"
proof -
  have "unqualified encSample" "distinct (st_projections encSample)"
    by (simp_all add: unqualified_def encSample_def whereColumns_def hasDot_iff)
  moreover have "widthsFit employeesSchema" by (simp add: widthsFit_def employeesSchema_def)
  moreover have "case st_whereClause encSample of None \<Rightarrow> True
      | Some e \<Rightarrow> clauseFits employeesSchema e \<and> whereDepth employeesSchema e \<le> 13" by code_simp
  moreover have "0 < sto_count sampleStored" by (simp add: sampleStored_def)
  ultimately show ?thesis
    using makeEmployeesCatalog_wf plainFhe_laws sample_operators sample_expressions sample_stored
    by (simp only: answerable_def simp_thms)
qed

text \<open>An integer comparison AND NOT a text comparison over 16 characters needs one level more than the
  parameters of the setup give.\<close>

lemma sample_depth:
  "whereDepth employeesSchema (the (st_whereClause encSample)) = Suc (ps_multiplicativeDepth setupParams)"
  by code_simp

definition sampleWorld :: "ConnectOutcome \<Rightarrow> QueryWorld" where
  "sampleWorld c = \<lparr>qw_clock = (\<lambda>_. 0), qw_random = (1, 2), qw_connect = c\<rparr>"

lemma sample_prepared:
  "\<exists>pkg. preparePackage plainFhe makeEmployeesCatalog (sampleWorld c) encSample employeesSchema = Inr (encPlan, pkg)
     \<and> fitsIndices pkg"
proof -
  obtain est rs where "length (es_nodes est) = 6" "length (es_literals est) = 17"
    "encryptCatalog plainFhe encSample encPlan makeEmployeesCatalog (clientMeta plainFhe) =
       Inr (packageOf encPlan (clientMeta plainFhe) rs est)"
    using encSample_package by blast
  then show ?thesis by (simp add: preparePackage_def encSample_plan fitsIndices_def packageOf_def)
qed

lemma sample_answer:
  "answerRows encSample employeesSchema [''name'', ''age''] sampleStored (\<lambda>_. sampleRows) =
   map (rowOf sampleRows (columnsOf employeesSchema [''name'', ''age''])) [2, 3]"
proof -
  have "filter (selectedBy encSample sampleRows) [0..<4] = [2, 3]" by code_simp
  then show ?thesis by (simp add: answerRows_def sampleStored_def)
qed

text \<open>A query without a clause on the same table, and what the two sides build for it.\<close>

definition ageStmt :: SelectStatement where
  "ageStmt = \<lparr>st_projections = [''age''], st_tableName = ''employees'', st_tableAlias = ''employees'', st_joins = [],
     st_whereClause = None, st_orderByColumns = [\<lparr>ob_columnName = ''age'', ob_direction = Descending\<rparr>], st_limitCount = 2\<rparr>"

definition ageSQL :: string where
  "ageSQL = ''SELECT age FROM employees ORDER BY age DESC LIMIT 2''"

definition agePlan :: PhysicalPlan where
  "agePlan = \<lparr>pp_tableName = ''employees'', pp_tableAlias = ''employees'', pp_joinedTableName = [],
     pp_joinedTableAlias = [], pp_joinLeftColumn = [], pp_joinRightColumn = [], pp_hasJoin = False,
     pp_scanColumns = [''age''], pp_projectColumns = [''age''], pp_hasFilter = False\<rparr>"

definition agePackage :: QueryPackage where
  "agePackage = (packageOf agePlan (clientMeta plainFhe) [\<lparr>cs_name = ''age'', cs_type = INT64, cs_maxLength = 0\<rparr>] startState)
     \<lparr>pk_queryId := makeQueryId 1 2\<rparr>"

definition ageBatch :: EncryptedResultBatch where
  "ageBatch = \<lparr>rb_batchId = 0, rb_logicalRowCount = 4,
     rb_columns = [columnResult plainFhe ''age'' \<lparr>cs_name = ''age'', cs_type = INT64, cs_maxLength = 0\<rparr> 0 [25, 31, 40, 50]],
     rb_selectionMaskBytes = [], rb_hasMask = False\<rparr>"

lemma age_parsed: "parse ageSQL = Inr ageStmt"
  by code_simp

lemma age_accepted: "analyze makeEmployeesCatalog ageStmt = Inr employeesSchema"
  by code_simp

lemma age_prepared:
  "preparePackage plainFhe makeEmployeesCatalog (sampleWorld c) ageStmt employeesSchema = Inr (agePlan, agePackage)"
  by (simp only: sampleWorld_def) code_simp

lemma age_handled:
  "handler plainFhe sampleProto1 makeEmployeesCatalog (fhe_paramSetId plainFhe) agePackage = Some (Inr [ageBatch])"
  by code_simp

lemma age_fits: "fitsFrames unaryArchive agePackage [ageBatch]"
proof -
  have "length (serializePackage unaryArchive agePackage) \<le> 10000"
    "length (serializeResponse unaryArchive (okResponse agePackage [ageBatch])) \<le> 10000"
    "length (serializeBatch unaryArchive ageBatch) \<le> 10000"
    by code_simp+
  moreover have "sizedPackage agePackage"
    by (simp add: sizedPackage_def agePackage_def packageOf_def agePlan_def clientMeta_def plainFhe_def makeQueryId_def
        startState_def sized_def hex8_length sizedColumn_def)
  moreover have "length (fhe_serialize plainFhe [25, 31, 40, 50]) \<le> 1000" by code_simp
  then have "sizedBatch ageBatch"
    by (simp add: sizedBatch_def ageBatch_def columnResult_def sized_def int64_def INT64_MAX_def)
  ultimately show ?thesis by (simp add: fitsFrames_def)
qed

lemma age_answerable:
  "answerable plainFhe sampleProto1 makeEmployeesCatalog 12 plainSem sampleStored (\<lambda>_. sampleRows) ageStmt employeesSchema"
proof -
  have "unqualified ageStmt" "distinct (st_projections ageStmt)"
    by (simp_all add: unqualified_def ageStmt_def whereColumns_def hasDot_iff)
  moreover have "widthsFit employeesSchema" by (simp add: widthsFit_def employeesSchema_def)
  moreover have "case st_whereClause ageStmt of None \<Rightarrow> True
      | Some e \<Rightarrow> clauseFits employeesSchema e \<and> whereDepth employeesSchema e \<le> 12" by code_simp
  moreover have "0 < sto_count sampleStored" by (simp add: sampleStored_def)
  ultimately show ?thesis
    using makeEmployeesCatalog_wf plainFhe_laws sample_operators sample_expressions sample_stored
    by (simp only: answerable_def simp_thms)
qed

lemma age_rows:
  "map (\<lambda>r. rr_values r ''age'') (applySortAndLimit
     (answerRows ageStmt employeesSchema [''age''] sampleStored (\<lambda>_. sampleRows))
     (st_orderByColumns ageStmt) (st_limitCount ageStmt)) = [Some 50, Some 40]"
  by code_simp

text \<open>A qualified column in the clause of such a query passes the analyzer, but the
  scan loads it under its bare name and the expression reads it under the qualified one.\<close>

definition qualifiedStmt :: SelectStatement where
  "qualifiedStmt = \<lparr>st_projections = [''age''], st_tableName = ''employees'', st_tableAlias = ''e'', st_joins = [],
     st_whereClause = Some (Comparison GreaterThan (ColumnRef ''e.age'') (IntLiteral 30)),
     st_orderByColumns = [], st_limitCount = - 1\<rparr>"

lemma qualified_where_unscanned:
  "analyze makeEmployeesCatalog qualifiedStmt = Inr employeesSchema"
  "case preparePackage plainFhe makeEmployeesCatalog (sampleWorld c) qualifiedStmt employeesSchema of
     Inl _ \<Rightarrow> False
   | Inr (plan, pkg) \<Rightarrow>
       pk_scanColumns pkg = [''age'']
       \<and> map pn_columnName (filter (\<lambda>n. pn_kind n = PColumnRef) (pk_predicateNodes pkg)) = [''e.age'']"
  by code_simp (simp only: sampleWorld_def, code_simp)

section \<open>Properties\<close>

text \<open>C6: the server answers a query over one table with exactly the rows that
  match.  For a statement that the client accepts, written without qualifiers, whose clause is in
  range and within the depth of the parameters, over a table that is stored in range: the handler
  validates and executes the client's package, and the batches it returns decrypt to the matching
  rows of every chunk, with the selected columns and those of ORDER BY, in storage order.\<close>

theorem query_answer_correct:
  assumes "analyze cat s = Inr t" "answerable F P cat depth S st R s t"
    and "preparePackage F cat w s t = Inr (plan, pkg)" "fitsIndices pkg"
  shows "\<exists>rs. handler F P cat (fhe_paramSetId F) pkg = Some (Inr rs) \<and> length rs = sto_count st
     \<and> decodeBatches F rs = Inr (answerRows s t (pp_projectColumns plan) st R)"
  using assms by (rule query_answered)

theorem query_answer_correct_witness:
  "\<exists>pkg rs. preparePackage plainFhe makeEmployeesCatalog (sampleWorld NotConnected) encSample employeesSchema = Inr (encPlan, pkg)
     \<and> handler plainFhe sampleProto1 makeEmployeesCatalog ''bfv-257-depth12'' pkg = Some (Inr rs)
     \<and> decodeBatches plainFhe rs = Inr (map (rowOf sampleRows (columnsOf employeesSchema [''name'', ''age''])) [2, 3])"
proof -
  obtain pkg where p: "preparePackage plainFhe makeEmployeesCatalog (sampleWorld NotConnected) encSample employeesSchema = Inr (encPlan, pkg)"
    "fitsIndices pkg" using sample_prepared by blast
  have "pp_projectColumns encPlan = [''name'', ''age'']" "fhe_paramSetId plainFhe = ''bfv-257-depth12''"
    by (simp_all add: encPlan_def plainFhe_def)
  with query_answer_correct [OF sample_accepted sample_answerable p] p(1) sample_answer show ?thesis by auto
qed

text \<open>C2: the whole path of such a query.  When the client's connection and a run of
  the server's \<open>handleClient\<close> with that handler are wired to each other, \<open>executeQuery\<close> returns and
  has printed, after its report, the table of the matching rows, sorted and cut as ORDER BY and
  LIMIT say, in the columns of the SELECT list.\<close>

theorem query_end_to_end:
  assumes query: "parse sql = Inr s" "analyze cat s = Inr t" "answerable F P cat depth S st R s t"
    and prep: "preparePackage F cat w s t = Inr (plan, pkg)" "fitsIndices pkg"
    and frames: "archive_laws ar" "\<And>rs. handler F P cat (fhe_paramSetId F) pkg = Some (Inr rs) \<Longrightarrow> fitsFrames ar pkg rs"
    and client: "qw_connect w = Opened cs" "patient cs" "so_out cs = []"
    and server: "handleClient ar std (handler F P cat (fhe_paramSetId F)) ss = Some ss'" "patient ss" "so_out ss = []"
    and wires: "so_in ss = request ar pkg" "so_in cs = so_out ss'"
  shows "\<exists>m cs'. executeQuery ar std' F cat ep w sql c =
     (Inr (), printMetrics m (printResult (displayColumns s plan)
        (applySortAndLimit (answerRows s t (pp_projectColumns plan) st R) (st_orderByColumns s) (st_limitCount s))
        (put nl (reportQuery ar plan pkg c))), Some cs') \<and> so_out cs' = so_in ss"
proof -
  obtain rs where rs: "handler F P cat (fhe_paramSetId F) pkg = Some (Inr rs)"
    "decodeBatches F rs = Inr (answerRows s t (pp_projectColumns plan) st R)"
    using query_answered [OF query(2,3) prep] by blast
  show ?thesis
    by (rule wired_query [OF query(1,2) prep(1) rs frames(1) frames(2) [OF rs(1)] client server wires])
qed

theorem query_end_to_end_witness:
  "\<exists>w m cs'. executeQuery unaryArchive (\<lambda>_. []) plainFhe makeEmployeesCatalog \<lparr>ep_host = ''h'', ep_port = 1\<rparr> w ageSQL emptyConsole =
     (Inr (), printMetrics m (printResult [''age'']
        (applySortAndLimit (answerRows ageStmt employeesSchema [''age''] sampleStored (\<lambda>_. sampleRows))
           (st_orderByColumns ageStmt) (st_limitCount ageStmt))
        (put nl (reportQuery unaryArchive agePlan agePackage emptyConsole))), Some cs')"
proof -
  let ?h = "handler plainFhe sampleProto1 makeEmployeesCatalog (fhe_paramSetId plainFhe)"
  have f: "sizedPackage agePackage" "length (serializePackage unaryArchive agePackage) < 2 ^ 32"
    using age_fits by (simp_all add: fitsFrames_def)
  have h: "\<exists>r. ?h agePackage = Some r" using age_handled by blast
  obtain cs c' ss ss' r got where wire: "patient cs" "patient ss" "so_out cs = []" "so_out ss = []"
    "sendQuery unaryArchive (Inr cs) agePackage [] = (r, got, Some c')"
    "handleClient unaryArchive (\<lambda>_. []) ?h ss = Some ss'"
    "so_in ss = request unaryArchive agePackage" "so_in cs = so_out ss'"
    by (rule wired_runs [where handler = ?h and std = "\<lambda>_. []", OF h f unaryArchive_laws])
  have fits: "fitsIndices agePackage" by (simp add: fitsIndices_def agePackage_def packageOf_def startState_def)
  have frames: "fitsFrames unaryArchive agePackage rs" if "?h agePackage = Some (Inr rs)" for rs
    using that age_handled age_fits by simp
  have names: "displayColumns ageStmt agePlan = [''age'']" "pp_projectColumns agePlan = [''age'']"
    by (simp_all add: displayColumns_def ageStmt_def agePlan_def)
  have conn: "qw_connect (sampleWorld (Opened cs)) = Opened cs" by (simp add: sampleWorld_def)
  from query_end_to_end [OF age_parsed age_accepted age_answerable age_prepared fits unaryArchive_laws frames conn
      wire(1,3,6,2,4,7,8), where std' = "\<lambda>_. []" and ep = "\<lparr>ep_host = ''h'', ep_port = 1\<rparr>" and c = emptyConsole]
  show ?thesis unfolding names by metis
qed

end
