(* ===== verification/Hega_Join.thy ===== *)
theory Hega_Join
  imports Hega_EndToEnd
begin

text \<open>
  JOIN queries from the statement to the printed table.  The executor builds one batch per pair of
  chunks, under the aliases of the two tables; this theory states when two tables are stored for
  it (one row per chunk, as the setup ingests them), which rows the query should give (the pairs,
  in nested-loop order, that satisfy ON and WHERE) and proves that the handler's batches decrypt to
  exactly these rows.
\<close>

section \<open>Stored tables\<close>

definition chunkOf :: "('ct, 'e, 'op) Proto1 \<Rightarrow> string \<Rightarrow> u32 \<Rightarrow> string \<Rightarrow> 'ct Chunk option" where
  "chunkOf P table k c = (case p1_getChunk P table c 0 k of Inl _ \<Rightarrow> None | Inr ch \<Rightarrow> Some ch)"

text \<open>The rows of a table by chunk number; every chunk lies in partition 0 and has one row.\<close>

definition joinStored ::
  "'ct Fhe \<Rightarrow> ('ct, 'e, 'op) Proto1 \<Rightarrow> string \<Rightarrow> TableSchema \<Rightarrow> ChunkMeta list \<Rightarrow> (u32 \<Rightarrow> Rows) \<Rightarrow> bool" where
  "joinStored F P table t ms R \<longleftrightarrow>
     (\<forall>cs\<in>set (ts_columns t). cs_type cs \<noteq> STRING \<longrightarrow> p1_listChunks P table (cs_name cs) = Inr ms)
     \<and> (\<forall>m\<in>set ms. cm_partitionId m = 0
          \<and> (\<forall>cs\<in>set (ts_columns t). columnStored F P (chunkOf P table (cm_chunkId m)) (R (cm_chunkId m)) cs)
          \<and> (\<forall>c ch. chunkOf P table (cm_chunkId m) c = Some ch \<longrightarrow> ch_logicalRowCount ch = 1))"

text \<open>The row of a pair: a name without qualifier or with that of the FROM table belongs to the left
  row.\<close>

definition pairRows :: "string \<Rightarrow> Rows \<Rightarrow> Rows \<Rightarrow> Rows" where
  "pairRows al L R =
     \<lparr>rw_int = (\<lambda>n. if qualifier al n = al then rw_int L (bareName n) else rw_int R (bareName n)),
      rw_string = (\<lambda>n. if qualifier al n = al then rw_string L (bareName n) else rw_string R (bareName n))\<rparr>"

section \<open>The batch of a pair\<close>

definition atAlias :: "string \<Rightarrow> string \<Rightarrow> string" where
  "atAlias a n = a @ CHR ''.'' # n"

lemma atAlias_simps [simp]:
  assumes "\<not> hasDot a"
  shows "qualifier d (atAlias a n) = a" "bareName (atAlias a n) = n"
  using assms by (simp_all add: atAlias_def hasDot_iff qualified_parts)

lemma atAlias_eq: "\<not> hasDot a \<Longrightarrow> \<not> hasDot b \<Longrightarrow> atAlias a m = atAlias b n \<longleftrightarrow> a = b \<and> m = n"
  using atAlias_simps(1) [of a "[]" m] atAlias_simps(1) [of b "[]" n] atAlias_simps(2) [of a m] atAlias_simps(2) [of b n]
  by metis

lemma hasDot_atAlias [simp]: "hasDot (atAlias a n)"
  by (simp add: atAlias_def hasDot_iff)

definition physicals :: "('ct, 'e, 'op) Proto1 \<Rightarrow> TableSchema \<Rightarrow> string list" where
  "physicals P t = concat (map (\<lambda>cs. physicalNames P (cs_name cs) cs) (ts_columns t))"

text \<open>A batch with the columns of a chunk added under an alias.\<close>

definition extends ::
  "('ct, 'e, 'op) Proto1 \<Rightarrow> string \<Rightarrow> TableSchema \<Rightarrow> string \<Rightarrow> u32 \<Rightarrow> 'ct EncBatch \<Rightarrow> 'ct EncBatch \<Rightarrow> bool" where
  "extends P table t al k b b' \<longleftrightarrow>
     (\<forall>ph\<in>set (physicals P t). eb_columns b' (atAlias al ph) = chunkOf P table k ph)
     \<and> (\<forall>c. (\<forall>ph. c \<noteq> atAlias al ph) \<longrightarrow> eb_columns b' c = eb_columns b c)"

lemma add_columns:
  assumes "\<forall>ph\<in>set phs. chunkOf P table k ph \<noteq> None"
  shows "\<exists>b'. foldE (\<lambda>ph b. bindE (p1_getChunk P table ph 0 k) (\<lambda>chunk.
             Inr (b\<lparr>eb_columns := (eb_columns b)(al @ CHR ''.'' # ph \<mapsto> chunk)\<rparr>))) phs b = Inr b'
    \<and> (\<forall>ph. eb_columns b' (atAlias al ph) = (if ph \<in> set phs then chunkOf P table k ph else eb_columns b (atAlias al ph)))
    \<and> (\<forall>c. (\<forall>ph. c \<noteq> atAlias al ph) \<longrightarrow> eb_columns b' c = eb_columns b c)"
  using assms
proof (induction phs arbitrary: b)
  case (Cons p phs)
  from Cons.prems obtain ch where ch: "p1_getChunk P table p 0 k = Inr ch" "chunkOf P table k p = Some ch"
    by (auto simp: chunkOf_def split: sum.splits)
  let ?b = "b\<lparr>eb_columns := (eb_columns b)(atAlias al p \<mapsto> ch)\<rparr>"
  have "\<forall>ph\<in>set phs. chunkOf P table k ph \<noteq> None" using Cons.prems by simp
  from Cons.IH [OF this, of ?b] obtain b' where b': "foldE (\<lambda>ph b. bindE (p1_getChunk P table ph 0 k) (\<lambda>chunk.
             Inr (b\<lparr>eb_columns := (eb_columns b)(al @ CHR ''.'' # ph \<mapsto> chunk)\<rparr>))) phs ?b = Inr b'"
    "\<forall>ph. eb_columns b' (atAlias al ph) = (if ph \<in> set phs then chunkOf P table k ph else eb_columns ?b (atAlias al ph))"
    "\<forall>c. (\<forall>ph. c \<noteq> atAlias al ph) \<longrightarrow> eb_columns b' c = eb_columns ?b c" by (elim exE conjE)
  have "atAlias al ph = atAlias al p \<longleftrightarrow> ph = p" for ph by (simp add: atAlias_def)
  with b'(2,3) ch(2) have "\<forall>ph. eb_columns b' (atAlias al ph) =
        (if ph \<in> set (p # phs) then chunkOf P table k ph else eb_columns b (atAlias al ph))"
    "\<forall>c. (\<forall>ph. c \<noteq> atAlias al ph) \<longrightarrow> eb_columns b' c = eb_columns b c" by auto
  with b'(1) [unfolded atAlias_def] ch(1) show ?case
    by (intro exI [of _ b'] conjI) (simp_all only: foldE.simps bindE_Inr simp_thms)
qed simp

lemma addTable_extends:
  assumes "cat_tables cat table = Some t" "\<forall>ph\<in>set (physicals P t). chunkOf P table k ph \<noteq> None"
  shows "\<exists>b'. addTableColumns P cat table al k b = Inr b' \<and> extends P table t al k b b'"
  using add_columns [OF assms(2), of al b] assms(1)
  by (auto simp: addTableColumns_def getTable_def physicals_def extends_def)

lemma stored_physicals:
  assumes "joinStored F P table t ms R" "m \<in> set ms" "ph \<in> set (physicals P t)"
  shows "chunkOf P table (cm_chunkId m) ph \<noteq> None"
proof -
  from assms(3) obtain cs where cs: "cs \<in> set (ts_columns t)" "ph \<in> set (physicalNames P (cs_name cs) cs)"
    by (auto simp: physicals_def)
  with assms(1,2) have "columnStored F P (chunkOf P table (cm_chunkId m)) (R (cm_chunkId m)) cs"
    by (simp add: joinStored_def)
  with cs(2) show ?thesis
    by (auto simp: columnStored_def physicalNames_def holds_def split: if_splits)
qed

text \<open>An integer column of the table is there under its qualified name.\<close>

lemma extends_holds:
  assumes e: "extends P table t al k b b'" and c: "columnOpt t n = Some cs" "cs_type cs \<noteq> STRING"
    and st: "columnStored F P (chunkOf P table k) R cs"
  shows "heldAs F b' (atAlias al n) (rw_int R n)"
proof -
  have n: "cs_name cs = n" "cs \<in> set (ts_columns t)" using column_Inr [of t n cs] c(1) by (auto simp: column_columnOpt)
  with c(2) have "n \<in> set (physicals P t)" by (auto simp: physicals_def physicalNames_def)
  with e have "eb_columns b' (atAlias al n) = chunkOf P table k n" by (simp add: extends_def)
  with st c(2) n(1) show ?thesis by (auto simp: columnStored_def holds_def heldAs_def)
qed

lemma extends_keeps:
  "extends P table t al k b b' \<Longrightarrow> \<not> hasDot al \<Longrightarrow> \<not> hasDot a \<Longrightarrow> a \<noteq> al \<Longrightarrow>
   heldAs F b (atAlias a n) f \<Longrightarrow> heldAs F b' (atAlias a n) f"
  by (simp add: extends_def heldAs_def atAlias_eq)

section \<open>Statements with a JOIN\<close>

text \<open>One join on the equality of a column of each table, under two different aliases.\<close>

definition joinOf :: "SelectStatement \<Rightarrow> string \<Rightarrow> string \<Rightarrow> string \<Rightarrow> string \<Rightarrow> bool" where
  "joinOf s rt ar x y \<longleftrightarrow>
     st_joins s = [\<lparr>jc_rightTable = \<lparr>tr_tableName = rt, tr_alias = ar\<rparr>,
       jc_condition = Comparison Equal (ColumnRef (atAlias (st_tableAlias s) x)) (ColumnRef (atAlias ar y))\<rparr>]
     \<and> \<not> hasDot (st_tableAlias s) \<and> \<not> hasDot ar \<and> st_tableAlias s \<noteq> ar"

definition intColumn :: "TableSchema \<Rightarrow> string \<Rightarrow> bool" where
  "intColumn t n \<longleftrightarrow> (case columnOpt t n of None \<Rightarrow> False | Some cs \<Rightarrow> cs_type cs \<noteq> STRING)"

text \<open>A column of the select list or of ORDER BY.\<close>

definition pairColumn :: "TableSchema \<Rightarrow> TableSchema \<Rightarrow> string \<Rightarrow> string \<Rightarrow> string \<Rightarrow> bool" where
  "pairColumn t u al ar n \<longleftrightarrow>
     qualifier al n = al \<and> hasColumn t (bareName n) \<or> qualifier al n = ar \<and> hasColumn u (bareName n)"

text \<open>A clause over qualified integer columns and literals in range.\<close>

fun pairTerm :: "TableSchema \<Rightarrow> TableSchema \<Rightarrow> string \<Rightarrow> string \<Rightarrow> ASTExpr \<Rightarrow> bool" where
  "pairTerm t u al ar (ColumnRef n) \<longleftrightarrow> hasDot n
     \<and> (qualifier [] n = al \<and> intColumn t (bareName n) \<or> qualifier [] n = ar \<and> intColumn u (bareName n))"
| "pairTerm t u al ar (IntLiteral v) \<longleftrightarrow> 0 \<le> v \<and> v \<le> 128"
| "pairTerm t u al ar _ \<longleftrightarrow> False"

fun pairClause :: "TableSchema \<Rightarrow> TableSchema \<Rightarrow> string \<Rightarrow> string \<Rightarrow> ASTExpr \<Rightarrow> bool" where
  "pairClause t u al ar (Comparison k l r) \<longleftrightarrow> pairTerm t u al ar l \<and> pairTerm t u al ar r"
| "pairClause t u al ar (And l r) \<longleftrightarrow> pairClause t u al ar l \<and> pairClause t u al ar r"
| "pairClause t u al ar (Or l r) \<longleftrightarrow> pairClause t u al ar l \<and> pairClause t u al ar r"
| "pairClause t u al ar (NotExpr e) \<longleftrightarrow> pairClause t u al ar e"
| "pairClause t u al ar _ \<longleftrightarrow> False"

lemma split_qualified: "hasDot n \<Longrightarrow> n = atAlias (qualifier d n) (bareName n)"
proof -
  assume "hasDot n"
  then obtain k where k: "find_char CHR ''.'' n = Some k" by (auto simp: hasDot_def simp del: find_char_None)
  then obtain v where "n = take k n @ CHR ''.'' # v" "k < length n" by (auto simp: find_char_Some)
  moreover from this have "drop (k + 1) n = v"
    by (metis append_take_drop_id append_same_eq drop_Suc tl_drop list.sel(3) Suc_eq_plus1 append_eq_append_conv length_take)
  ultimately show ?thesis using k by (simp add: qualifier_def bareName_def atAlias_def)
qed

lemma pairTerm_cases:
  assumes "pairTerm t u al ar (ColumnRef n)"
  obtains m where "n = atAlias al m" "intColumn t m" | m where "n = atAlias ar m" "intColumn u m"
  using assms split_qualified [of n "[]"] by auto

lemma pairTerm_comparison: "pairTerm t u al ar l \<Longrightarrow> pairTerm t u al ar r \<Longrightarrow> \<not> stringComparison l r"
  by (cases l; cases r) (simp_all add: stringComparison_def)

text \<open>What the clause reads, held in a batch, can be filtered.\<close>

lemma pair_filterable:
  "pairClause t u al ar e \<Longrightarrow> \<forall>n\<in>exprColumns e. heldAs F b n (rw_int R n) \<Longrightarrow> filterable F P t b R e"
proof (induction e)
  case (Comparison k l r)
  have "termOk F b R e" if "pairTerm t u al ar e" "\<forall>n\<in>exprColumns e. heldAs F b n (rw_int R n)" for e
    using that by (cases e) (simp_all add: small_def)
  with Comparison.prems pairTerm_comparison [of t u al ar l r] show ?case by simp
qed simp_all

text \<open>The columns of the clause are among the nodes of the package.\<close>

lemma represents_columns:
  assumes "represents F t nodes lits i e"
  shows "pairClause t u al ar e \<or> pairTerm t u al ar e \<Longrightarrow> n \<in> exprColumns e \<Longrightarrow>
    \<exists>node\<in>set nodes. pn_kind node = PColumnRef \<and> pn_columnName node = n"
  using assms
proof (induction rule: represents.induct)
  case (column i m)
  then have "nodes ! unat i \<in> set nodes" "nodes ! unat i = emptyNode\<lparr>pn_kind := PColumnRef, pn_columnName := n\<rparr>"
    using nth_mem [of "unat i" nodes] by (auto simp only: nodeAt_def exprColumns.simps)
  then show ?case by (intro bexI [of _ "nodes ! unat i"]) simp_all
qed (auto simp: stringComparison_def)

text \<open>The walk of the validator accepts it.\<close>

lemma represents_pair_walk:
  assumes r: "represents F t (pk_predicateNodes pkg) (pk_encryptedLiterals pkg) i e"
    and l: "literalsOk (pk_encryptedLiterals pkg)"
    and j: "pk_hasJoin pkg" "pk_tableAlias pkg = al" "pk_joinedTableAlias pkg = ar" "al \<noteq> ar"
      "\<not> hasDot al" "\<not> hasDot ar" "cat_tables cat (pk_joinedTableName pkg) = Some u"
  shows "pairClause t u al ar e \<or> pairTerm t u al ar e \<Longrightarrow> validatePredTree cat pkg t i = Some (Inr ())"
  using r
proof (induction rule: represents.induct)
  case (column i n)
  then have "pairTerm t u al ar (ColumnRef n)" by simp
  then have "checkColumn cat pkg t (validationError ''Unknown column in predicate: '' n) n = Inr ()"
    by (rule pairTerm_cases)
      (use j in \<open>auto simp: checkColumn_def targetTable_def getTable_def intColumn_def hasColumn_columnOpt split: option.splits\<close>)
  then show ?case
    using walk_node(1) [OF column(1)] by (simp add: leafKind_def checkLeaf_def)
next
  case (literal i lid v)
  then show ?case
    using walk_node(1) [OF literal(1)] holdsValue_entry(2) [OF _ l]
    by (simp add: leafKind_def checkLeaf_def)
next
  case (comparison i li ri k l r)
  then show ?case using walk_node(3) [OF comparison(1)] small_index by auto
next
  case (conj i li ri l r)
  then show ?case using walk_node(3) [OF conj(1)] small_index by auto
next
  case (disj i li ri l r)
  then show ?case using walk_node(3) [OF disj(1)] small_index by auto
next
  case (neg i li e)
  then show ?case using walk_node(2) [OF neg(1)] small_index by auto
qed (auto simp: stringComparison_def)

section \<open>The masks of a pair\<close>

text \<open>Documented behaviour of the product of two masks: one level deeper than its factors.\<close>

definition mult_law ::
  "'ct Fhe \<Rightarrow> ('ct, 'e, 'op) Proto1 \<Rightarrow> nat \<Rightarrow> ('ct EncBatch \<Rightarrow> 'e ExprSem) \<Rightarrow> bool" where
  "mult_law F P depth S \<longleftrightarrow> (\<forall>ex1 b1 m1 ex2 b2 m2 p q.
     p1_evaluate P ex1 b1 = Inr m1 \<longrightarrow> decryptsTo F m1 (\<lambda>i. of_bool (p i)) \<longrightarrow>
     p1_evaluate P ex2 b2 = Inr m2 \<longrightarrow> decryptsTo F m2 (\<lambda>i. of_bool (q i)) \<longrightarrow>
     Suc (max (es_cost (S b1) ex1) (es_cost (S b2) ex2)) \<le> depth \<longrightarrow>
     decryptsTo F (fhe_evalMult F m1 m2) (\<lambda>i. of_bool (p i \<and> q i)))"

lemma heldAs_read: "heldAs F b c f \<Longrightarrow> c \<in> readable b"
  by (auto simp: heldAs_def readable_def)

lemma column_reads:
  assumes "expr_law F P depth b S" "heldAs F b c f" "i < fhe_slotCount F"
  shows "es_val S (p1_columnRef P c) i = f i" "small (f i)"
  using assms unfolding expr_law_def leaf_law_def heldAs_def by blast+

lemma on_mask:
  assumes law: "expr_law F P depth b S" and d: "8 \<le> depth"
    and h: "heldAs F b c f" "heldAs F b c' g"
  shows "\<exists>ct. p1_evaluate P (p1_equal P (p1_columnRef P c) (p1_columnRef P c')) b = Inr ct
     \<and> decryptsTo F ct (\<lambda>i. of_bool (f i = g i))
     \<and> es_cost S (p1_equal P (p1_columnRef P c) (p1_columnRef P c')) \<le> 8"
proof -
  let ?ex = "p1_equal P (p1_columnRef P c) (p1_columnRef P c')"
  have leaf: "es_cost S (p1_columnRef P n) = 0" "es_columns S (p1_columnRef P n) \<subseteq> {n}" for n
    using law by (simp_all add: expr_law_def leaf_law_def)
  have eq: "cmp_law S (p1_equal P) (=)" using law by (simp add: expr_law_def)
  have cost: "es_cost S ?ex \<le> 8" using cmp_cost [OF eq] leaf(1) by simp
  have cols: "es_columns S ?ex \<subseteq> readable b"
    using op_columns(1) [OF eq, of _ "readable b"] leaf(2) heldAs_read [OF h(1)] heldAs_read [OF h(2)] by blast
  have val: "\<forall>j < fhe_slotCount F. es_val S ?ex j = of_bool (f j = g j)"
    using eq column_reads [OF law h(1)] column_reads [OF law h(2)] by (simp add: cmp_law_def)
  from eval_decrypts [OF law _ cols val] cost d show ?thesis by auto
qed

section \<open>The conditions\<close>

definition joinAnswerable ::
  "'ct Fhe \<Rightarrow> ('ct, 'e, 'op) Proto1 \<Rightarrow> Catalog \<Rightarrow> nat \<Rightarrow> ('ct EncBatch \<Rightarrow> 'e ExprSem) \<Rightarrow> SelectStatement \<Rightarrow>
   TableSchema \<Rightarrow> TableSchema \<Rightarrow> string \<Rightarrow> string \<Rightarrow> string \<Rightarrow> string \<Rightarrow>
   ChunkMeta list \<Rightarrow> (u32 \<Rightarrow> Rows) \<Rightarrow> ChunkMeta list \<Rightarrow> (u32 \<Rightarrow> Rows) \<Rightarrow> bool" where
  "joinAnswerable F P cat depth S s t u rt ar x y lms L rms R \<longleftrightarrow>
     wfCatalog cat \<and> cat_tables cat (st_tableName s) = Some t \<and> cat_tables cat rt = Some u
     \<and> joinOf s rt ar x y \<and> intColumn t x \<and> intColumn u y
     \<and> fhe_wire_law F \<and> fhe_decrypt_law F \<and> 1 \<le> fhe_slotCount F
     \<and> (\<forall>b. expr_law F P depth b (S b)) \<and> mult_law F P depth S \<and> 8 \<le> depth
     \<and> joinStored F P (st_tableName s) t lms L \<and> joinStored F P rt u rms R \<and> lms \<noteq> [] \<and> rms \<noteq> []
     \<and> distinct (st_projections s)
     \<and> (\<forall>n\<in>set (st_projections s) \<union> ob_columnName ` set (st_orderByColumns s). pairColumn t u (st_tableAlias s) ar n)
     \<and> (case st_whereClause s of None \<Rightarrow> True
        | Some e \<Rightarrow> pairClause t u (st_tableAlias s) ar e \<and> Suc (max 8 (whereDepth t e)) \<le> depth
            \<and> (\<forall>n\<in>exprColumns e. hasColumn t (bareName n)))"

text \<open>The reference answer: the pairs, in nested-loop order, that satisfy ON and WHERE.\<close>

definition pairSchema :: "TableSchema \<Rightarrow> TableSchema \<Rightarrow> string \<Rightarrow> string list \<Rightarrow> ColumnSchema list" where
  "pairSchema t u al names =
     map (\<lambda>n. (the (columnOpt (if qualifier al n = al then t else u) (bareName n)))\<lparr>cs_name := n\<rparr>) names"

definition pairMatches :: "SelectStatement \<Rightarrow> Rows \<Rightarrow> bool" where
  "pairMatches s pair \<longleftrightarrow> rowMatches pair 0 (jc_condition (hd (st_joins s))) \<and> selectedBy s pair 0"

definition pairAnswer :: "SelectStatement \<Rightarrow> TableSchema \<Rightarrow> TableSchema \<Rightarrow> string list \<Rightarrow> Rows \<Rightarrow> Rows \<Rightarrow> ResultRow list" where
  "pairAnswer s t u names l r =
     (let pair = pairRows (st_tableAlias s) l r in
      if pairMatches s pair then [rowOf pair (pairSchema t u (st_tableAlias s) names) 0] else [])"

definition joinRows ::
  "SelectStatement \<Rightarrow> TableSchema \<Rightarrow> TableSchema \<Rightarrow> string list \<Rightarrow> Rows list \<Rightarrow> Rows list \<Rightarrow> ResultRow list" where
  "joinRows s t u names ls rs = concat (map (\<lambda>l. concat (map (pairAnswer s t u names l) rs)) ls)"

section \<open>Loops that append\<close>

lemma foldE_appends:
  assumes "\<And>x acc. x \<in> set xs \<Longrightarrow> \<exists>ys. f x acc = Inr (acc @ ys) \<and> Q x ys"
  shows "\<exists>yss. foldE f xs acc = Inr (acc @ concat yss) \<and> list_all2 Q xs yss"
  using assms
proof (induction xs arbitrary: acc)
  case (Cons x xs)
  from Cons.prems [of x acc] obtain ys where ys: "f x acc = Inr (acc @ ys)" "Q x ys" by auto
  from Cons.IH [of "acc @ ys"] Cons.prems obtain yss where
    "foldE f xs (acc @ ys) = Inr ((acc @ ys) @ concat yss)" "list_all2 Q xs yss" by auto
  with ys show ?case by (intro exI [of _ "ys # yss"]) simp
qed simp

lemma concat_twice: "concat (concat xss) = concat (map concat xss)"
  by (induction xss) auto

section \<open>One pair\<close>

text \<open>The fields of the client's package for such a statement.\<close>

definition packageJoins :: "QueryPackage \<Rightarrow> SelectStatement \<Rightarrow> string \<Rightarrow> string \<Rightarrow> string \<Rightarrow> string \<Rightarrow> string list \<Rightarrow> bool" where
  "packageJoins pkg s rt ar x y names \<longleftrightarrow>
     pk_hasJoin pkg \<and> pk_tableName pkg = st_tableName s \<and> pk_tableAlias pkg = st_tableAlias s
     \<and> pk_joinedTableName pkg = rt \<and> pk_joinedTableAlias pkg = ar
     \<and> pk_joinLeftColumn pkg = atAlias (st_tableAlias s) x \<and> pk_joinRightColumn pkg = atAlias ar y
     \<and> pk_projectColumns pkg = names"

lemma stored_int:
  assumes "joinStored F P table t ms R" "m \<in> set ms" "intColumn t n"
  shows "\<exists>cs. columnOpt t n = Some cs \<and> cs_type cs \<noteq> STRING
      \<and> columnStored F P (chunkOf P table (cm_chunkId m)) (R (cm_chunkId m)) cs"
    "\<exists>ch. p1_getChunk P table n (cm_partitionId m) (cm_chunkId m) = Inr ch \<and> checkChunkSize ch = Inr ()"
    "p1_listChunks P table n = Inr ms"
proof -
  from assms(3) obtain cs where cs: "columnOpt t n = Some cs" "cs_type cs \<noteq> STRING"
    by (auto simp: intColumn_def split: option.splits)
  have n: "cs \<in> set (ts_columns t)" "cs_name cs = n"
    using column_Inr [of t n cs] cs(1) by (auto simp: column_columnOpt)
  with assms(1,2) have c: "columnStored F P (chunkOf P table (cm_chunkId m)) (R (cm_chunkId m)) cs"
    by (simp add: joinStored_def)
  with cs show "\<exists>cs. columnOpt t n = Some cs \<and> cs_type cs \<noteq> STRING
      \<and> columnStored F P (chunkOf P table (cm_chunkId m)) (R (cm_chunkId m)) cs" by blast
  from c cs(2) n(2) obtain ch where "chunkOf P table (cm_chunkId m) n = Some ch"
    by (auto simp: columnStored_def holds_def)
  with assms(1,2) show "\<exists>ch. p1_getChunk P table n (cm_partitionId m) (cm_chunkId m) = Inr ch \<and> checkChunkSize ch = Inr ()"
    by (auto simp: joinStored_def chunkOf_def checkChunkSize_def split: sum.splits)
  show "p1_listChunks P table n = Inr ms" using assms(1) n cs(2) by (auto simp: joinStored_def)
qed

lemma table_batch:
  assumes st: "joinStored F P table t ms R" "m \<in> set ms" and t: "cat_tables cat table = Some t"
  shows "\<exists>b'. addTableColumns P cat table al (cm_chunkId m) b = Inr b' \<and> extends P table t al (cm_chunkId m) b b'
     \<and> (\<forall>n. intColumn t n \<longrightarrow> heldAs F b' (atAlias al n) (rw_int (R (cm_chunkId m)) n))"
proof -
  obtain b' where b': "addTableColumns P cat table al (cm_chunkId m) b = Inr b'" "extends P table t al (cm_chunkId m) b b'"
    using addTable_extends [OF t, of P "cm_chunkId m" al b] stored_physicals [OF st] by blast
  then show ?thesis using stored_int(1) [OF st] extends_holds [OF b'(2)] by blast
qed

text \<open>A projected column of the pair.\<close>

lemma pair_column:
  assumes p: "packageJoins pkg s rt ar x y names" and t: "cat_tables cat (st_tableName s) = Some t" "cat_tables cat rt = Some u"
    and st: "joinStored F P (st_tableName s) t lms L" "lm \<in> set lms" "joinStored F P rt u rms R" "rm \<in> set rms"
    and wire: "fhe_wire_law F" "1 \<le> fhe_slotCount F"
    and n: "pairColumn t u (st_tableAlias s) ar n" "st_tableAlias s \<noteq> ar"
  shows "\<exists>crs. joinColumn F P cat pkg lm rm n = Inr crs
     \<and> columnHolds F (pairRows (st_tableAlias s) (L (cm_chunkId lm)) (R (cm_chunkId rm))) 1
         ((the (columnOpt (if qualifier (st_tableAlias s) n = st_tableAlias s then t else u) (bareName n)))\<lparr>cs_name := n\<rparr>) crs"
proof -
  let ?al = "st_tableAlias s" and ?pair = "pairRows (st_tableAlias s) (L (cm_chunkId lm)) (R (cm_chunkId rm))"
  have one: "\<exists>crs. columnResults F P (\<lambda>ph. p1_getChunk P table ph 0 (cm_chunkId m)) err n (bareName n) cs = Inr crs
      \<and> columnHolds F ?pair 1 (cs\<lparr>cs_name := n\<rparr>) crs"
    if "joinStored F P table v ms V" "m \<in> set ms" "columnOpt v (bareName n) = Some cs"
      "rw_int ?pair n = rw_int (V (cm_chunkId m)) (bareName n)" "rw_string ?pair n = rw_string (V (cm_chunkId m)) (bareName n)"
    for table v ms V m cs err
  proof -
    have cs: "cs \<in> set (ts_columns v)" "cs_name cs = bareName n"
      using column_Inr [of v "bareName n" cs] that(3) by (auto simp: column_columnOpt)
    with that(1,2) have c: "columnStored F P (chunkOf P table (cm_chunkId m)) (V (cm_chunkId m)) cs"
      by (simp add: joinStored_def)
    have look: "p1_getChunk P table ph 0 (cm_chunkId m) = Inr ch" if "chunkOf P table (cm_chunkId m) ph = Some ch" for ph ch
      using that by (auto simp: chunkOf_def split: sum.splits)
    show ?thesis
      using column_results [where look = "\<lambda>ph. p1_getChunk P table ph 0 (cm_chunkId m)" and R' = ?pair and name = n
          and err = err, OF c wire look] that(4,5) cs(2) by simp
  qed
  show ?thesis
  proof (cases "qualifier ?al n = ?al")
    case True
    with n obtain cs where cs: "columnOpt t (bareName n) = Some cs"
      by (auto simp: pairColumn_def hasColumn_columnOpt)
    from one [OF st(1,2) cs, of "\<lambda>_. RuntimeError ''JOIN result column has no ciphertext''"] True cs t(1) p show ?thesis
      by (simp add: joinColumn_def packageJoins_def Let_def getTable_def column_columnOpt [THEN iffD2] pairRows_def)
  next
    case False
    with n obtain cs where cs: "columnOpt u (bareName n) = Some cs"
      by (auto simp: pairColumn_def hasColumn_columnOpt)
    from one [OF st(3,4) cs, of "\<lambda>_. RuntimeError ''JOIN result column has no ciphertext''"] False cs t(2) p show ?thesis
      by (simp add: joinColumn_def packageJoins_def Let_def getTable_def column_columnOpt [THEN iffD2] pairRows_def)
  qed
qed

text \<open>What the expression of the clause gives on a batch that holds the columns it reads.\<close>

definition whereBuilt ::
  "'ct Fhe \<Rightarrow> ('ct, 'e, 'op) Proto1 \<Rightarrow> ('ct EncBatch \<Rightarrow> 'e ExprSem) \<Rightarrow> nat \<Rightarrow> TableSchema \<Rightarrow> ASTExpr \<Rightarrow> 'e \<Rightarrow> bool" where
  "whereBuilt F P S depth t e ex \<longleftrightarrow> (\<forall>b V. (\<forall>n\<in>exprColumns e. heldAs F b n (rw_int V n)) \<longrightarrow>
     (\<exists>m. p1_evaluate P ex b = Inr m \<and> decryptsTo F m (\<lambda>i. of_bool (rowMatches V i e))
        \<and> es_cost (S b) ex \<le> whereDepth t e))"

definition clauseBuilt ::
  "'ct Fhe \<Rightarrow> ('ct, 'e, 'op) Proto1 \<Rightarrow> ('ct EncBatch \<Rightarrow> 'e ExprSem) \<Rightarrow> nat \<Rightarrow> TableSchema \<Rightarrow> SelectStatement \<Rightarrow>
   QueryPackage \<Rightarrow> 'e option \<Rightarrow> bool" where
  "clauseBuilt F P S depth t s pkg w \<longleftrightarrow>
     (case st_whereClause s of
        None \<Rightarrow> w = None
      | Some e \<Rightarrow> (\<exists>ex. w = Some ex \<and> whereBuilt F P S depth t e ex)
          \<and> (\<not> whereUsesJoinedTable pkg \<longrightarrow> (\<forall>n\<in>exprColumns e. \<exists>m. n = atAlias (st_tableAlias s) m \<and> intColumn t m)))"

lemma pair_ints:
  assumes "\<not> hasDot al" "\<not> hasDot ar" "al \<noteq> ar"
  shows "rw_int (pairRows al L R) (atAlias al m) = rw_int L m" "rw_int (pairRows al L R) (atAlias ar m) = rw_int R m"
  using assms by (simp_all add: pairRows_def)

text \<open>A clause over the left table has its mask computed once per left row.\<close>

definition leftMaskOk ::
  "'ct Fhe \<Rightarrow> ('ct, 'e, 'op) Proto1 \<Rightarrow> ('ct EncBatch \<Rightarrow> 'e ExprSem) \<Rightarrow> TableSchema \<Rightarrow> SelectStatement \<Rightarrow>
   QueryPackage \<Rightarrow> Rows \<Rightarrow> 'e option \<Rightarrow> 'ct option \<Rightarrow> bool" where
  "leftMaskOk F P S t s pkg l w lm0 \<longleftrightarrow>
     (case (st_whereClause s, w) of
        (Some e, Some ex) \<Rightarrow>
          if whereUsesJoinedTable pkg then lm0 = None
          else (\<exists>m b. lm0 = Some m \<and> p1_evaluate P ex b = Inr m \<and> es_cost (S b) ex \<le> whereDepth t e
            \<and> (\<forall>r. decryptsTo F m (\<lambda>i. of_bool (rowMatches (pairRows (st_tableAlias s) l r) i e))))
      | _ \<Rightarrow> lm0 = None)"

lemma left_mask:
  assumes p: "packageJoins pkg s rt ar x y names" and a: "\<not> hasDot (st_tableAlias s)"
    and b: "clauseBuilt F P S depth t s pkg w" and t: "cat_tables cat (st_tableName s) = Some t"
    and st: "joinStored F P (st_tableName s) t lms L" "lm \<in> set lms"
  shows "\<exists>lm0. (case w of
              Some ex \<Rightarrow>
                if whereUsesJoinedTable pkg then Inr None
                else bindE (addTableColumns P cat (pk_tableName pkg) (pk_tableAlias pkg) (cm_chunkId lm) emptyBatch)
                       (\<lambda>leftOnly. bindE (p1_evaluate P ex leftOnly) (\<lambda>m. Inr (Some m)))
            | None \<Rightarrow> Inr None) = Inr lm0 \<and> leftMaskOk F P S t s pkg (L (cm_chunkId lm)) w lm0"
proof (cases "st_whereClause s")
  case None
  with b show ?thesis by (simp add: clauseBuilt_def leftMaskOk_def)
next
  case (Some e)
  with b obtain ex where w: "w = Some ex" "whereBuilt F P S depth t e ex" by (auto simp: clauseBuilt_def)
  show ?thesis
  proof (cases "whereUsesJoinedTable pkg")
    case True
    with Some w show ?thesis by (simp add: leftMaskOk_def)
  next
    case False
    let ?l = "L (cm_chunkId lm)"
    obtain lb where lb: "addTableColumns P cat (st_tableName s) (st_tableAlias s) (cm_chunkId lm) emptyBatch = Inr lb"
      "\<And>n. intColumn t n \<Longrightarrow> heldAs F lb (atAlias (st_tableAlias s) n) (rw_int ?l n)"
      using table_batch [OF st t, of "st_tableAlias s" emptyBatch] by blast
    have held: "\<forall>n\<in>exprColumns e. heldAs F lb n (rw_int (pairRows (st_tableAlias s) ?l r) n)" for r
    proof
      fix n assume "n \<in> exprColumns e"
      with b Some False obtain m where "n = atAlias (st_tableAlias s) m" "intColumn t m"
        by (auto simp: clauseBuilt_def)
      with lb(2) a show "heldAs F lb n (rw_int (pairRows (st_tableAlias s) ?l r) n)" by (simp add: pairRows_def)
    qed
    have "\<exists>m. p1_evaluate P ex lb = Inr m \<and> decryptsTo F m (\<lambda>i. of_bool (rowMatches (pairRows (st_tableAlias s) ?l r) i e))
        \<and> es_cost (S lb) ex \<le> whereDepth t e" for r
      using w(2) held unfolding whereBuilt_def by blast
    then obtain m where m: "p1_evaluate P ex lb = Inr m" "es_cost (S lb) ex \<le> whereDepth t e"
      "\<And>r. decryptsTo F m (\<lambda>i. of_bool (rowMatches (pairRows (st_tableAlias s) ?l r) i e))" by (metis sum.inject(2))
    with Some w False lb(1) p show ?thesis by (auto simp: leftMaskOk_def packageJoins_def)
  qed
qed

lemma pair_mask:
  assumes ok: "leftMaskOk F P S t s pkg l w lm0" and b: "clauseBuilt F P S depth t s pkg w"
    and mult: "mult_law F P depth S"
    and d: "\<And>e. st_whereClause s = Some e \<Longrightarrow> Suc (max 8 (whereDepth t e)) \<le> depth"
    and held: "\<And>e n. st_whereClause s = Some e \<Longrightarrow> n \<in> exprColumns e \<Longrightarrow> heldAs F pair n (rw_int (pairRows (st_tableAlias s) l r) n)"
    and on: "p1_evaluate P on pair = Inr m0" "decryptsTo F m0 (\<lambda>i. of_bool (q i))" "es_cost (S pair) on \<le> 8"
  shows "\<exists>m. (case w of
              Some ex \<Rightarrow>
                if whereUsesJoinedTable pkg
                then bindE (p1_evaluate P ex pair) (\<lambda>m. Inr (fhe_evalMult F m0 m))
                else Inr (case lm0 of Some m \<Rightarrow> fhe_evalMult F m0 m | None \<Rightarrow> m0)
            | None \<Rightarrow> Inr m0) = Inr m
     \<and> decryptsTo F m (\<lambda>i. of_bool (q i \<and> selectedBy s (pairRows (st_tableAlias s) l r) i))"
proof (cases "st_whereClause s")
  case None
  with b on(2) show ?thesis by (simp add: clauseBuilt_def selectedBy_def)
next
  case (Some e)
  let ?V = "pairRows (st_tableAlias s) l r"
  from b Some obtain ex where w: "w = Some ex" "whereBuilt F P S depth t e ex" by (auto simp: clauseBuilt_def)
  have deep: "Suc (max (es_cost (S pair) on) c) \<le> depth" if "c \<le> whereDepth t e" for c
    using d [OF Some] on(3) that by simp
  show ?thesis
  proof (cases "whereUsesJoinedTable pkg")
    case True
    obtain m1 where m1: "p1_evaluate P ex pair = Inr m1" "decryptsTo F m1 (\<lambda>i. of_bool (rowMatches ?V i e))"
      "es_cost (S pair) ex \<le> whereDepth t e"
      using w(2) held [OF Some] unfolding whereBuilt_def by blast
    have "decryptsTo F (fhe_evalMult F m0 m1) (\<lambda>i. of_bool (q i \<and> rowMatches ?V i e))"
      using mult [unfolded mult_law_def, rule_format, OF on(1,2) m1(1,2) deep [OF m1(3)]] .
    with True w m1(1) Some show ?thesis by (simp add: selectedBy_def)
  next
    case False
    with ok Some w obtain m1 b1 where m1: "lm0 = Some m1" "p1_evaluate P ex b1 = Inr m1"
      "es_cost (S b1) ex \<le> whereDepth t e" "decryptsTo F m1 (\<lambda>i. of_bool (rowMatches ?V i e))"
      by (auto simp: leftMaskOk_def)
    have "decryptsTo F (fhe_evalMult F m0 m1) (\<lambda>i. of_bool (q i \<and> rowMatches ?V i e))"
      using mult [unfolded mult_law_def, rule_format, OF on(1,2) m1(2,4) deep [OF m1(3)]] .
    with False w m1(1) Some show ?thesis by (simp add: selectedBy_def)
  qed
qed

lemma pair_held:
  assumes l: "\<And>m. intColumn t m \<Longrightarrow> heldAs F b (atAlias al m) (rw_int L m)"
    and r: "\<And>m. intColumn u m \<Longrightarrow> heldAs F b (atAlias ar m) (rw_int R m)"
    and a: "\<not> hasDot al" "\<not> hasDot ar" "al \<noteq> ar" and e: "pairClause t u al ar e" "n \<in> exprColumns e"
  shows "heldAs F b n (rw_int (pairRows al L R) n)"
proof -
  have "pairClause t u al ar e \<or> pairTerm t u al ar e \<Longrightarrow> n \<in> exprColumns e \<Longrightarrow> pairTerm t u al ar (ColumnRef n)"
    by (induction e) auto
  with e have "pairTerm t u al ar (ColumnRef n)" by blast
  then show ?thesis by (rule pairTerm_cases) (use l r a in \<open>simp_all add: pair_ints\<close>)
qed

lemma pair_step:
  assumes ans: "joinAnswerable F P cat depth S s t u rt ar x y lms L rms R"
    and p: "packageJoins pkg s rt ar x y names" and b: "clauseBuilt F P S depth t s pkg w"
    and names: "\<forall>n\<in>set names. pairColumn t u (st_tableAlias s) ar n" "distinct names"
    and m: "lm \<in> set lms" "rm \<in> set rms" and lmk: "leftMaskOk F P S t s pkg (L (cm_chunkId lm)) w lm0"
  shows "\<exists>batch. joinPair F P cat pkg y w lm lm0 rm acc = Inr (acc @ [batch])
     \<and> decode F batch = Inr (pairAnswer s t u names (L (cm_chunkId lm)) (R (cm_chunkId rm)))"
proof -
  let ?al = "st_tableAlias s" and ?l = "L (cm_chunkId lm)" and ?r = "R (cm_chunkId rm)"
  let ?pair = "pairRows ?al ?l ?r"
  have cat: "cat_tables cat (st_tableName s) = Some t" "cat_tables cat rt = Some u"
    and j: "joinOf s rt ar x y" and xy: "intColumn t x" "intColumn u y"
    and laws: "fhe_wire_law F" "1 \<le> fhe_slotCount F" "expr_law F P depth pb (S pb)" "mult_law F P depth S" "8 \<le> depth"
    and st: "joinStored F P (st_tableName s) t lms L" "joinStored F P rt u rms R"
    and e: "st_whereClause s = Some e \<Longrightarrow> pairClause t u ?al ar e \<and> Suc (max 8 (whereDepth t e)) \<le> depth" for pb e
    using ans by (auto simp: joinAnswerable_def)
  have a: "\<not> hasDot ?al" "\<not> hasDot ar" "?al \<noteq> ar" using j by (simp_all add: joinOf_def)
  note f = p [unfolded packageJoins_def]
  obtain ch where ch: "p1_getChunk P rt y (cm_partitionId rm) (cm_chunkId rm) = Inr ch" "checkChunkSize ch = Inr ()"
    using stored_int(2) [OF st(2) m(2) xy(2)] by blast
  obtain lb where lb: "addTableColumns P cat (st_tableName s) ?al (cm_chunkId lm) emptyBatch = Inr lb"
    "\<And>n. intColumn t n \<Longrightarrow> heldAs F lb (atAlias ?al n) (rw_int ?l n)"
    using table_batch [OF st(1) m(1) cat(1), of ?al emptyBatch] by blast
  obtain pb where pb: "addTableColumns P cat rt ar (cm_chunkId rm) lb = Inr pb" "extends P rt u ar (cm_chunkId rm) lb pb"
    "\<And>n. intColumn u n \<Longrightarrow> heldAs F pb (atAlias ar n) (rw_int ?r n)"
    using table_batch [OF st(2) m(2) cat(2), of ar lb] by blast
  have left: "heldAs F pb (atAlias ?al n) (rw_int ?l n)" if "intColumn t n" for n
    by (rule extends_keeps [OF pb(2) a(2,1,3) lb(2) [OF that]])
  let ?on = "p1_equal P (p1_columnRef P (pk_joinLeftColumn pkg)) (p1_columnRef P (pk_joinRightColumn pkg))"
  obtain m0 where m0: "p1_evaluate P ?on pb = Inr m0" "decryptsTo F m0 (\<lambda>i. of_bool (rw_int ?l x i = rw_int ?r y i))"
    "es_cost (S pb) ?on \<le> 8"
    using on_mask [OF laws(3,5) left [OF xy(1)] pb(3) [OF xy(2)]] f by auto
  obtain mk where mk: "(case w of
        Some ex \<Rightarrow>
          if whereUsesJoinedTable pkg
          then bindE (p1_evaluate P ex pb) (\<lambda>m. Inr (fhe_evalMult F m0 m))
          else Inr (case lm0 of Some m \<Rightarrow> fhe_evalMult F m0 m | None \<Rightarrow> m0)
      | None \<Rightarrow> Inr m0) = Inr mk"
    "decryptsTo F mk (\<lambda>i. of_bool (rw_int ?l x i = rw_int ?r y i \<and> selectedBy s ?pair i))"
    using pair_mask [OF lmk b laws(4) _ _ m0, of ?r] e pair_held [OF left pb(3) a] by blast
  have "\<forall>n\<in>set names. \<exists>crs. joinColumn F P cat pkg lm rm n = Inr crs \<and> columnHolds F ?pair 1
      ((the (columnOpt (if qualifier ?al n = ?al then t else u) (bareName n)))\<lparr>cs_name := n\<rparr>) crs"
    using pair_column [OF p cat st(1) m(1) st(2) m(2) laws(1,2) _ a(3)] names(1) by blast
  then obtain g where g: "\<And>n. n \<in> set names \<Longrightarrow> joinColumn F P cat pkg lm rm n = Inr (g n)"
    "\<And>n. n \<in> set names \<Longrightarrow> columnHolds F ?pair 1
      ((the (columnOpt (if qualifier ?al n = ?al then t else u) (bareName n)))\<lparr>cs_name := n\<rparr>) (g n)" by metis
  have cols: "mapE (joinColumn F P cat pkg lm rm) names = Inr (map g names)" using g(1) by (intro mapE_total) simp
  let ?batch = "\<lparr>rb_batchId = of_nat (length acc), rb_logicalRowCount = 1, rb_columns = concat (map g names),
     rb_selectionMaskBytes = fhe_serialize F mk, rb_hasMask = True\<rparr>"
  have "joinPair F P cat pkg y w lm lm0 rm acc = Inr (acc @ [?batch])"
    using ch lb(1) pb(1) m0(1) mk(1) cols f by (simp add: joinPair_def)
  moreover have "decode F ?batch = Inr (map (rowOf ?pair (pairSchema t u ?al names))
      (filter (\<lambda>i. rw_int ?l x i = rw_int ?r y i \<and> selectedBy s ?pair i) [0..<1]))"
  proof (rule decode_batch)
    show "list_all2 (columnHolds F ?pair 1) (pairSchema t u ?al names) (map g names)"
      using g(2) by (simp add: pairSchema_def list_all2_conv_all_nth)
    show "distinct (map cs_name (pairSchema t u ?al names))" using names(2) by (simp add: pairSchema_def o_def)
    show "if rb_hasMask ?batch
        then deserializesTo F (rb_selectionMaskBytes ?batch) 1 (\<lambda>i. of_bool (rw_int ?l x i = rw_int ?r y i \<and> selectedBy s ?pair i))
        else \<forall>i < 1. rw_int ?l x i = rw_int ?r y i \<and> selectedBy s ?pair i"
      using stored_values [OF laws(1,2) mk(2)] by simp
  qed simp_all
  moreover have "rowMatches ?pair 0 (jc_condition (hd (st_joins s))) \<longleftrightarrow> rw_int ?l x 0 = rw_int ?r y 0"
    using j a by (simp add: joinOf_def stringComparison_def pair_ints)
  ultimately show ?thesis by (intro exI [of _ ?batch]) (auto simp: pairAnswer_def pairMatches_def Let_def)
qed

section \<open>The loops over the chunks\<close>

lemma left_step:
  assumes ans: "joinAnswerable F P cat depth S s t u rt ar x y lms L rms R"
    and p: "packageJoins pkg s rt ar x y names" and b: "clauseBuilt F P S depth t s pkg w"
    and names: "\<forall>n\<in>set names. pairColumn t u (st_tableAlias s) ar n" "distinct names" and m: "lm \<in> set lms"
  shows "\<exists>batches. joinLeft F P cat pkg x y w rms lm acc = Inr (acc @ batches)
     \<and> list_all2 (\<lambda>rm batch. decode F batch = Inr (pairAnswer s t u names (L (cm_chunkId lm)) (R (cm_chunkId rm)))) rms batches"
proof -
  have cat: "cat_tables cat (st_tableName s) = Some t" and a: "\<not> hasDot (st_tableAlias s)" and x: "intColumn t x"
    and st: "joinStored F P (st_tableName s) t lms L"
    using ans by (auto simp: joinAnswerable_def joinOf_def)
  obtain ch where ch: "p1_getChunk P (st_tableName s) x (cm_partitionId lm) (cm_chunkId lm) = Inr ch" "checkChunkSize ch = Inr ()"
    using stored_int(2) [OF st m x] by blast
  obtain lm0 where lm0: "(case w of
        Some ex \<Rightarrow>
          if whereUsesJoinedTable pkg then Inr None
          else bindE (addTableColumns P cat (pk_tableName pkg) (pk_tableAlias pkg) (cm_chunkId lm) emptyBatch)
                 (\<lambda>leftOnly. bindE (p1_evaluate P ex leftOnly) (\<lambda>m. Inr (Some m)))
      | None \<Rightarrow> Inr None) = Inr lm0" "leftMaskOk F P S t s pkg (L (cm_chunkId lm)) w lm0"
    using left_mask [OF p a b cat st m] by blast
  have "\<exists>yss. foldE (joinPair F P cat pkg y w lm lm0) rms acc = Inr (acc @ concat yss)
      \<and> list_all2 (\<lambda>rm ys. \<exists>batch. ys = [batch]
          \<and> decode F batch = Inr (pairAnswer s t u names (L (cm_chunkId lm)) (R (cm_chunkId rm)))) rms yss"
    by (rule foldE_appends) (use pair_step [OF ans p b names m _ lm0(2)] in blast)
  then obtain yss where yss: "foldE (joinPair F P cat pkg y w lm lm0) rms acc = Inr (acc @ concat yss)"
    "list_all2 (\<lambda>rm ys. \<exists>batch. ys = [batch]
       \<and> decode F batch = Inr (pairAnswer s t u names (L (cm_chunkId lm)) (R (cm_chunkId rm)))) rms yss" by blast
  from yss(2) have "list_all2 (\<lambda>rm batch. decode F batch = Inr (pairAnswer s t u names (L (cm_chunkId lm)) (R (cm_chunkId rm))))
      rms (concat yss)"
    by (induction rule: list_all2_induct) auto
  moreover have "joinLeft F P cat pkg x y w rms lm acc = Inr (acc @ concat yss)"
    using ch lm0(1) yss(1) p by (simp add: joinLeft_def packageJoins_def)
  ultimately show ?thesis by blast
qed

lemma join_execution:
  assumes ans: "joinAnswerable F P cat depth S s t u rt ar x y lms L rms R"
    and p: "packageJoins pkg s rt ar x y names"
    and w: "buildWhere F P pkg = Some (Inr w)" "clauseBuilt F P S depth t s pkg w"
    and names: "\<forall>n\<in>set names. pairColumn t u (st_tableAlias s) ar n" "distinct names"
  shows "\<exists>rs. execute F P cat pkg = Some (Inr rs) \<and> length rs = length lms * length rms
     \<and> decodeBatches F rs = Inr (joinRows s t u names (map (L \<circ> cm_chunkId) lms) (map (R \<circ> cm_chunkId) rms))"
proof -
  have x: "intColumn t x" "intColumn u y" and st: "joinStored F P (st_tableName s) t lms L" "joinStored F P rt u rms R"
    and ne: "lms \<noteq> []" "rms \<noteq> []"
    using ans by (auto simp: joinAnswerable_def)
  note f = p [unfolded packageJoins_def]
  have chunks: "p1_listChunks P (st_tableName s) x = Inr lms" "p1_listChunks P rt y = Inr rms"
    by (rule stored_int(3) [OF st(1) hd_in_set [OF ne(1)] x(1)], rule stored_int(3) [OF st(2) hd_in_set [OF ne(2)] x(2)])
  have "\<exists>yss. foldE (joinLeft F P cat pkg x y w rms) lms [] = Inr ([] @ concat yss)
      \<and> list_all2 (\<lambda>lm ys. list_all2 (\<lambda>rm batch. decode F batch =
          Inr (pairAnswer s t u names (L (cm_chunkId lm)) (R (cm_chunkId rm)))) rms ys) lms yss"
    by (rule foldE_appends) (rule left_step [OF ans p w(2) names])
  then obtain yss where yss: "foldE (joinLeft F P cat pkg x y w rms) lms [] = Inr (concat yss)"
    "list_all2 (\<lambda>lm ys. list_all2 (\<lambda>rm batch. decode F batch =
          Inr (pairAnswer s t u names (L (cm_chunkId lm)) (R (cm_chunkId rm)))) rms ys) lms yss" by auto
  have pre: "startsWith (atAlias a n) (a @ ''.'')" "drop (length (a @ ''.'')) (atAlias a n) = n" for a n
    by (simp_all add: startsWith_def atAlias_def)
  have "execute F P cat pkg = Some (Inr (concat yss))"
    using f w(1) chunks yss(1) pre(2) by (simp add: execute_def executeJoin_def Let_def pre(1))
  moreover have "list_all2 (\<lambda>b rows. decode F b = Inr rows) (concat yss)
      (concat (map (\<lambda>lm. map (\<lambda>rm. pairAnswer s t u names (L (cm_chunkId lm)) (R (cm_chunkId rm))) rms) lms))"
    using yss(2)
  proof (induction rule: list_all2_induct)
    case (Cons lm lms ys yss)
    have "list_all2 (\<lambda>b rows. decode F b = Inr rows) ys
        (map (\<lambda>rm. pairAnswer s t u names (L (cm_chunkId lm)) (R (cm_chunkId rm))) rms)"
      using Cons.hyps(1) by (auto simp: list_all2_conv_all_nth)
    with Cons.IH show ?case by (auto intro: list_all2_appendI)
  qed simp
  from decode_all [OF this, of "[]"] concat_twice [of "map (\<lambda>lm. map (\<lambda>rm. pairAnswer s t u names (L (cm_chunkId lm)) (R (cm_chunkId rm))) rms) lms"]
  have "decodeBatches F (concat yss) = Inr (joinRows s t u names (map (L \<circ> cm_chunkId) lms) (map (R \<circ> cm_chunkId) rms))"
    by (simp add: decodeBatches_def joinRows_def o_def)
  moreover have "length (concat yss) = length lms * length rms"
    using yss(2) by (induction rule: list_all2_induct) (auto dest: list_all2_lengthD)
  ultimately show ?thesis by blast
qed

section \<open>The answer of the server\<close>

lemma pair_columns_fit:
  assumes "pairClause t u al ar e" "n \<in> exprColumns e"
  shows "pairTerm t u al ar (ColumnRef n)"
proof -
  have "pairClause t u al ar e \<or> pairTerm t u al ar e \<Longrightarrow> n \<in> exprColumns e \<Longrightarrow> pairTerm t u al ar (ColumnRef n)"
    by (induction e) auto
  with assms show ?thesis by blast
qed

lemma clause_built:
  fixes V0 :: Rows
  assumes e: "st_whereClause s = Some e" "pairClause t u (st_tableAlias s) ar e"
    and a: "\<not> hasDot (st_tableAlias s)" "\<not> hasDot ar" "pk_joinedTableAlias pkg = ar"
    and r: "represents F t (pk_predicateNodes pkg) (pk_encryptedLiterals pkg) (of_nat (length (pk_predicateNodes pkg) - 1)) e"
    and l: "literalsOk (pk_encryptedLiterals pkg)"
    and laws: "fhe_wire_law F" "fhe_decrypt_law F" "\<And>b. expr_law F P depth b (S b)" "whereDepth t e \<le> depth"
    and some: "\<forall>n\<in>exprColumns e. heldAs F b0 n (rw_int V0 n)"
  shows "\<exists>ex. buildWhere F P pkg = Some (Inr (Some ex)) \<and> clauseBuilt F P S depth t s pkg (Some ex)"
proof -
  obtain ex where ex: "buildWhere F P pkg = Some (Inr (Some ex))"
    using represented_expression [OF r l laws(1-3) pair_filterable [OF e(2) some]] by blast
  have "whereBuilt F P S depth t e ex"
    unfolding whereBuilt_def
  proof (intro allI impI)
    fix b and V :: Rows
    assume "\<forall>n\<in>exprColumns e. heldAs F b n (rw_int V n)"
    from represented_expression [OF r l laws(1-3) pair_filterable [OF e(2) this]] ex
    have x: "es_cost (S b) ex \<le> whereDepth t e" "es_columns (S b) ex \<subseteq> readable b"
      "\<forall>j < fhe_slotCount F. es_val (S b) ex j = of_bool (rowMatches V j e)" by auto
    with eval_decrypts [OF laws(3) _ x(2,3)] laws(4)
    show "\<exists>m. p1_evaluate P ex b = Inr m \<and> decryptsTo F m (\<lambda>i. of_bool (rowMatches V i e))
        \<and> es_cost (S b) ex \<le> whereDepth t e" by auto
  qed
  moreover have "\<exists>m. n = atAlias (st_tableAlias s) m \<and> intColumn t m"
    if not: "\<not> whereUsesJoinedTable pkg" and n: "n \<in> exprColumns e" for n
  proof -
    from represents_columns [OF r disjI1 [OF e(2)] n] not a(3)
    have "\<not> startsWith n (ar @ ''.'')" by (auto simp: whereUsesJoinedTable_def list_ex_iff)
    then have "n \<noteq> atAlias ar m" for m by (auto simp: startsWith_def atAlias_def)
    with pair_columns_fit [OF e(2) n] show ?thesis by (elim pairTerm_cases) auto
  qed
  ultimately show ?thesis using ex e(1) by (auto simp: clauseBuilt_def)
qed

lemma join_answered:
  assumes ans: "joinAnswerable F P cat depth S s t u rt ar x y lms L rms R"
    and p: "preparePackage F cat w s t = Inr (plan, pkg)" and size: "fitsIndices pkg"
  shows "\<exists>rs. handler F P cat (fhe_paramSetId F) pkg = Some (Inr rs) \<and> length rs = length lms * length rms
     \<and> decodeBatches F rs = Inr (joinRows s t u (pp_projectColumns plan) (map (L \<circ> cm_chunkId) lms) (map (R \<circ> cm_chunkId) rms))"
proof -
  let ?al = "st_tableAlias s"
  have cat: "wfCatalog cat" "cat_tables cat (st_tableName s) = Some t" "cat_tables cat rt = Some u"
    and j: "joinOf s rt ar x y"
    and laws: "fhe_wire_law F" "fhe_decrypt_law F" "\<And>b. expr_law F P depth b (S b)"
    and st: "joinStored F P (st_tableName s) t lms L" "joinStored F P rt u rms R" "lms \<noteq> []" "rms \<noteq> []"
    and out: "distinct (st_projections s)"
      "\<forall>n\<in>set (st_projections s) \<union> ob_columnName ` set (st_orderByColumns s). pairColumn t u ?al ar n"
    and e: "st_whereClause s = Some e \<Longrightarrow> pairClause t u ?al ar e \<and> Suc (max 8 (whereDepth t e)) \<le> depth
        \<and> (\<forall>n\<in>exprColumns e. hasColumn t (bareName n))" for e
    using ans by (auto simp: joinAnswerable_def)
  have a: "\<not> hasDot ?al" "\<not> hasDot ar" "?al \<noteq> ar" using j by (simp_all add: joinOf_def)
  obtain pkg0 rs est where q: "planStatement s t = Inr plan" "encryptCatalog F s plan cat (clientMeta F) = Inr pkg0"
    "pkg = pkg0\<lparr>pk_queryId := makeQueryId (fst (qw_random w)) (snd (qw_random w))\<rparr>"
    "pkg0 = packageOf plan (clientMeta F) rs est" "st_whereClause s = None \<longrightarrow> es_nodes est = []"
    by (rule prepared_package [OF p])
  have small: "length (pk_predicateNodes pkg0) < 2 ^ 32" "length (pk_encryptedLiterals pkg0) < 2 ^ 32"
    using size by (simp_all add: fitsIndices_def q(3))
  have ser: "\<forall>ct. fhe_serialize F ct \<noteq> []" using laws(1) by (simp add: fhe_wire_law_def)
  have lits: "literalsOk (pk_encryptedLiterals pkg)"
    using package_literalsOk [OF q(2) ser small(2)] by (simp add: q(3))
  obtain pp where "planStatement s t = Inr pp" "planFor s t pp"
    using plan_meets_spec [of s t] j by (auto simp: joinOf_def isEqualCmp_def)
  with q(1) have pf: "planFor s t plan" by simp
  have pk: "packageJoins pkg s rt ar x y (pp_projectColumns plan)" "pk_scanColumns pkg = pp_scanColumns plan"
    using pf j by (simp_all add: packageJoins_def q(3,4) packageOf_def planFor_def joinOf_def)
  have wfS: "wfSchema t" using cat by (simp add: wfCatalog_def)
  have own: "pairColumn t u ?al ar n" if "n \<in> set (map cs_name (ts_columns t))" for n
    using that wfS by (auto simp: pairColumn_def wfSchema_def list_all_iff hasColumn_iff)
  have proj: "\<forall>n\<in>set (pp_projectColumns plan). pairColumn t u ?al ar n"
    using pf own out(2) by (auto simp: planFor_def outputColumns_def)
  have dist: "distinct (pp_projectColumns plan)" by (rule plan_distinct [OF q(1) wfS out(1)])
  have tt: "cat_tables cat (pp_tableName plan) = Some t" using pf cat(2) by (simp add: planFor_def)
  have rep: "represents F t (pk_predicateNodes pkg) (pk_encryptedLiterals pkg)
      (of_nat (length (pk_predicateNodes pkg) - 1)) e" if "st_whereClause s = Some e" for e
    using encrypted_represents [OF q(2) that tt small] by (simp add: q(3))
  obtain wh where wh: "buildWhere F P pkg = Some (Inr wh)" "clauseBuilt F P S depth t s pkg wh"
  proof (cases "st_whereClause s")
    case None
    with q(5) have "buildWhere F P pkg = Some (Inr None)" by (simp add: buildWhere_def q(3,4) packageOf_def)
    with None that [of None] show thesis by (simp add: clauseBuilt_def)
  next
    case (Some e)
    let ?lm = "hd lms" and ?rm = "hd rms"
    have clause: "pairClause t u ?al ar e" using e [OF Some] ..
    obtain lb where lb: "\<And>n. intColumn t n \<Longrightarrow> heldAs F lb (atAlias ?al n) (rw_int (L (cm_chunkId ?lm)) n)"
      using table_batch [OF st(1) hd_in_set [OF st(3)] cat(2), of ?al emptyBatch] by blast
    obtain pb where pb: "extends P rt u ar (cm_chunkId ?rm) lb pb"
      "\<And>n. intColumn u n \<Longrightarrow> heldAs F pb (atAlias ar n) (rw_int (R (cm_chunkId ?rm)) n)"
      using table_batch [OF st(2) hd_in_set [OF st(4)] cat(3), of ar lb] by blast
    have "heldAs F pb n (rw_int (pairRows ?al (L (cm_chunkId ?lm)) (R (cm_chunkId ?rm))) n)" if "n \<in> exprColumns e" for n
      by (rule pair_held [OF extends_keeps [OF pb(1) a(2,1,3) lb] pb(2) a clause that])
    then have all: "\<forall>n\<in>exprColumns e. heldAs F pb n (rw_int (pairRows ?al (L (cm_chunkId ?lm)) (R (cm_chunkId ?rm))) n)" by blast
    have "pk_joinedTableAlias pkg = ar" "whereDepth t e \<le> depth"
      using pk(1) e [OF Some] by (auto simp: packageJoins_def)
    from clause_built [OF Some clause a(1,2) this(1) rep [OF Some] lits laws this(2) all] that show thesis by blast
  qed
  have "validate cat (fhe_paramSetId F) pkg = Some (Inr ())"
  proof -
    have where_in: "hasColumn t (bareName n)" if "n \<in> whereColumns s" for n
      using that e by (auto simp: whereColumns_def split: option.splits)
    have scan_in: "hasColumn t (bareName n)"
      if "n \<in> set (pp_projectColumns plan)" "\<not> ofJoinedTable (pp_hasJoin plan) (pp_joinedTableAlias plan) n" for n
    proof -
      have "pp_hasJoin plan" "pp_joinedTableAlias plan = ar" using pf j by (simp_all add: planFor_def joinOf_def)
      moreover have "pairColumn t u ?al ar n" using proj that(1) by blast
      moreover have "qualifier ?al n = ?al" if "\<not> hasDot n" using that by simp
      moreover have "qualifier ?al n = qualifier [] n" if "hasDot n"
        using that by (auto simp: qualifier_def hasDot_def simp del: find_char_None)
      ultimately show ?thesis using that(2) a(3) by (cases "hasDot n") (auto simp: ofJoinedTable_def pairColumn_def)
    qed
    have "set (pp_scanColumns plan) = bareName ` whereColumns s \<union> bareName ` {c \<in> set (pp_projectColumns plan).
        \<not> ofJoinedTable (pp_hasJoin plan) (pp_joinedTableAlias plan) c}" using pf by (simp only: planFor_def)
    with where_in scan_in have scan: "\<forall>c\<in>set (pk_scanColumns pkg). hasColumn t c" by (auto simp: pk(2))
    have "checkColumn cat pkg t (unknownColumnError ''project'' n (pk_tableName pkg)) n = Inr ()"
      if "n \<in> set (pk_projectColumns pkg)" for n
    proof -
      have "pairColumn t u ?al ar n" using that proj pk(1) by (simp add: packageJoins_def)
      then show ?thesis using pk(1) a(3) cat(3)
        by (auto simp: pairColumn_def checkColumn_def targetTable_def packageJoins_def getTable_def)
    qed
    moreover have "pk_protocolVersion pkg = 2" "fm_paramSetId (pk_fheParams pkg) = fhe_paramSetId F"
      by (simp_all add: q(3,4) packageOf_def clientMeta_def)
    moreover have "\<forall>l\<in>set (pk_encryptedLiterals pkg). el_ciphertextBytes l \<noteq> []"
      using lits by (auto simp: literalsOk_def in_set_conv_nth)
    ultimately have h: "checkHeader cat (fhe_paramSetId F) pkg = Inr t"
      using scan cat(2) pk(1) by (simp add: checkHeader_iff packageJoins_def)
    have "pk_predicateNodes pkg = []
        \<or> validatePredTree cat pkg t (of_nat (length (pk_predicateNodes pkg) - 1)) = Some (Inr ())"
    proof (cases "st_whereClause s")
      case None
      with q(5) show ?thesis by (simp add: q(3,4) packageOf_def)
    next
      case (Some e')
      have "validatePredTree cat pkg t (of_nat (length (pk_predicateNodes pkg) - 1)) = Some (Inr ())"
        by (rule represents_pair_walk [where al = ?al and ar = ar and u = u, OF rep [OF Some] lits])
          (use pk(1) a cat(3) e [OF Some] in \<open>simp_all add: packageJoins_def\<close>)
      then show ?thesis ..
    qed
    with h show ?thesis by (auto simp: validate_def)
  qed
  with join_execution [OF ans pk(1) wh proj dist] show ?thesis by (simp add: handler_def)
qed

section \<open>Two sample tables\<close>

text \<open>Two employees and two departments, one row per chunk, the same in every slot.\<close>

definition sampleRow :: "string \<Rightarrow> u32 \<Rightarrow> Rows" where
  "sampleRow table k =
     (if table = ''employees''
      then \<lparr>rw_int = (\<lambda>n _. if n = ''id'' then uint k + 1 else if n = ''age'' then (if k = 0 then 40 else 25)
              else if n = ''department_id'' then (if k = 0 then 2 else 1) else 5),
            rw_string = (\<lambda>_ _. if k = 0 then ''Al'' else ''Bob'')\<rparr>
      else \<lparr>rw_int = (\<lambda>_ _. uint k + 1), rw_string = (\<lambda>_ _. if k = 0 then ''IT'' else ''HR'')\<rparr>)"

definition sampleMetas :: "ChunkMeta list" where
  "sampleMetas = [\<lparr>cm_partitionId = 0, cm_chunkId = 0\<rparr>, \<lparr>cm_partitionId = 0, cm_chunkId = 1\<rparr>]"

definition intNamed :: "string \<Rightarrow> bool" where
  "intNamed c \<longleftrightarrow> c \<in> {''id'', ''age'', ''salary'', ''department_id''}"

definition cellOf :: "string \<Rightarrow> u32 \<Rightarrow> string \<Rightarrow> nat \<Rightarrow> int" where
  "cellOf table k c i =
     (if intNamed c then rw_int (sampleRow table k) c i
      else charAt (rw_string (sampleRow table k) c i) (length c - (if table = ''employees'' then 5 else 16)))"

definition pairProto1 :: "(int list, plainExpr, int list EncBatch list) Proto1" where
  "pairProto1 = plainProto1\<lparr>p1_listChunks := (\<lambda>_ _. Inr sampleMetas),
     p1_getChunk := (\<lambda>table c _ k. Inr \<lparr>ch_logicalRowCount = 1, ch_ciphertexts = [map (cellOf table k c) [0..<4]]\<rparr>)\<rparr>"

lemma pair_expressions: "expr_law plainFhe pairProto1 depth b (plainSem b)"
  using plain_expr_law [of depth b]
  by (simp add: expr_law_def leaf_law_def eval_law_def pairProto1_def)

lemma pair_mult: "mult_law plainFhe P depth S"
proof -
  have "decryptsTo plainFhe (map2 (*) m1 m2) (\<lambda>i. of_bool (p i \<and> q i))"
    if "decryptsTo plainFhe m1 (\<lambda>i. of_bool (p i))" "decryptsTo plainFhe m2 (\<lambda>i. of_bool (q i))" for m1 m2 p q
    using that by (simp add: decryptsTo_def plainFhe_def take_map take_zip zip_map_map zip_same_conv_map of_bool_conj)
  then show ?thesis by (simp add: mult_law_def plainFhe_def)
qed

lemma hash_not_int: "\<not> intNamed (c @ replicate (Suc p) CHR ''#'')"
proof
  assume "intNamed (c @ replicate (Suc p) CHR ''#'')"
  moreover have "CHR ''#'' \<in> set (c @ replicate (Suc p) CHR ''#'')" by simp
  ultimately show False by (auto simp only: intNamed_def insert_iff empty_iff) auto
qed

text \<open>Columns that the sample table holds.\<close>

definition sampleColumn :: "string \<Rightarrow> ColumnSchema \<Rightarrow> bool" where
  "sampleColumn table cs \<longleftrightarrow>
     (if cs_type cs = STRING then cs_maxLength cs = 16 \<and> length (cs_name cs) = (if table = ''employees'' then 4 else 15)
      else intNamed (cs_name cs))"

lemma pair_stored:
  assumes c: "sampleColumn table cs" and k: "k = 0 \<or> k = 1"
  shows "columnStored plainFhe pairProto1 (chunkOf pairProto1 table k) (sampleRow table k) cs"
proof -
  let ?R = "sampleRow table k"
  have slots: "fhe_slotCount plainFhe = 4" by (simp add: plainFhe_def)
  have texts: "textOk 16 (rw_string ?R n i)" for n i
    using k by (auto simp: sampleRow_def textOk_def code_def)
  have ints: "small (rw_int ?R n i)" for n i
    using k by (auto simp: sampleRow_def small_def)
  have chunk: "holds plainFhe (chunkOf pairProto1 table k c) f"
    if "\<And>i. cellOf table k c i = f i" "\<And>i. small (f i)" for c f
  proof -
    have "cellOf table k c = f" using that(1) by (rule ext)
    with that(2) plain_map [of f] show ?thesis by (simp add: holds_def chunkOf_def pairProto1_def)
  qed
  show ?thesis
  proof (cases "cs_type cs = STRING")
    case True
    have "holds plainFhe (chunkOf pairProto1 table k (p1_stringPhysicalColumn pairProto1 (cs_name cs) p))
        (\<lambda>i. charAt (rw_string ?R (cs_name cs) i) p)" for p
    proof (rule chunk)
      show "cellOf table k (p1_stringPhysicalColumn pairProto1 (cs_name cs) p) i = charAt (rw_string ?R (cs_name cs) i) p" for i
        using c True hash_not_int by (simp add: sampleColumn_def cellOf_def pairProto1_def plainProto1_def) (simp add: sampleRow_def)
    qed (rule charAt_small [OF texts])
    with True c texts slots show ?thesis by (simp add: columnStored_def sampleColumn_def)
  next
    case False
    with c ints show ?thesis by (simp add: columnStored_def chunk cellOf_def sampleColumn_def)
  qed
qed

lemma sample_table_stored:
  assumes "\<forall>cs\<in>set (ts_columns t). sampleColumn table cs"
  shows "joinStored plainFhe pairProto1 table t sampleMetas (sampleRow table)"
proof -
  have "p1_listChunks pairProto1 table c = Inr sampleMetas" for c by (simp add: pairProto1_def)
  moreover have "chunkOf pairProto1 table k c = Some ch \<Longrightarrow> ch_logicalRowCount ch = 1" for k c ch
    by (auto simp: chunkOf_def pairProto1_def)
  ultimately show ?thesis using assms pair_stored by (auto simp: joinStored_def sampleMetas_def)
qed

section \<open>A sample query\<close>

definition pairSQL :: string where
  "pairSQL = ''SELECT e.id, d.id FROM employees e JOIN departments d ON e.department_id = d.id WHERE e.age > 30''"

definition pairStmt :: SelectStatement where
  "pairStmt = \<lparr>st_projections = [''e.id'', ''d.id''], st_tableName = ''employees'', st_tableAlias = ''e'',
     st_joins = [\<lparr>jc_rightTable = \<lparr>tr_tableName = ''departments'', tr_alias = ''d''\<rparr>,
       jc_condition = Comparison Equal (ColumnRef ''e.department_id'') (ColumnRef ''d.id'')\<rparr>],
     st_whereClause = Some (Comparison GreaterThan (ColumnRef ''e.age'') (IntLiteral 30)),
     st_orderByColumns = [], st_limitCount = - 1\<rparr>"

definition pairPlan :: PhysicalPlan where
  "pairPlan = \<lparr>pp_tableName = ''employees'', pp_tableAlias = ''e'', pp_joinedTableName = ''departments'',
     pp_joinedTableAlias = ''d'', pp_joinLeftColumn = ''e.department_id'', pp_joinRightColumn = ''d.id'', pp_hasJoin = True,
     pp_scanColumns = [''age'', ''id''], pp_projectColumns = [''e.id'', ''d.id''], pp_hasFilter = True\<rparr>"

lemma pair_parsed: "parse pairSQL = Inr pairStmt"
  by code_simp

lemma pair_accepted: "analyze makeEmployeesCatalog pairStmt = Inr employeesSchema"
  by code_simp

lemma pair_planned: "planStatement pairStmt employeesSchema = Inr pairPlan"
  by code_simp

lemma pair_prepared:
  "\<exists>pkg. preparePackage plainFhe makeEmployeesCatalog (sampleWorld c) pairStmt employeesSchema = Inr (pairPlan, pkg)
     \<and> fitsIndices pkg"
proof -
  have "case preparePackage plainFhe makeEmployeesCatalog (sampleWorld c) pairStmt employeesSchema of
      Inl _ \<Rightarrow> False
    | Inr (plan, pkg) \<Rightarrow> plan = pairPlan \<and> length (pk_predicateNodes pkg) < 10 \<and> length (pk_encryptedLiterals pkg) < 10"
    by (simp only: sampleWorld_def) code_simp
  then show ?thesis
    by (cases "preparePackage plainFhe makeEmployeesCatalog (sampleWorld c) pairStmt employeesSchema")
      (auto simp: fitsIndices_def)
qed

lemma pair_rows: "map (\<lambda>r. (rr_values r ''e.id'', rr_values r ''d.id''))
   (joinRows pairStmt employeesSchema departmentsSchema [''e.id'', ''d.id''] (map (sampleRow ''employees'') [0, 1])
     (map (sampleRow ''departments'') [0, 1])) = [(Some 1, Some 2)]"
  by code_simp

text \<open>The same query without its clause, over a catalog of the columns it uses.\<close>

definition smallEmployees :: TableSchema where
  "smallEmployees = \<lparr>ts_tableId = ''employees'', ts_columns =
     [\<lparr>cs_name = ''id'', cs_type = INT64, cs_maxLength = 0\<rparr>,
      \<lparr>cs_name = ''department_id'', cs_type = INT64, cs_maxLength = 0\<rparr>]\<rparr>"

definition smallDepartments :: TableSchema where
  "smallDepartments = \<lparr>ts_tableId = ''departments'', ts_columns =
     [\<lparr>cs_name = ''id'', cs_type = INT64, cs_maxLength = 0\<rparr>]\<rparr>"

definition smallCatalog :: Catalog where
  "smallCatalog = registerTable smallDepartments (registerTable smallEmployees emptyCatalog)"

definition crossSQL :: string where
  "crossSQL = ''SELECT e.id, d.id FROM employees e JOIN departments d ON e.department_id = d.id''"

definition crossStmt :: SelectStatement where
  "crossStmt = pairStmt\<lparr>st_whereClause := None\<rparr>"

definition crossPlan :: PhysicalPlan where
  "crossPlan = pairPlan\<lparr>pp_scanColumns := [''id''], pp_hasFilter := False\<rparr>"

definition crossPackage :: QueryPackage where
  "crossPackage = (packageOf crossPlan (clientMeta plainFhe) [\<lparr>cs_name = ''e.id'', cs_type = INT64, cs_maxLength = 0\<rparr>,
     \<lparr>cs_name = ''d.id'', cs_type = INT64, cs_maxLength = 0\<rparr>] startState)\<lparr>pk_queryId := makeQueryId 1 2\<rparr>"

definition crossBatch :: "nat \<Rightarrow> int \<Rightarrow> int \<Rightarrow> int \<Rightarrow> EncryptedResultBatch" where
  "crossBatch i e d m = \<lparr>rb_batchId = of_nat i, rb_logicalRowCount = 1,
     rb_columns = [columnResult plainFhe ''e.id'' \<lparr>cs_name = ''id'', cs_type = INT64, cs_maxLength = 0\<rparr> 0 (replicate 4 e),
       columnResult plainFhe ''d.id'' \<lparr>cs_name = ''id'', cs_type = INT64, cs_maxLength = 0\<rparr> 0 (replicate 4 d)],
     rb_selectionMaskBytes = fhe_serialize plainFhe (replicate 4 m), rb_hasMask = True\<rparr>"

definition crossBatches :: "EncryptedResultBatch list" where
  "crossBatches = [crossBatch 0 1 1 0, crossBatch 1 1 2 1, crossBatch 2 2 1 1, crossBatch 3 2 2 0]"

lemma cross_parsed: "parse crossSQL = Inr crossStmt"
  by code_simp

lemma cross_accepted: "analyze smallCatalog crossStmt = Inr smallEmployees"
  by code_simp

lemma cross_prepared:
  "preparePackage plainFhe smallCatalog (sampleWorld c) crossStmt smallEmployees = Inr (crossPlan, crossPackage)"
  by (simp only: sampleWorld_def) code_simp

lemma cross_handled:
  "handler plainFhe pairProto1 smallCatalog (fhe_paramSetId plainFhe) crossPackage = Some (Inr crossBatches)"
  by code_simp

lemma cross_fits: "fitsFrames unaryArchive crossPackage crossBatches"
proof -
  have "length (serializePackage unaryArchive crossPackage) \<le> 10000"
    "length (serializeResponse unaryArchive (okResponse crossPackage crossBatches)) \<le> 10000"
    "list_all (\<lambda>b. length (serializeBatch unaryArchive b) \<le> 10000) crossBatches"
    by code_simp+
  moreover have "sizedPackage crossPackage"
    by (simp add: sizedPackage_def crossPackage_def packageOf_def crossPlan_def pairPlan_def clientMeta_def plainFhe_def
        makeQueryId_def startState_def sized_def hex8_length sizedColumn_def)
  moreover have bytes: "length (fhe_serialize plainFhe (replicate 4 v)) < 2 ^ 64" if "v \<in> {0, 1, 2}" for v
  proof -
    have "length (fhe_serialize plainFhe (replicate 4 0)) \<le> 1000" "length (fhe_serialize plainFhe (replicate 4 1)) \<le> 1000"
      "length (fhe_serialize plainFhe (replicate 4 2)) \<le> 1000" by code_simp+
    with that show ?thesis by auto
  qed
  have "sizedBatch (crossBatch i e d m)" if "e \<in> {0, 1, 2}" "d \<in> {0, 1, 2}" "m \<in> {0, 1, 2}" for i e d m
    using that bytes [of e] bytes [of d] bytes [of m]
    by (simp add: sizedBatch_def crossBatch_def columnResult_def sized_def int64_def INT64_MAX_def)
  ultimately show ?thesis by (auto simp: fitsFrames_def crossBatches_def)
qed

lemma pair_joinOf: "joinOf pairStmt ''departments'' ''d'' ''department_id'' ''id''"
  by (simp add: joinOf_def pairStmt_def atAlias_def hasDot_iff)

lemma pair_answerable:
  "joinAnswerable plainFhe pairProto1 makeEmployeesCatalog 12 plainSem pairStmt employeesSchema departmentsSchema
     ''departments'' ''d'' ''department_id'' ''id'' sampleMetas (sampleRow ''employees'') sampleMetas (sampleRow ''departments'')"
proof -
  have "case st_whereClause pairStmt of None \<Rightarrow> True
      | Some e \<Rightarrow> pairClause employeesSchema departmentsSchema (st_tableAlias pairStmt) ''d'' e
          \<and> Suc (max 8 (whereDepth employeesSchema e)) \<le> 12 \<and> (\<forall>n\<in>exprColumns e. hasColumn employeesSchema (bareName n))"
    "\<forall>n\<in>set (st_projections pairStmt) \<union> ob_columnName ` set (st_orderByColumns pairStmt).
       pairColumn employeesSchema departmentsSchema (st_tableAlias pairStmt) ''d'' n"
    "distinct (st_projections pairStmt)" "intColumn employeesSchema ''department_id''" "intColumn departmentsSchema ''id''"
    by code_simp+
  moreover have "cat_tables makeEmployeesCatalog (st_tableName pairStmt) = Some employeesSchema"
    "cat_tables makeEmployeesCatalog ''departments'' = Some departmentsSchema" "st_tableName pairStmt = ''employees''"
    by (simp_all add: pairStmt_def makeEmployeesCatalog_def registerTable_def departmentsSchema_def employeesSchema_def)
  moreover have "\<forall>cs\<in>set (ts_columns employeesSchema). sampleColumn ''employees'' cs"
    "\<forall>cs\<in>set (ts_columns departmentsSchema). sampleColumn ''departments'' cs" by code_simp+
  then have "joinStored plainFhe pairProto1 ''employees'' employeesSchema sampleMetas (sampleRow ''employees'')"
    "joinStored plainFhe pairProto1 ''departments'' departmentsSchema sampleMetas (sampleRow ''departments'')"
    using sample_table_stored by blast+
  moreover have "sampleMetas \<noteq> []" "1 \<le> fhe_slotCount plainFhe" "(8 :: nat) \<le> 12"
    by (simp_all add: sampleMetas_def plainFhe_def)
  ultimately show ?thesis
    unfolding joinAnswerable_def
    using makeEmployeesCatalog_wf plainFhe_laws pair_expressions pair_mult pair_joinOf by (intro conjI) simp_all
qed

lemma small_wf: "wfCatalog smallCatalog"
proof -
  have "wfSchema smallEmployees" "wfSchema smallDepartments"
    by (simp_all add: wfSchema_def smallEmployees_def smallDepartments_def hasDot_iff)
  then show ?thesis
    unfolding smallCatalog_def
    by (intro registerTable_wf) (simp_all add: wfCatalog_def emptyCatalog_def)
qed

lemma cross_answerable:
  "joinAnswerable plainFhe pairProto1 smallCatalog 12 plainSem crossStmt smallEmployees smallDepartments
     ''departments'' ''d'' ''department_id'' ''id'' sampleMetas (sampleRow ''employees'') sampleMetas (sampleRow ''departments'')"
proof -
  have "st_whereClause crossStmt = None" by (simp add: crossStmt_def)
  moreover have "\<forall>n\<in>set (st_projections crossStmt) \<union> ob_columnName ` set (st_orderByColumns crossStmt).
       pairColumn smallEmployees smallDepartments (st_tableAlias crossStmt) ''d'' n"
    "distinct (st_projections crossStmt)" "intColumn smallEmployees ''department_id''" "intColumn smallDepartments ''id''"
    by code_simp+
  moreover have "cat_tables smallCatalog (st_tableName crossStmt) = Some smallEmployees"
    "cat_tables smallCatalog ''departments'' = Some smallDepartments" "st_tableName crossStmt = ''employees''"
    by (simp_all add: crossStmt_def pairStmt_def smallCatalog_def smallEmployees_def registerTable_def smallDepartments_def)
  moreover have "\<forall>cs\<in>set (ts_columns smallEmployees). sampleColumn ''employees'' cs"
    "\<forall>cs\<in>set (ts_columns smallDepartments). sampleColumn ''departments'' cs" by code_simp+
  then have "joinStored plainFhe pairProto1 ''employees'' smallEmployees sampleMetas (sampleRow ''employees'')"
    "joinStored plainFhe pairProto1 ''departments'' smallDepartments sampleMetas (sampleRow ''departments'')"
    using sample_table_stored by blast+
  moreover have "sampleMetas \<noteq> []" "1 \<le> fhe_slotCount plainFhe" "(8 :: nat) \<le> 12"
    by (simp_all add: sampleMetas_def plainFhe_def)
  moreover have "joinOf crossStmt ''departments'' ''d'' ''department_id'' ''id''"
    using pair_joinOf by (simp add: joinOf_def crossStmt_def)
  ultimately show ?thesis
    unfolding joinAnswerable_def
    using small_wf plainFhe_laws pair_expressions pair_mult by (intro conjI) simp_all
qed

section \<open>Properties\<close>

text \<open>C4: the server answers a JOIN with exactly the pairs that match.  For a
  statement with one equality join of two tables stored one row per chunk, whose columns exist and
  whose clause is over qualified integer columns (each named like one of the FROM table), in range
  and within the depth of the parameters: the handler validates and executes the client's package,
  answers one batch per pair, and the batches decrypt to the pairs that satisfy ON and WHERE, with
  the selected columns and those of ORDER BY, in nested-loop order.\<close>

theorem join_answer_correct:
  assumes "joinAnswerable F P cat depth S s t u rt ar x y lms L rms R"
    and "preparePackage F cat w s t = Inr (plan, pkg)" "fitsIndices pkg"
  shows "\<exists>rs. handler F P cat (fhe_paramSetId F) pkg = Some (Inr rs) \<and> length rs = length lms * length rms
     \<and> decodeBatches F rs = Inr (joinRows s t u (pp_projectColumns plan) (map (L \<circ> cm_chunkId) lms) (map (R \<circ> cm_chunkId) rms))"
  using assms by (rule join_answered)

theorem join_answer_correct_witness:
  "\<exists>pkg rs rows. preparePackage plainFhe makeEmployeesCatalog (sampleWorld NotConnected) pairStmt employeesSchema = Inr (pairPlan, pkg)
     \<and> handler plainFhe pairProto1 makeEmployeesCatalog ''bfv-257-depth12'' pkg = Some (Inr rs) \<and> length rs = 4
     \<and> decodeBatches plainFhe rs = Inr rows
     \<and> map (\<lambda>r. (rr_values r ''e.id'', rr_values r ''d.id'')) rows = [(Some 1, Some 2)]"
proof -
  obtain pkg where p: "preparePackage plainFhe makeEmployeesCatalog (sampleWorld NotConnected) pairStmt employeesSchema = Inr (pairPlan, pkg)"
    "fitsIndices pkg" using pair_prepared by blast
  have "pp_projectColumns pairPlan = [''e.id'', ''d.id'']" "fhe_paramSetId plainFhe = ''bfv-257-depth12''"
    "map (sampleRow table \<circ> cm_chunkId) sampleMetas = map (sampleRow table) [0, 1]" "length sampleMetas = 2" for table
    by (simp_all add: pairPlan_def plainFhe_def sampleMetas_def)
  with join_answer_correct [OF pair_answerable p] p(1) pair_rows show ?thesis by auto
qed

text \<open>C5: the whole path of a JOIN.  When the client's connection and a run of the
  server's \<open>handleClient\<close> with that handler are wired to each other, \<open>executeQuery\<close> returns and has
  printed, after its report, the table of the matching pairs, sorted and cut as ORDER BY and LIMIT
  say, in the columns of the SELECT list.\<close>

theorem join_end_to_end:
  assumes query: "parse sql = Inr s" "analyze cat s = Inr t"
      "joinAnswerable F P cat depth S s t u rt ja x y lms L rms R"
    and prep: "preparePackage F cat w s t = Inr (plan, pkg)" "fitsIndices pkg"
    and frames: "archive_laws ar" "\<And>rs. handler F P cat (fhe_paramSetId F) pkg = Some (Inr rs) \<Longrightarrow> fitsFrames ar pkg rs"
    and client: "qw_connect w = Opened cs" "patient cs" "so_out cs = []"
    and server: "handleClient ar std (handler F P cat (fhe_paramSetId F)) ss = Some ss'" "patient ss" "so_out ss = []"
    and wires: "so_in ss = request ar pkg" "so_in cs = so_out ss'"
  shows "\<exists>m cs'. executeQuery ar std' F cat ep w sql c =
     (Inr (), printMetrics m (printResult (displayColumns s plan)
        (applySortAndLimit (joinRows s t u (pp_projectColumns plan) (map (L \<circ> cm_chunkId) lms) (map (R \<circ> cm_chunkId) rms))
           (st_orderByColumns s) (st_limitCount s))
        (put nl (reportQuery ar plan pkg c))), Some cs') \<and> so_out cs' = so_in ss"
proof -
  obtain rs where rs: "handler F P cat (fhe_paramSetId F) pkg = Some (Inr rs)"
    "decodeBatches F rs = Inr (joinRows s t u (pp_projectColumns plan) (map (L \<circ> cm_chunkId) lms) (map (R \<circ> cm_chunkId) rms))"
    using join_answered [OF query(3) prep] by blast
  show ?thesis
    by (rule wired_query [OF query(1,2) prep(1) rs frames(1) frames(2) [OF rs(1)] client server wires])
qed

theorem join_end_to_end_witness:
  "\<exists>w m cs'. executeQuery unaryArchive (\<lambda>_. []) plainFhe smallCatalog \<lparr>ep_host = ''h'', ep_port = 1\<rparr> w crossSQL emptyConsole =
     (Inr (), printMetrics m (printResult [''e.id'', ''d.id'']
        (applySortAndLimit (joinRows crossStmt smallEmployees smallDepartments [''e.id'', ''d.id'']
           (map (sampleRow ''employees'') [0, 1]) (map (sampleRow ''departments'') [0, 1])) [] (- 1))
        (put nl (reportQuery unaryArchive crossPlan crossPackage emptyConsole))), Some cs')"
proof -
  let ?h = "handler plainFhe pairProto1 smallCatalog (fhe_paramSetId plainFhe)"
  have f: "sizedPackage crossPackage" "length (serializePackage unaryArchive crossPackage) < 2 ^ 32"
    using cross_fits by (simp_all add: fitsFrames_def)
  have h: "\<exists>r. ?h crossPackage = Some r" using cross_handled by blast
  obtain cs c' ss ss' r got where wire: "patient cs" "patient ss" "so_out cs = []" "so_out ss = []"
    "sendQuery unaryArchive (Inr cs) crossPackage [] = (r, got, Some c')"
    "handleClient unaryArchive (\<lambda>_. []) ?h ss = Some ss'"
    "so_in ss = request unaryArchive crossPackage" "so_in cs = so_out ss'"
    by (rule wired_runs [where handler = ?h and std = "\<lambda>_. []", OF h f unaryArchive_laws])
  have fits: "fitsIndices crossPackage" by (simp add: fitsIndices_def crossPackage_def packageOf_def startState_def)
  have frames: "fitsFrames unaryArchive crossPackage rs" if "?h crossPackage = Some (Inr rs)" for rs
    using that cross_handled cross_fits by simp
  have names: "displayColumns crossStmt crossPlan = [''e.id'', ''d.id'']" "pp_projectColumns crossPlan = [''e.id'', ''d.id'']"
    "st_orderByColumns crossStmt = []" "st_limitCount crossStmt = - 1"
    "map (sampleRow table \<circ> cm_chunkId) sampleMetas = map (sampleRow table) [0, 1]" for table
    by (simp_all add: displayColumns_def crossStmt_def crossPlan_def pairStmt_def pairPlan_def sampleMetas_def)
  have conn: "qw_connect (sampleWorld (Opened cs)) = Opened cs" by (simp add: sampleWorld_def)
  from join_end_to_end [OF cross_parsed cross_accepted cross_answerable cross_prepared fits unaryArchive_laws frames conn
      wire(1,3,6,2,4,7,8), where std' = "\<lambda>_. []" and ep = "\<lparr>ep_host = ''h'', ep_port = 1\<rparr>" and c = emptyConsole]
  show ?thesis unfolding names by metis
qed

end
