(* ===== verification/Hega_Blind.thy ===== *)
theory Hega_Blind
  imports Hega_Client
begin

text \<open>
  The trust boundary (\<open>include/proto2/crypto_context.h\<close>: the server "owns only public/eval keys,
  can only compute").  Two servers run side by side on two requests, over two schemes and two
  libraries.  If the libraries keep a relation between the ciphertexts of the two runs, so does
  everything the server does: the two answers have the same shape, or the same exception.  One
  interpretation of this interface compares a server with itself under another decryption, another
  one compares two runs whose ciphertexts have nothing in common but their size.
\<close>

section \<open>Relations\<close>

named_theorems rel_rules \<open>compositions of related results\<close>

abbreviation resRel :: "('a \<Rightarrow> 'b \<Rightarrow> bool) \<Rightarrow> 'a result \<Rightarrow> 'b result \<Rightarrow> bool" where
  "resRel R \<equiv> rel_sum (=) R"

definition chunkRel :: "('ct \<Rightarrow> 'cu \<Rightarrow> bool) \<Rightarrow> 'ct Chunk \<Rightarrow> 'cu Chunk \<Rightarrow> bool" where
  "chunkRel C a b \<longleftrightarrow> ch_logicalRowCount a = ch_logicalRowCount b
     \<and> list_all2 C (ch_ciphertexts a) (ch_ciphertexts b)"

definition batchRel :: "('ct \<Rightarrow> 'cu \<Rightarrow> bool) \<Rightarrow> 'ct EncBatch \<Rightarrow> 'cu EncBatch \<Rightarrow> bool" where
  "batchRel C a b \<longleftrightarrow> eb_logicalRowCount a = eb_logicalRowCount b
     \<and> (\<forall>c. rel_option (chunkRel C) (eb_columns a c) (eb_columns b c))
     \<and> rel_option C (eb_selectionMask a) (eb_selectionMask b)"

definition literalRel ::
  "'ct Fhe \<Rightarrow> 'cu Fhe \<Rightarrow> ('ct \<Rightarrow> 'cu \<Rightarrow> bool) \<Rightarrow> EncryptedLiteralEntry \<Rightarrow> EncryptedLiteralEntry \<Rightarrow> bool" where
  "literalRel F G C l m \<longleftrightarrow> el_id l = el_id m \<and> el_logicalType l = el_logicalType m
     \<and> (el_ciphertextBytes l = [] \<longleftrightarrow> el_ciphertextBytes m = [])
     \<and> resRel C (fhe_deserializeWithSize F (el_ciphertextBytes l) (unat (el_logicalSize l)))
               (fhe_deserializeWithSize G (el_ciphertextBytes m) (unat (el_logicalSize m)))"

definition packageRel ::
  "'ct Fhe \<Rightarrow> 'cu Fhe \<Rightarrow> ('ct \<Rightarrow> 'cu \<Rightarrow> bool) \<Rightarrow> QueryPackage \<Rightarrow> QueryPackage \<Rightarrow> bool" where
  "packageRel F G C p q \<longleftrightarrow> p\<lparr>pk_encryptedLiterals := []\<rparr> = q\<lparr>pk_encryptedLiterals := []\<rparr>
     \<and> list_all2 (literalRel F G C) (pk_encryptedLiterals p) (pk_encryptedLiterals q)"

definition bytesRel :: "'ct Fhe \<Rightarrow> 'cu Fhe \<Rightarrow> ('ct \<Rightarrow> 'cu \<Rightarrow> bool) \<Rightarrow> byte list \<Rightarrow> byte list \<Rightarrow> bool" where
  "bytesRel F G C x y \<longleftrightarrow> (\<exists>a b. C a b \<and> x = fhe_serialize F a \<and> y = fhe_serialize G b)"

definition columnRel ::
  "'ct Fhe \<Rightarrow> 'cu Fhe \<Rightarrow> ('ct \<Rightarrow> 'cu \<Rightarrow> bool) \<Rightarrow> EncryptedColumnResult \<Rightarrow> EncryptedColumnResult \<Rightarrow> bool" where
  "columnRel F G C a b \<longleftrightarrow> cr_columnName a = cr_columnName b \<and> cr_logicalType a = cr_logicalType b
     \<and> cr_stringPosition a = cr_stringPosition b \<and> cr_logicalSize a = cr_logicalSize b
     \<and> bytesRel F G C (cr_ciphertextBytes a) (cr_ciphertextBytes b)"

definition answerRel ::
  "'ct Fhe \<Rightarrow> 'cu Fhe \<Rightarrow> ('ct \<Rightarrow> 'cu \<Rightarrow> bool) \<Rightarrow> EncryptedResultBatch \<Rightarrow> EncryptedResultBatch \<Rightarrow> bool" where
  "answerRel F G C a b \<longleftrightarrow> rb_batchId a = rb_batchId b \<and> rb_logicalRowCount a = rb_logicalRowCount b
     \<and> list_all2 (columnRel F G C) (rb_columns a) (rb_columns b)
     \<and> rb_hasMask a = rb_hasMask b
     \<and> (if rb_hasMask a then bytesRel F G C (rb_selectionMaskBytes a) (rb_selectionMaskBytes b)
        else rb_selectionMaskBytes a = [] \<and> rb_selectionMaskBytes b = [])"

lemma bind_rel [rel_rules]:
  assumes "resRel R m n" "\<And>x y. R x y \<Longrightarrow> resRel S (f x) (g y)"
  shows "resRel S (bindE m f) (bindE n g)"
  using assms by (cases m; cases n) auto

lemma mapE_rel:
  assumes "list_all2 A xs ys" "\<And>x y. A x y \<Longrightarrow> resRel R (f x) (g y)"
  shows "resRel (list_all2 R) (mapE f xs) (mapE g ys)"
  using assms(1)
proof induction
  case (Cons x xs y ys)
  show ?case
    unfolding mapE.simps
    by (rule bind_rel [OF assms(2) [OF Cons.hyps(1)]], rule bind_rel [OF Cons.IH]) simp
qed simp

lemma mapE_same [rel_rules]:
  "(\<And>x. x \<in> set xs \<Longrightarrow> resRel R (f x) (g x)) \<Longrightarrow> resRel (list_all2 R) (mapE f xs) (mapE g xs)"
  by (rule mapE_rel [of "\<lambda>x y. x = y \<and> x \<in> set xs"]) (auto simp: list_all2_same)

lemma foldE_rel:
  assumes "list_all2 A xs ys" "R s t" "\<And>x y s t. A x y \<Longrightarrow> R s t \<Longrightarrow> resRel R (f x s) (g y t)"
  shows "resRel R (foldE f xs s) (foldE g ys t)"
  using assms(1,2)
proof (induction arbitrary: s t)
  case (Cons x xs y ys)
  then show ?case by (auto intro!: bind_rel [OF assms(3)])
qed simp

lemma foldE_same:
  assumes "R s t" "\<And>x s t. R s t \<Longrightarrow> resRel R (f x s) (g x t)"
  shows "resRel R (foldE f xs s) (foldE g xs t)"
  by (rule foldE_rel [of "(=)"]) (use assms in \<open>auto simp: list_all2_same\<close>)

lemma bind_same [rel_rules]:
  "(\<And>x. m = Inr x \<Longrightarrow> resRel S (f x) (g x)) \<Longrightarrow> resRel S (bindE m f) (bindE m g)"
  by (cases m) auto

lemma package_fields:
  assumes "packageRel F G C p q"
  shows "pk_tableName q = pk_tableName p" "pk_tableAlias q = pk_tableAlias p"
    "pk_joinedTableName q = pk_joinedTableName p" "pk_joinedTableAlias q = pk_joinedTableAlias p"
    "pk_joinLeftColumn q = pk_joinLeftColumn p" "pk_joinRightColumn q = pk_joinRightColumn p"
    "pk_hasJoin q = pk_hasJoin p" "pk_scanColumns q = pk_scanColumns p"
    "pk_projectColumns q = pk_projectColumns p" "pk_predicateNodes q = pk_predicateNodes p"
    "pk_protocolVersion q = pk_protocolVersion p" "pk_fheParams q = pk_fheParams p"
  using assms by (cases p; cases q; simp add: packageRel_def)+

lemma bytesRelI: "C a b \<Longrightarrow> bytesRel F G C (fhe_serialize F a) (fhe_serialize G b)"
  by (auto simp: bytesRel_def)

section \<open>Validation\<close>

lemma literals_ex:
  assumes "packageRel F G C p q"
    "\<And>l m. literalRel F G C l m \<Longrightarrow> Q l = R m"
  shows "list_ex Q (pk_encryptedLiterals p) = list_ex R (pk_encryptedLiterals q)"
proof -
  from assms(1) have "list_all2 (literalRel F G C) (pk_encryptedLiterals p) (pk_encryptedLiterals q)"
    by (simp add: packageRel_def)
  then show ?thesis by induction (auto simp: assms(2))
qed

lemma target_same: "packageRel F G C p q \<Longrightarrow> targetTable cat q = targetTable cat p"
  by (intro ext) (simp add: targetTable_def package_fields)

lemma checkColumn_same: "packageRel F G C p q \<Longrightarrow> checkColumn cat q = checkColumn cat p"
  by (intro ext) (simp add: checkColumn_def target_same)

lemma checkLeaf_same:
  assumes "packageRel F G C p q"
  shows "checkLeaf cat q schema node = checkLeaf cat p schema node"
proof -
  have "checkStringPredicate q schema node = checkStringPredicate p schema node"
    using literals_ex [OF assms, of "\<lambda>l. el_id l = i \<and> el_logicalType l = ''STRING_CHAR'' \<and> el_ciphertextBytes l \<noteq> []"
        "\<lambda>l. el_id l = i \<and> el_logicalType l = ''STRING_CHAR'' \<and> el_ciphertextBytes l \<noteq> []" for i]
    by (simp add: checkStringPredicate_def literalRel_def)
  moreover have "list_ex (\<lambda>l. el_id l = i) (pk_encryptedLiterals q) = list_ex (\<lambda>l. el_id l = i) (pk_encryptedLiterals p)" for i
    by (rule literals_ex [OF assms, symmetric]) (simp add: literalRel_def)
  ultimately show ?thesis by (simp add: checkLeaf_def checkColumn_same [OF assms])
qed

text \<open>A walk that returns on one package returns the same on the other.\<close>

lemma walk_same:
  assumes r: "validatePredTree cat p schema i = Some r"
  shows "pk_predicateNodes q = pk_predicateNodes p \<longrightarrow>
    (\<forall>node. checkLeaf cat q schema node = checkLeaf cat p schema node) \<longrightarrow> validatePredTree cat q schema i = Some r"
proof (rule validatePredTree.raw_induct [OF _ r], intro impI)
  fix walk :: "Catalog \<Rightarrow> QueryPackage \<Rightarrow> TableSchema \<Rightarrow> u32 \<Rightarrow> unit result option"
  fix cat schema r and i :: u32 and p :: QueryPackage
  let ?n = "pk_predicateNodes p ! unat i"
  assume IH: "\<And>cat p schema i r. walk cat p schema i = Some r \<Longrightarrow> pk_predicateNodes q = pk_predicateNodes p \<longrightarrow>
      (\<forall>node. checkLeaf cat q schema node = checkLeaf cat p schema node) \<longrightarrow> validatePredTree cat q schema i = Some r"
    and b: "(if length (pk_predicateNodes p) \<le> unat i
      then Some (Inl (validationError ''Predicate node index out of range: '' (show_nat (unat i))))
      else let node = ?n in
        if leafKind (pn_kind node) then Some (checkLeaf cat p schema node)
        else if pn_kind node = PNot then
          (if pn_left node = UINT32_MAX
           then Some (Inl (ValidationError ''NOT predicate node missing child''))
           else walk cat p schema (pn_left node))
        else if pn_left node = UINT32_MAX \<or> pn_right node = UINT32_MAX
          then Some (Inl (ValidationError
                 (if pn_kind node = PAnd \<or> pn_kind node = POr
                  then ''Boolean predicate node missing children''
                  else ''Binary predicate node missing children'')))
        else Option.bind (walk cat p schema (pn_left node)) (\<lambda>r.
               if isOk r then walk cat p schema (pn_right node) else Some r)) = Some r"
    and q: "pk_predicateNodes q = pk_predicateNodes p" "\<forall>node. checkLeaf cat q schema node = checkLeaf cat p schema node"
  have ih: "walk cat p schema c = Some r \<Longrightarrow> validatePredTree cat q schema c = Some r" for c r
    using IH q by blast
  show "validatePredTree cat q schema i = Some r"
  proof -
    consider "length (pk_predicateNodes p) \<le> unat i"
      | "unat i < length (pk_predicateNodes p)" "leafKind (pn_kind ?n)"
      | "unat i < length (pk_predicateNodes p)" "\<not> leafKind (pn_kind ?n)" "pn_kind ?n = PNot"
      | "unat i < length (pk_predicateNodes p)" "\<not> leafKind (pn_kind ?n)" "pn_kind ?n \<noteq> PNot" by linarith
    then show ?thesis
    proof cases
      case 3
      with b q show ?thesis
        by (cases "pn_left ?n = UINT32_MAX") (simp_all add: validatePredTree.simps [of cat q schema i] ih)
    next
      case 4
      show ?thesis
      proof (cases "pn_left ?n = UINT32_MAX \<or> pn_right ?n = UINT32_MAX")
        case True
        with 4 b q show ?thesis by (simp add: validatePredTree.simps [of cat q schema i] Let_def)
      next
        case False
        with 4 b obtain l where l: "walk cat p schema (pn_left ?n) = Some l"
          "(if isOk l then walk cat p schema (pn_right ?n) else Some l) = Some r"
          by (auto simp: Let_def bind_eq_Some_conv)
        with 4 False q ih [OF l(1)] show ?thesis
          by (cases "isOk l") (simp_all add: validatePredTree.simps [of cat q schema i] Let_def ih)
      qed
    qed (use b q in \<open>simp_all add: validatePredTree.simps [of cat q schema i]\<close>)
  qed
qed

lemma option_eqI: "(\<And>r. a = Some r \<Longrightarrow> b = Some r) \<Longrightarrow> (\<And>r. b = Some r \<Longrightarrow> a = Some r) \<Longrightarrow> a = b"
  by (cases a; cases b) auto

lemma validate_same:
  assumes "packageRel F G C p q"
  shows "validate cat sid q = validate cat sid p"
proof -
  have "forE (\<lambda>l. throwIf (el_ciphertextBytes l = []) (emptyCiphertextError (el_id l))) (pk_encryptedLiterals q) =
      forE (\<lambda>l. throwIf (el_ciphertextBytes l = []) (emptyCiphertextError (el_id l))) (pk_encryptedLiterals p)"
  proof -
    from assms have "list_all2 (literalRel F G C) (pk_encryptedLiterals p) (pk_encryptedLiterals q)"
      by (simp add: packageRel_def)
    then show ?thesis by induction (auto simp: literalRel_def)
  qed
  then have "checkHeader cat sid q = checkHeader cat sid p"
    by (simp add: checkHeader_def package_fields [OF assms] checkColumn_same [OF assms])
  moreover have "validatePredTree cat q schema i = validatePredTree cat p schema i" for schema i
  proof (rule option_eqI)
    fix r
    note c = checkLeaf_same [OF assms] and n = package_fields(10) [OF assms]
    show "validatePredTree cat q schema i = Some r \<Longrightarrow> validatePredTree cat p schema i = Some r"
      using walk_same [of cat q schema i r p] c n by simp
    show "validatePredTree cat p schema i = Some r \<Longrightarrow> validatePredTree cat q schema i = Some r"
      using walk_same [of cat p schema i r q] c n by simp
  qed
  ultimately show ?thesis by (simp add: validate_def package_fields [OF assms] split: sum.split)
qed

section \<open>Expressions\<close>

lemma literal_load:
  assumes "packageRel F G C p q"
  shows "resRel C (loadLiteral F p e i) (loadLiteral G q e i)"
proof -
  from assms have "list_all2 (literalRel F G C) (pk_encryptedLiterals p) (pk_encryptedLiterals q)"
    by (simp add: packageRel_def)
  then have "rel_option (literalRel F G C) (find (\<lambda>l. el_id l = i) (pk_encryptedLiterals p))
      (find (\<lambda>l. el_id l = i) (pk_encryptedLiterals q))"
    by induction (auto simp: literalRel_def)
  then show ?thesis
    by (cases "find (\<lambda>l. el_id l = i) (pk_encryptedLiterals p)";
        cases "find (\<lambda>l. el_id l = i) (pk_encryptedLiterals q)") (auto simp: loadLiteral_def literalRel_def)
qed

lemma build_one:
  fixes F :: "'ct Fhe" and P :: "('ct, 'e, 'op) Proto1" and G :: "'cu Fhe" and L :: "('cu, 'f, 'oq) Proto1"
  assumes r: "buildExpression F P p i = Some r"
  shows "pk_predicateNodes q = pk_predicateNodes p \<longrightarrow>
    (\<forall>node. resRel E (buildLeaf F P p node) (buildLeaf G L q node)) \<longrightarrow>
    (\<forall>x y. E x y \<longrightarrow> E (p1_notExpr P x) (p1_notExpr L y)) \<longrightarrow>
    (\<forall>k x y u v. E x y \<longrightarrow> E u v \<longrightarrow> E (binaryExpr P k x u) (binaryExpr L k y v)) \<longrightarrow>
    (\<exists>s. buildExpression G L q i = Some s \<and> resRel E r s)"
proof (rule buildExpression.raw_induct [where Pa = "\<lambda>(((F, P), p), i) r. pk_predicateNodes q = pk_predicateNodes p \<longrightarrow>
    (\<forall>node. resRel E (buildLeaf F P p node) (buildLeaf G L q node)) \<longrightarrow>
    (\<forall>x y. E x y \<longrightarrow> E (p1_notExpr P x) (p1_notExpr L y)) \<longrightarrow>
    (\<forall>k x y u v. E x y \<longrightarrow> E u v \<longrightarrow> E (binaryExpr P k x u) (binaryExpr L k y v)) \<longrightarrow>
    (\<exists>s. buildExpression G L q i = Some s \<and> resRel E r s)", OF _ r, unfolded prod.case], intro impI)
  fix build :: "'ct Fhe \<Rightarrow> ('ct, 'e, 'op) Proto1 \<Rightarrow> QueryPackage \<Rightarrow> u32 \<Rightarrow> 'e result option"
  fix F :: "'ct Fhe" and P :: "('ct, 'e, 'op) Proto1" and p :: QueryPackage and r and i :: u32
  let ?n = "pk_predicateNodes p ! unat i"
  assume IH: "\<And>F P p i r. build F P p i = Some r \<Longrightarrow> pk_predicateNodes q = pk_predicateNodes p \<longrightarrow>
      (\<forall>node. resRel E (buildLeaf F P p node) (buildLeaf G L q node)) \<longrightarrow>
      (\<forall>x y. E x y \<longrightarrow> E (p1_notExpr P x) (p1_notExpr L y)) \<longrightarrow>
      (\<forall>k x y u v. E x y \<longrightarrow> E u v \<longrightarrow> E (binaryExpr P k x u) (binaryExpr L k y v)) \<longrightarrow>
      (\<exists>s. buildExpression G L q i = Some s \<and> resRel E r s)"
    and b: "(if length (pk_predicateNodes p) \<le> unat i
      then Some (Inl (RuntimeError ''buildExpression: node index out of range''))
      else let node = ?n in
        if leafKind (pn_kind node) then Some (buildLeaf F P p node)
        else if pn_kind node = PNot then
          Option.bind (build F P p (pn_left node)) (\<lambda>l.
            Some (bindE l (\<lambda>l. Inr (p1_notExpr P l))))
        else Option.bind (build F P p (pn_left node)) (\<lambda>l.
          if isOk l
          then Option.bind (build F P p (pn_right node)) (\<lambda>r.
                 Some (bindE l (\<lambda>l. bindE r (\<lambda>r. Inr (binaryExpr P (pn_kind node) l r)))))
          else Some l)) = Some r"
    and n: "pk_predicateNodes q = pk_predicateNodes p"
    and leaf: "\<forall>node. resRel E (buildLeaf F P p node) (buildLeaf G L q node)"
    and neg: "\<forall>x y. E x y \<longrightarrow> E (p1_notExpr P x) (p1_notExpr L y)"
    and bin: "\<forall>k x y u v. E x y \<longrightarrow> E u v \<longrightarrow> E (binaryExpr P k x u) (binaryExpr L k y v)"
  note unfold = buildExpression.simps [of G L q i]
  have ih: "\<exists>s. buildExpression G L q c = Some s \<and> resRel E l s" if "build F P p c = Some l" for c l
    using IH [OF that] n leaf neg bin by blast
  consider "length (pk_predicateNodes p) \<le> unat i"
    | "unat i < length (pk_predicateNodes p)" "leafKind (pn_kind ?n)"
    | "unat i < length (pk_predicateNodes p)" "\<not> leafKind (pn_kind ?n)" "pn_kind ?n = PNot"
    | "unat i < length (pk_predicateNodes p)" "\<not> leafKind (pn_kind ?n)" "pn_kind ?n \<noteq> PNot" by linarith
  then show "\<exists>s. buildExpression G L q i = Some s \<and> resRel E r s"
  proof cases
    case 1
    with b n show ?thesis by (auto simp: unfold)
  next
    case 2
    with b n leaf show ?thesis by (auto simp: unfold)
  next
    case 3
    with b obtain l where l: "build F P p (pn_left ?n) = Some l" "r = bindE l (\<lambda>l. Inr (p1_notExpr P l))"
      by (auto simp: Let_def bind_eq_Some_conv)
    from ih [OF l(1)] obtain s where s: "buildExpression G L q (pn_left ?n) = Some s" "resRel E l s" by blast
    from s(2) have "resRel E r (bindE s (\<lambda>l. Inr (p1_notExpr L l)))"
      unfolding l(2) by (rule bind_rel) (simp add: neg)
    with 3 n s(1) show ?thesis by (simp add: unfold)
  next
    case 4
    with b obtain l where l: "build F P p (pn_left ?n) = Some l"
      "(if isOk l then Option.bind (build F P p (pn_right ?n)) (\<lambda>r.
          Some (bindE l (\<lambda>l. bindE r (\<lambda>r. Inr (binaryExpr P (pn_kind ?n) l r))))) else Some l) = Some r"
      by (auto simp: Let_def bind_eq_Some_conv)
    from ih [OF l(1)] obtain s where s: "buildExpression G L q (pn_left ?n) = Some s" "resRel E l s" by blast
    show ?thesis
    proof (cases "isOk l")
      case False
      with l(2) s 4 n show ?thesis by (cases s) (auto simp: unfold isOk_def split: sum.splits)
    next
      case True
      with l(2) obtain m where m: "build F P p (pn_right ?n) = Some m"
        "r = bindE l (\<lambda>l. bindE m (\<lambda>r. Inr (binaryExpr P (pn_kind ?n) l r)))"
        by (auto simp: bind_eq_Some_conv)
      from ih [OF m(1)] obtain t where t: "buildExpression G L q (pn_right ?n) = Some t" "resRel E m t" by blast
      have "resRel E r (bindE s (\<lambda>l. bindE t (\<lambda>r. Inr (binaryExpr L (pn_kind ?n) l r))))"
        unfolding m(2) by (intro bind_rel [OF s(2)] bind_rel [OF t(2)]) (simp add: bin)
      moreover have "isOk s" using True s(2) by (cases l; cases s) simp_all
      ultimately show ?thesis using 4 n s(1) t(1) by (simp add: unfold Let_def)
    qed
  qed
qed

section \<open>The interface\<close>

text \<open>What the two schemes and the two libraries keep: \<open>C\<close> relates ciphertexts, \<open>E\<close> expressions and
  \<open>Q\<close> operators.  Nothing is said of encryption and decryption.\<close>

locale twin_libraries =
  fixes F :: "'ct Fhe" and G :: "'cu Fhe"
    and P :: "('ct, 'e, 'op) Proto1" and L :: "('cu, 'f, 'oq) Proto1"
    and C :: "'ct \<Rightarrow> 'cu \<Rightarrow> bool" and E :: "'e \<Rightarrow> 'f \<Rightarrow> bool" and Q :: "'op \<Rightarrow> 'oq \<Rightarrow> bool"
  assumes logicalSize: "C a b \<Longrightarrow> fhe_logicalSize F a = fhe_logicalSize G b"
    and evalMult: "C a b \<Longrightarrow> C c d \<Longrightarrow> C (fhe_evalMult F a c) (fhe_evalMult G b d)"
    and columnRef: "E (p1_columnRef P n) (p1_columnRef L n)"
    and encLiteral: "C a b \<Longrightarrow> E (p1_encLiteral P a) (p1_encLiteral L b)"
    and comparisons: "E x y \<Longrightarrow> E u v \<Longrightarrow> E (p1_equal P x u) (p1_equal L y v)"
      "E x y \<Longrightarrow> E u v \<Longrightarrow> E (p1_gt P x u) (p1_gt L y v)"
      "E x y \<Longrightarrow> E u v \<Longrightarrow> E (p1_lt P x u) (p1_lt L y v)"
    and connectives: "E x y \<Longrightarrow> E u v \<Longrightarrow> E (p1_andExpr P x u) (p1_andExpr L y v)"
      "E x y \<Longrightarrow> E u v \<Longrightarrow> E (p1_orExpr P x u) (p1_orExpr L y v)"
      "E x y \<Longrightarrow> E (p1_notExpr P x) (p1_notExpr L y)"
    and evaluate: "E x y \<Longrightarrow> batchRel C b1 b2 \<Longrightarrow> resRel C (p1_evaluate P x b1) (p1_evaluate L y b2)"
    and names: "p1_stringPhysicalColumn P = p1_stringPhysicalColumn L"
    and listChunks: "p1_listChunks P = p1_listChunks L"
    and getChunk: "resRel (chunkRel C) (p1_getChunk P table col part k) (p1_getChunk L table col part k)"
    and tableScan: "Q (p1_tableScan P table cols) (p1_tableScan L table cols)"
    and filters: "Q o1 o2 \<Longrightarrow> E x y \<Longrightarrow> Q (p1_filter P o1 x) (p1_filter L o2 y)"
    and project: "Q o1 o2 \<Longrightarrow> Q (p1_project P o1 cols) (p1_project L o2 cols)"
    and batches: "Q o1 o2 \<Longrightarrow> list_all2 (resRel (batchRel C)) (p1_batches P o1) (p1_batches L o2)"
begin

lemma combine_rel:
  "(\<And>i. lo \<le> i \<Longrightarrow> i < hi \<Longrightarrow> E (cs ! i) (ds ! i)) \<Longrightarrow> lo < hi \<Longrightarrow> E (combine P cs lo hi) (combine L ds lo hi)"
proof (induction "hi - lo" arbitrary: lo hi rule: less_induct)
  case less
  show ?case
  proof (cases "hi - lo \<le> 1")
    case True
    with less.prems show ?thesis by (simp add: combine.simps [of _ _ lo hi])
  next
    case False
    let ?m = "lo + (hi - lo) div 2"
    have "E (combine P cs lo ?m) (combine L ds lo ?m)" "E (combine P cs ?m hi) (combine L ds ?m hi)"
      using less.prems False by (auto intro!: less.hyps)
    with False show ?thesis by (simp add: combine.simps [of _ _ lo hi] Let_def connectives)
  qed
qed

lemma binary_rel: "E x y \<Longrightarrow> E u v \<Longrightarrow> E (binaryExpr P k x u) (binaryExpr L k y v)"
  by (cases k) (simp_all add: binaryExpr_def comparisons connectives)

lemma leaf_rel:
  assumes "packageRel F G C p q"
  shows "resRel E (buildLeaf F P p node) (buildLeaf G L q node)"
proof -
  have l: "resRel C (loadLiteral F p e i) (loadLiteral G q e i)" for e i by (rule literal_load [OF assms])
  have s: "resRel (list_all2 E) (stringComparisons F P p node) (stringComparisons G L q node)"
    unfolding stringComparisons_def names by (intro mapE_same bind_rel [OF l]) (simp add: comparisons columnRef encLiteral)
  have "resRel E
      (bindE (stringComparisons F P p node) (\<lambda>comparisons.
         if comparisons = [] then Inl (RuntimeError ''buildExpression: empty string width'')
         else let result = combine P comparisons 0 (length comparisons) in
           Inr (if pn_kind node = PStringNotEqual then p1_notExpr P result else result)))
      (bindE (stringComparisons G L q node) (\<lambda>comparisons.
         if comparisons = [] then Inl (RuntimeError ''buildExpression: empty string width'')
         else let result = combine L comparisons 0 (length comparisons) in
           Inr (if pn_kind node = PStringNotEqual then p1_notExpr L result else result)))"
  proof (rule bind_rel [OF s])
    fix xs ys assume xs: "list_all2 E xs ys"
    then have "xs \<noteq> [] \<Longrightarrow> E (combine P xs 0 (length xs)) (combine L ys 0 (length ys))"
      by (auto simp: list_all2_conv_all_nth intro!: combine_rel)
    with xs show "resRel E
        (if xs = [] then Inl (RuntimeError ''buildExpression: empty string width'')
         else let result = combine P xs 0 (length xs) in
           Inr (if pn_kind node = PStringNotEqual then p1_notExpr P result else result))
        (if ys = [] then Inl (RuntimeError ''buildExpression: empty string width'')
         else let result = combine L ys 0 (length ys) in
           Inr (if pn_kind node = PStringNotEqual then p1_notExpr L result else result))"
      by (auto simp: Let_def connectives)
  qed
  moreover have "resRel E (bindE (loadLiteral F p e i) (\<lambda>ct. Inr (p1_encLiteral P ct)))
      (bindE (loadLiteral G q e i) (\<lambda>ct. Inr (p1_encLiteral L ct)))" for e i
    by (intro bind_rel [OF l]) (simp add: encLiteral)
  ultimately show ?thesis by (simp add: buildLeaf_def columnRef)
qed

lemma expression_rel:
  assumes "packageRel F G C p q"
  shows "rel_option (resRel E) (buildExpression F P p i) (buildExpression G L q i)"
proof -
  note n = package_fields(10) [OF assms] and leaf = leaf_rel [OF assms]
  have flip: "resRel (\<lambda>y x. E x y) r s \<longleftrightarrow> resRel E s r" for r s by (cases r; cases s) auto
  have f: "\<exists>s. buildExpression G L q i = Some s \<and> resRel E r s" if "buildExpression F P p i = Some r" for r
    using build_one [OF that, of q E G L] n leaf connectives(3) binary_rel by blast
  have b: "\<exists>s. buildExpression F P p i = Some s" if "buildExpression G L q i = Some r" for r
  proof -
    have "\<exists>s. buildExpression F P p i = Some s \<and> resRel (\<lambda>y x. E x y) r s"
      by (rule build_one [OF that, rule_format]) (simp_all add: n flip leaf connectives(3) binary_rel)
    then show ?thesis by blast
  qed
  show ?thesis
  proof (cases "buildExpression F P p i")
    case None
    with b show ?thesis by (cases "buildExpression G L q i") auto
  next
    case (Some r)
    with f [OF Some] show ?thesis by auto
  qed
qed

lemma where_rel:
  assumes "packageRel F G C p q"
  shows "rel_option (resRel (rel_option E)) (buildWhere F P p) (buildWhere G L q)"
proof -
  let ?i = "of_nat (length (pk_predicateNodes p) - 1) :: u32"
  have "rel_option (resRel E) (buildExpression F P p ?i) (buildExpression G L q ?i)"
    by (rule expression_rel [OF assms])
  then show ?thesis
    unfolding buildWhere_def package_fields [OF assms]
    by (cases "buildExpression F P p ?i"; cases "buildExpression G L q ?i") (auto intro!: bind_rel [where R = E])
qed

lemma names_same: "physicalNames P name cs = physicalNames L name cs"
  by (simp add: physicalNames_def names)

lemma results_rel:
  assumes "\<And>physical. resRel (chunkRel C) (look1 physical) (look2 physical)"
  shows "resRel (list_all2 (columnRel F G C)) (columnResults F P look1 err name physical cs)
     (columnResults G L look2 err name physical cs)"
  unfolding columnResults_def names_same
proof (intro mapE_same, clarify, rule bind_rel [OF assms])
  fix position physicalName a b
  assume "chunkRel C a b"
  then have l: "list_all2 C (ch_ciphertexts a) (ch_ciphertexts b)" by (simp add: chunkRel_def)
  show "resRel (columnRel F G C)
      (case ch_ciphertexts a of [] \<Rightarrow> Inl (err physicalName) | ct # _ \<Rightarrow> Inr (columnResult F name cs position ct))
      (case ch_ciphertexts b of [] \<Rightarrow> Inl (err physicalName) | ct # _ \<Rightarrow> Inr (columnResult G name cs position ct))"
    using l by (cases rule: list.rel_cases) (auto simp: columnRel_def columnResult_def bytesRelI logicalSize)
qed

subsection \<open>One table\<close>

lemma expand_same: "packageRel F G C p q \<Longrightarrow> expandColumns L cat q cols = expandColumns P cat p cols"
  by (simp add: expandColumns_def package_fields names_same)

lemma batchColumn_rel:
  assumes "packageRel F G C p q" "batchRel C a b"
  shows "resRel (list_all2 (columnRel F G C)) (batchColumn F P cat p a name) (batchColumn G L cat q b name)"
  unfolding batchColumn_def package_fields [OF assms(1)]
proof (intro bind_same results_rel)
  fix physical
  have "rel_option (chunkRel C) (eb_columns a physical) (eb_columns b physical)"
    using assms(2) by (simp add: batchRel_def)
  then show "resRel (chunkRel C)
      (case eb_columns a physical of None \<Rightarrow> Inl (missingColumn physical) | Some c \<Rightarrow> Inr c)
      (case eb_columns b physical of None \<Rightarrow> Inl (missingColumn physical) | Some c \<Rightarrow> Inr c)"
    by cases auto
qed

lemma columns_rel:
  "list_all2 (list_all2 R) xss yss \<Longrightarrow> list_all2 R (concat xss) (concat yss)"
  by (induction rule: list_all2_induct) (auto intro: list_all2_appendI)

lemma serializeResult_rel:
  assumes "packageRel F G C p q" "resRel (batchRel C) a b" "list_all2 (answerRel F G C) rs ss"
  shows "resRel (list_all2 (answerRel F G C)) (serializeResult F P cat p a rs) (serializeResult G L cat q b ss)"
  unfolding serializeResult_def package_fields [OF assms(1)]
proof (intro bind_rel [OF assms(2)] bind_rel [OF mapE_same])
  fix a b cols dols
  assume b: "batchRel C a b" and c: "list_all2 (list_all2 (columnRel F G C)) cols dols"
  from b have "rel_option C (eb_selectionMask a) (eb_selectionMask b)" by (simp add: batchRel_def)
  then have "eb_selectionMask a = None \<and> eb_selectionMask b = None
      \<or> (\<exists>m n. eb_selectionMask a = Some m \<and> eb_selectionMask b = Some n \<and> C m n)" by cases auto
  then show "resRel (list_all2 (answerRel F G C))
      (Inr (rs @ [\<lparr>rb_batchId = of_nat (length rs), rb_logicalRowCount = eb_logicalRowCount a, rb_columns = concat cols,
         rb_selectionMaskBytes = (case eb_selectionMask a of None \<Rightarrow> [] | Some m \<Rightarrow> fhe_serialize F m),
         rb_hasMask = (eb_selectionMask a \<noteq> None)\<rparr>]))
      (Inr (ss @ [\<lparr>rb_batchId = of_nat (length ss), rb_logicalRowCount = eb_logicalRowCount b, rb_columns = concat dols,
         rb_selectionMaskBytes = (case eb_selectionMask b of None \<Rightarrow> [] | Some m \<Rightarrow> fhe_serialize G m),
         rb_hasMask = (eb_selectionMask b \<noteq> None)\<rparr>]))"
    using b columns_rel [OF c] assms(3) list_all2_lengthD [OF assms(3)]
    by (auto simp: batchRel_def answerRel_def bytesRelI intro!: list_all2_appendI)
qed (rule batchColumn_rel [OF assms(1)])

lemma scan_rel:
  assumes "packageRel F G C p q"
  shows "rel_option (resRel (list_all2 (answerRel F G C))) (executeScan F P cat p) (executeScan G L cat q)"
proof (cases "expandColumns P cat p (pk_scanColumns p)")
  case (Inl e)
  then show ?thesis
    by (simp add: executeScan_def expand_same [OF assms] package_fields [OF assms])
next
  case (Inr cols)
  have "resRel (list_all2 (answerRel F G C))
      (bindE (expandColumns P cat p (pk_projectColumns p)) (\<lambda>projectColumns.
        foldE (serializeResult F P cat p) (p1_batches P (p1_project P r1 projectColumns)) []))
      (bindE (expandColumns P cat p (pk_projectColumns p)) (\<lambda>projectColumns.
        foldE (serializeResult G L cat q) (p1_batches L (p1_project L r2 projectColumns)) []))"
    if "Q r1 r2" for r1 r2
    by (rule bind_same, rule foldE_rel [OF batches [OF project [OF that]]])
      (simp_all add: serializeResult_rel [OF assms])
  note stream = this
  have "resRel (list_all2 (answerRel F G C))
      (let scan = p1_tableScan P (pk_tableName p) cols; root = (case v of None \<Rightarrow> scan | Some ex \<Rightarrow> p1_filter P scan ex) in
        bindE (expandColumns P cat p (pk_projectColumns p)) (\<lambda>projectColumns.
          foldE (serializeResult F P cat p) (p1_batches P (p1_project P root projectColumns)) []))
      (let scan = p1_tableScan L (pk_tableName p) cols; root = (case w of None \<Rightarrow> scan | Some ex \<Rightarrow> p1_filter L scan ex) in
        bindE (expandColumns P cat p (pk_projectColumns p)) (\<lambda>projectColumns.
          foldE (serializeResult G L cat q) (p1_batches L (p1_project L root projectColumns)) []))"
    if "rel_option E v w" for v w
    unfolding Let_def by (rule stream, use that in cases) (simp_all add: tableScan filters)
  note body = this
  from where_rel [OF assms] show ?thesis
    unfolding executeScan_def expand_same [OF assms] package_fields [OF assms] Inr sum.case
    by cases (simp_all only: option.rel_inject Option.bind.simps bind_rel [OF _ body] option.rel_distinct simp_thms)
qed

subsection \<open>JOIN\<close>

lemma addTable_rel:
  assumes "batchRel C a b"
  shows "resRel (batchRel C) (addTableColumns P cat table al k a) (addTableColumns L cat table al k b)"
  unfolding addTableColumns_def names_same
proof (intro bind_same foldE_same [where R = "batchRel C", OF assms] bind_rel [OF getChunk])
  fix physical and b1 :: "'ct EncBatch" and b2 :: "'cu EncBatch" and c1 c2
  assume "batchRel C b1 b2" "chunkRel C c1 c2"
  then show "resRel (batchRel C)
      (Inr (b1\<lparr>eb_columns := (eb_columns b1)(al @ CHR ''.'' # physical \<mapsto> c1)\<rparr>))
      (Inr (b2\<lparr>eb_columns := (eb_columns b2)(al @ CHR ''.'' # physical \<mapsto> c2)\<rparr>))"
    by (simp add: batchRel_def)
qed

lemma emptyBatch_rel: "batchRel C emptyBatch emptyBatch"
  by (simp add: batchRel_def emptyBatch_def)

lemma joinColumn_rel:
  assumes "packageRel F G C p q"
  shows "resRel (list_all2 (columnRel F G C)) (joinColumn F P cat p lm rm name) (joinColumn G L cat q lm rm name)"
  unfolding joinColumn_def Let_def package_fields [OF assms]
  by (intro bind_same results_rel getChunk)

lemma checkChunk_rel: "chunkRel C a b \<Longrightarrow> checkChunkSize b = checkChunkSize a"
  by (simp add: checkChunkSize_def chunkRel_def)

lemma joinPair_rel:
  assumes p: "packageRel F G C p q" and w: "rel_option E w v" and m: "rel_option C mask1 mask2"
    and rs: "list_all2 (answerRel F G C) rs ss"
  shows "resRel (list_all2 (answerRel F G C)) (joinPair F P cat p rightKey w lm mask1 rm rs)
     (joinPair G L cat q rightKey v lm mask2 rm ss)"
proof -
  have uses: "whereUsesJoinedTable q = whereUsesJoinedTable p"
    by (simp add: whereUsesJoinedTable_def package_fields [OF p])
  have mask: "resRel C
      (case w of Some ex \<Rightarrow> if whereUsesJoinedTable p then bindE (p1_evaluate P ex b1) (\<lambda>m. Inr (fhe_evalMult F m1 m))
           else Inr (case mask1 of Some m \<Rightarrow> fhe_evalMult F m1 m | None \<Rightarrow> m1)
         | None \<Rightarrow> Inr m1)
      (case v of Some ex \<Rightarrow> if whereUsesJoinedTable p then bindE (p1_evaluate L ex b2) (\<lambda>m. Inr (fhe_evalMult G m2 m))
           else Inr (case mask2 of Some m \<Rightarrow> fhe_evalMult G m2 m | None \<Rightarrow> m2)
         | None \<Rightarrow> Inr m2)"
    if "batchRel C b1 b2" "C m1 m2" for b1 b2 m1 m2
  proof -
    have left: "C (case mask1 of Some m \<Rightarrow> fhe_evalMult F m1 m | None \<Rightarrow> m1)
        (case mask2 of Some m \<Rightarrow> fhe_evalMult G m2 m | None \<Rightarrow> m2)"
      using m that(2) by cases (simp_all add: evalMult)
    have both: "resRel C (bindE (p1_evaluate P x b1) (\<lambda>m. Inr (fhe_evalMult F m1 m)))
        (bindE (p1_evaluate L y b2) (\<lambda>m. Inr (fhe_evalMult G m2 m)))" if "E x y" for x y
      using evaluate [OF that \<open>batchRel C b1 b2\<close>] by (rule bind_rel) (simp add: evalMult \<open>C m1 m2\<close>)
    from w show ?thesis by cases (simp_all add: left both that(2))
  qed
  have key: "E (p1_equal P (p1_columnRef P x) (p1_columnRef P y)) (p1_equal L (p1_columnRef L x) (p1_columnRef L y))" for x y
    by (intro comparisons columnRef)
  show ?thesis
    unfolding joinPair_def package_fields [OF p] uses
    apply (rule bind_rel [OF getChunk])
    apply (simp only: checkChunk_rel)
    apply (rule bind_same)
    apply (rule bind_rel [OF addTable_rel [OF emptyBatch_rel]])
    apply (rule bind_rel [OF addTable_rel], assumption)
    apply (rule bind_rel [OF evaluate [OF key]], assumption)
    apply (rule bind_rel [OF mask], assumption, assumption)
    apply (rule bind_rel [OF mapE_same [OF joinColumn_rel [OF p]]])
    using rs list_all2_lengthD [OF rs]
    apply (auto simp: answerRel_def bytesRelI columns_rel intro!: list_all2_appendI)
    done
qed

lemma joinLeft_rel:
  assumes p: "packageRel F G C p q" and w: "rel_option E w v" and rs: "list_all2 (answerRel F G C) rs ss"
  shows "resRel (list_all2 (answerRel F G C)) (joinLeft F P cat p leftKey rightKey w rightChunks lm rs)
     (joinLeft G L cat q leftKey rightKey v rightChunks lm ss)"
proof -
  have uses: "whereUsesJoinedTable q = whereUsesJoinedTable p"
    by (simp add: whereUsesJoinedTable_def package_fields [OF p])
  have only: "resRel (rel_option C)
      (bindE (addTableColumns P cat t al k emptyBatch) (\<lambda>b. bindE (p1_evaluate P x b) (\<lambda>m. Inr (Some m))))
      (bindE (addTableColumns L cat t al k emptyBatch) (\<lambda>b. bindE (p1_evaluate L y b) (\<lambda>m. Inr (Some m))))"
    if "E x y" for x y t al k
    by (intro bind_rel [OF addTable_rel [OF emptyBatch_rel]] bind_rel [OF evaluate [OF that]]) simp_all
  have mask: "resRel (rel_option C)
      (case w of Some ex \<Rightarrow> if whereUsesJoinedTable p then Inr None
           else bindE (addTableColumns P cat t al k emptyBatch) (\<lambda>b. bindE (p1_evaluate P ex b) (\<lambda>m. Inr (Some m)))
         | None \<Rightarrow> Inr None)
      (case v of Some ex \<Rightarrow> if whereUsesJoinedTable p then Inr None
           else bindE (addTableColumns L cat t al k emptyBatch) (\<lambda>b. bindE (p1_evaluate L ex b) (\<lambda>m. Inr (Some m)))
         | None \<Rightarrow> Inr None)" for t al k
    using w by cases (simp_all add: only)
  show ?thesis
    unfolding joinLeft_def package_fields [OF p] uses
    by (rule bind_rel [OF getChunk], simp only: checkChunk_rel, rule bind_same, rule bind_rel [OF mask],
        rule foldE_same [where R = "list_all2 (answerRel F G C)", OF rs], rule joinPair_rel [OF p w])
qed

lemma join_rel:
  assumes p: "packageRel F G C p q"
  shows "rel_option (resRel (list_all2 (answerRel F G C))) (executeJoin F P cat p) (executeJoin G L cat q)"
proof -
  have loop: "resRel (list_all2 (answerRel F G C)) (foldE (joinLeft F P cat p lk rk w rcs) lcs [])
      (foldE (joinLeft G L cat q lk rk v rcs) lcs [])" if "rel_option E w v" for lk rk w v lcs rcs
    by (rule foldE_same) (simp_all add: joinLeft_rel [OF p that])
  have body: "rel_option (resRel (list_all2 (answerRel F G C)))
      (Option.bind (buildWhere F P p) (\<lambda>w. Some (bindE w (\<lambda>w. foldE (joinLeft F P cat p lk rk w rcs) lcs []))))
      (Option.bind (buildWhere G L q) (\<lambda>w. Some (bindE w (\<lambda>w. foldE (joinLeft G L cat q lk rk w rcs) lcs []))))" for lk rk lcs rcs
    using where_rel [OF p]
    by cases (simp_all only: option.rel_inject Option.bind.simps bind_rel [OF _ loop] option.rel_distinct simp_thms)
  show ?thesis
    unfolding executeJoin_def package_fields [OF p] Let_def listChunks
    using body by (auto simp: bindE_eq_Inl split: sum.split prod.split)
qed

lemma handler_rel:
  assumes p: "packageRel F G C p q"
  shows "rel_option (resRel (list_all2 (answerRel F G C))) (handler F P cat sid p) (handler G L cat sid q)"
proof -
  have "rel_option (resRel (list_all2 (answerRel F G C))) (execute F P cat p) (execute G L cat q)"
    using join_rel [OF p] scan_rel [OF p] by (simp add: execute_def package_fields [OF p])
  then show ?thesis
    unfolding handler_def validate_same [OF p]
    by (cases "validate cat sid p") (auto split: sum.split)
qed

end

section \<open>A server with other keys\<close>

lemma rel_eq: "chunkRel (=) = (=)" "batchRel (=) = (=)"
proof -
  show c: "chunkRel (=) = (=)"
    by (intro ext) (auto simp: chunkRel_def list.rel_eq intro: Chunk.equality)
  show "batchRel (=) = (=)"
    by (intro ext) (auto simp: batchRel_def c option.rel_eq fun_eq_iff [symmetric] intro: EncBatch.equality)
qed

lemma answerRel_eq:
  assumes "fhe_serialize G = fhe_serialize F" and r: "answerRel F G (=) a b"
  shows "a = b"
proof -
  have "columnRel F G (=) c d \<Longrightarrow> c = d" for c d
    using assms(1) by (auto simp: columnRel_def bytesRel_def intro: EncryptedColumnResult.equality)
  then have "list_all2 (columnRel F G (=)) cs ds \<Longrightarrow> cs = ds" for cs ds
    using list_all2_mono [of "columnRel F G (=)" cs ds "(=)"] by (simp add: list.rel_eq)
  then show ?thesis
    using r assms(1) by (auto simp: answerRel_def bytesRel_def intro!: EncryptedResultBatch.equality split: if_splits)
qed

text \<open>The scheme with the same public operations and other encryption and decryption functions.\<close>

definition rekeyed :: "(nat \<Rightarrow> int list \<Rightarrow> 'ct) \<Rightarrow> ('ct \<Rightarrow> nat \<Rightarrow> int list) \<Rightarrow> 'ct Fhe \<Rightarrow> 'ct Fhe" where
  "rekeyed e d F = F\<lparr>fhe_encrypt := e, fhe_decrypt := d\<rparr>"

lemma rekeyed_paramSet [simp]:
  "fhe_paramSetId (rekeyed e d F) = fhe_paramSetId F" "fhe_serialize (rekeyed e d F) = fhe_serialize F"
  by (simp_all add: rekeyed_def)

interpretation rekey: twin_libraries F "rekeyed e d F" P P "(=)" "(=)" "(=)"
  for F :: "'ct Fhe" and P :: "('ct, 'e, 'op) Proto1" and e d
  by unfold_locales (auto simp: rekeyed_def rel_eq sum.rel_eq list.rel_eq)

lemma handler_rekeyed: "handler (rekeyed e d F) P cat sid pkg = handler F P cat sid pkg"
proof -
  have "packageRel F (rekeyed e d F) (=) pkg pkg"
    by (auto simp: packageRel_def literalRel_def rekeyed_def sum.rel_eq list_all2_same)
  from rekey.handler_rel [OF this, of P cat sid]
  have "rel_option (resRel (list_all2 (answerRel F (rekeyed e d F) (=)))) (handler F P cat sid pkg)
    (handler (rekeyed e d F) P cat sid pkg)" .
  then have "rel_option (resRel (list_all2 (=))) (handler F P cat sid pkg) (handler (rekeyed e d F) P cat sid pkg)"
    by (rule option.rel_mono_strong, elim sum.rel_mono_strong)
      (auto elim!: list_all2_mono intro: answerRel_eq [of "rekeyed e d F" F] simp: rekeyed_paramSet)
  then show ?thesis by (simp add: list.rel_eq sum.rel_eq option.rel_eq)
qed

definition rekeyedEnv ::
  "(nat \<Rightarrow> int list \<Rightarrow> 'ct) \<Rightarrow> ('ct \<Rightarrow> nat \<Rightarrow> int list) \<Rightarrow> ('ct, 'e, 'op) ServerEnv \<Rightarrow> ('ct, 'e, 'op) ServerEnv" where
  "rekeyedEnv e d env = env\<lparr>se_loadContext := map_sum id (rekeyed e d) \<circ> se_loadContext env\<rparr>"

lemma serverMain_rekeyed: "serverMain ar std (rekeyedEnv e d env) argv = serverMain ar std env argv"
proof -
  have h: "handler (rekeyed e d F) P cat sid = handler F P cat sid" for F P cat sid
    by (rule ext) (rule handler_rekeyed)
  show ?thesis
  proof (cases "serverArgs argv defaultServerArgs")
    case (Run a)
    then show ?thesis
      by (cases "se_loadContext env (sa_keysDir a)") (simp_all add: serverMain_def rekeyedEnv_def h split: sum.split)
  qed (simp_all add: serverMain_def)
qed

section \<open>What the traffic shows\<close>

text \<open>Two ciphertexts that an observer cannot tell apart by their size, and what the observer sees of
  an answer: everything but the bytes of the ciphertexts.\<close>

definition sameSize :: "'ct Fhe \<Rightarrow> 'ct \<Rightarrow> 'ct \<Rightarrow> bool" where
  "sameSize F a b \<longleftrightarrow> fhe_logicalSize F a = fhe_logicalSize F b
     \<and> length (fhe_serialize F a) = length (fhe_serialize F b)"

definition blankColumn :: "EncryptedColumnResult \<Rightarrow> EncryptedColumnResult" where
  "blankColumn c = c\<lparr>cr_ciphertextBytes := replicate (length (cr_ciphertextBytes c)) 0\<rparr>"

definition blank :: "EncryptedResultBatch \<Rightarrow> EncryptedResultBatch" where
  "blank b = b\<lparr>rb_columns := map blankColumn (rb_columns b),
     rb_selectionMaskBytes := replicate (length (rb_selectionMaskBytes b)) 0\<rparr>"

definition traffic :: "EncryptedResultBatch list result option \<Rightarrow> EncryptedResultBatch list result option" where
  "traffic = map_option (map_sum id (map blank))"

lemma related_traffic:
  assumes "rel_option (resRel (list_all2 (answerRel F F (sameSize F)))) r r'"
  shows "traffic r = traffic r'"
proof -
  have b: "length x = length y" if "bytesRel F F (sameSize F) x y" for x y
    using that by (auto simp: bytesRel_def sameSize_def)
  have c: "blankColumn x = blankColumn y" if "columnRel F F (sameSize F) x y" for x y
    using that b by (auto simp: columnRel_def blankColumn_def intro!: EncryptedColumnResult.equality)
  have m: "map blankColumn xs = map blankColumn ys" if "list_all2 (columnRel F F (sameSize F)) xs ys" for xs ys
    using that by induction (simp_all add: c)
  have a: "blank x = blank y" if "answerRel F F (sameSize F) x y" for x y
    using that m b by (auto simp: answerRel_def blank_def intro!: EncryptedResultBatch.equality split: if_splits)
  have l: "map blank xs = map blank ys" if "list_all2 (answerRel F F (sameSize F)) xs ys" for xs ys
    using that by induction (simp_all add: a)
  from assms show ?thesis
    by cases (auto simp: traffic_def l elim!: rel_sum.cases)
qed

text \<open>Two statements that differ only in their literals are planned alike.\<close>

lemma sameShape_columns: "sameShape e e' \<Longrightarrow> collectColumns e' cols = collectColumns e cols"
  by (induction e e' arbitrary: cols rule: sameShape.induct) auto

lemma sameShape_plan:
  assumes "sameShape e e'"
  shows "planStatement (s\<lparr>st_whereClause := Some e'\<rparr>) t = planStatement (s\<lparr>st_whereClause := Some e\<rparr>) t"
proof -
  have "scanNode (s\<lparr>st_whereClause := w\<rparr>) = scanNode s" "outputColumns (s\<lparr>st_whereClause := w\<rparr>) t = outputColumns s t" for w
    by (simp_all add: scanNode_def outputColumns_def split: list.split ASTExpr.split CmpKind.split)
  then show ?thesis by (simp add: planStatement_eq sameShape_columns [OF assms])
qed

lemma sameShape_prepared:
  assumes p: "preparePackage F cat w (s\<lparr>st_whereClause := Some e\<rparr>) t = Inr (plan, pkg)" and e: "sameShape e e'" "scalarSizes F"
  shows "\<exists>pkg'. preparePackage F cat w (s\<lparr>st_whereClause := Some e'\<rparr>) t = Inr (plan, pkg')
     \<and> erasePackage pkg' = erasePackage pkg"
proof -
  from p obtain q where q: "planStatement (s\<lparr>st_whereClause := Some e\<rparr>) t = Inr plan"
    "encryptCatalog F (s\<lparr>st_whereClause := Some e\<rparr>) plan cat (clientMeta F) = Inr q"
    "pkg = q\<lparr>pk_queryId := makeQueryId (fst (qw_random w)) (snd (qw_random w))\<rparr>"
    by (auto simp: preparePackage_def bindE_eq_Inr)
  from literals_hidden [OF q(2) e] obtain q' where
    "encryptCatalog F (s\<lparr>st_whereClause := Some e'\<rparr>) plan cat (clientMeta F) = Inr q'" "erasePackage q' = erasePackage q"
    by blast
  with q(1,3) sameShape_plan [OF e(1), of s t] show ?thesis
    by (cases q; cases q') (auto simp: preparePackage_def erasePackage_def)
qed

lemma prepared_entries:
  assumes p: "preparePackage F cat w s t = Inr (plan, pkg)"
  shows "list_all (\<lambda>l. \<exists>call v. el_ciphertextBytes l = fhe_serialize F (encryptScalar F call v)
     \<and> el_logicalSize l = fhe_logicalSize F (encryptScalar F call v)) (pk_encryptedLiterals pkg)"
proof -
  from p obtain q where q: "encryptCatalog F s plan cat (clientMeta F) = Inr q"
    "pk_encryptedLiterals pkg = pk_encryptedLiterals q"
    by (auto simp: preparePackage_def bindE_eq_Inr)
  show ?thesis unfolding q(2) by (rule package_entries [OF q(1)]) auto
qed

text \<open>Encryptions of one scalar have one size, whatever the scalar.\<close>

definition size_law :: "'ct Fhe \<Rightarrow> bool" where
  "size_law F \<longleftrightarrow> (\<forall>call v call' v'. sameSize F (encryptScalar F call v) (encryptScalar F call' v'))"

lemma size_law_scalars: "size_law F \<Longrightarrow> scalarSizes F"
  unfolding size_law_def scalarSizes_def sameSize_def by blast

lemma erased_related:
  assumes e: "erasePackage p = erasePackage q" and laws: "fhe_wire_law F" "size_law F"
    and p: "preparePackage F cat w s t = Inr (plan, p)" and q: "preparePackage F cat w' s' t' = Inr (plan', q)"
  shows "packageRel F F (sameSize F) p q"
proof -
  let ?ok = "\<lambda>l. \<exists>call v. el_ciphertextBytes l = fhe_serialize F (encryptScalar F call v)
     \<and> el_logicalSize l = fhe_logicalSize F (encryptScalar F call v)"
  have one: "literalRel F F (sameSize F) l m" if "?ok l" "?ok m" "eraseLiteral l = eraseLiteral m" for l m
  proof -
    from that(1,2) obtain c v d u where l: "el_ciphertextBytes l = fhe_serialize F (encryptScalar F c v)"
      "el_logicalSize l = fhe_logicalSize F (encryptScalar F c v)"
      and m: "el_ciphertextBytes m = fhe_serialize F (encryptScalar F d u)"
      "el_logicalSize m = fhe_logicalSize F (encryptScalar F d u)" by blast
    have wire: "fhe_deserializeWithSize F (fhe_serialize F a) (unat (fhe_logicalSize F a)) = Inr a" "fhe_serialize F a \<noteq> []" for a
      using laws(1) by (simp_all add: fhe_wire_law_def)
    have "sameSize F (encryptScalar F c v) (encryptScalar F d u)" using laws(2) by (simp add: size_law_def)
    moreover have "el_id l = el_id m" "el_logicalType l = el_logicalType m" using that(3) by (simp_all add: eraseLiteral_def)
    ultimately show ?thesis unfolding literalRel_def l m wire(1) by (simp add: wire(2))
  qed
  have "list_all2 (literalRel F F (sameSize F)) ls ms"
    if "list_all ?ok ls" "list_all ?ok ms" "map eraseLiteral ls = map eraseLiteral ms" for ls ms
    using that
  proof (induction ls arbitrary: ms)
    case (Cons l ls)
    then obtain m ms' where "ms = m # ms'" "eraseLiteral l = eraseLiteral m" "map eraseLiteral ls = map eraseLiteral ms'"
      by (auto simp: Cons_eq_map_conv)
    with Cons show ?case by (simp add: one)
  qed simp
  then show ?thesis
    using e prepared_entries [OF p] prepared_entries [OF q] by (simp add: packageRel_def erasePackage_def)
qed

section \<open>A scheme of fixed size\<close>

text \<open>One slot of one byte; the two libraries store different values.\<close>

definition cellFhe :: "byte Fhe" where
  "cellFhe = \<lparr>fhe_encrypt = (\<lambda>_ vs. of_int (hd vs)), fhe_decrypt = (\<lambda>ct n. take n [uint ct]),
     fhe_serialize = (\<lambda>ct. [ct]), fhe_deserializeWithSize = (\<lambda>s n. if s = [] then Inl LengthError else Inr (hd s)),
     fhe_logicalSize = (\<lambda>_. 1), fhe_evalMult = (*), fhe_slotCount = 1, fhe_paramSetId = ''p''\<rparr>"

definition cellChunk :: "byte \<Rightarrow> byte Chunk" where
  "cellChunk v = \<lparr>ch_logicalRowCount = 1, ch_ciphertexts = [v]\<rparr>"

definition cellEval :: "((string \<Rightarrow> byte) \<Rightarrow> byte) \<Rightarrow> byte EncBatch \<Rightarrow> byte" where
  "cellEval ex b = ex (\<lambda>c. case eb_columns b c of None \<Rightarrow> 0 | Some ch \<Rightarrow> hd (ch_ciphertexts ch))"

definition cellProto1 :: "(u32 \<Rightarrow> byte) \<Rightarrow> (byte, (string \<Rightarrow> byte) \<Rightarrow> byte, byte EncBatch list) Proto1" where
  "cellProto1 d =
     \<lparr>p1_columnRef = (\<lambda>n env. env n), p1_encLiteral = (\<lambda>ct _. ct),
      p1_equal = (\<lambda>x y env. of_bool (x env = y env)), p1_gt = (\<lambda>x y env. of_bool (x env > y env)),
      p1_lt = (\<lambda>x y env. of_bool (x env < y env)), p1_andExpr = (\<lambda>x y env. x env * y env),
      p1_orExpr = (\<lambda>x y env. x env + y env - x env * y env), p1_notExpr = (\<lambda>x env. 1 - x env),
      p1_evaluate = (\<lambda>ex b. Inr (cellEval ex b)),
      p1_stringPhysicalColumn = (\<lambda>n p. n @ replicate (Suc p) CHR ''#''),
      p1_listChunks = (\<lambda>_ _. Inr [\<lparr>cm_partitionId = 0, cm_chunkId = 0\<rparr>, \<lparr>cm_partitionId = 0, cm_chunkId = 1\<rparr>]),
      p1_getChunk = (\<lambda>_ _ _ k. Inr (cellChunk (d k))),
      p1_tableScan = (\<lambda>_ cs. map (\<lambda>k. \<lparr>eb_logicalRowCount = 1,
         eb_columns = (\<lambda>c. if c \<in> set cs then Some (cellChunk (d k)) else None), eb_selectionMask = None\<rparr>) [0, 1]),
      p1_filter = (\<lambda>op ex. map (\<lambda>b. b\<lparr>eb_selectionMask := Some (cellEval ex b)\<rparr>) op),
      p1_project = (\<lambda>op cs. map (\<lambda>b. b\<lparr>eb_columns := (\<lambda>c. if c \<in> set cs then eb_columns b c else None)\<rparr>) op),
      p1_batches = map Inr\<rparr>"

lemma cell_laws: "fhe_wire_law cellFhe" "size_law cellFhe" "sameSize cellFhe = (\<lambda>_ _. True)"
  by (simp_all add: fhe_wire_law_def size_law_def sameSize_def cellFhe_def fun_eq_iff)

interpretation cells: twin_libraries cellFhe cellFhe "cellProto1 d" "cellProto1 d'" "sameSize cellFhe" "\<lambda>_ _. True"
    "list_all2 (batchRel (sameSize cellFhe))" for d d'
proof
  show "list_all2 (batchRel (sameSize cellFhe)) (p1_project (cellProto1 d) o1 cols) (p1_project (cellProto1 d') o2 cols)"
    if "list_all2 (batchRel (sameSize cellFhe)) o1 o2" for o1 o2 cols
    using that by induction (auto simp: cellProto1_def batchRel_def)
  show "list_all2 (batchRel (sameSize cellFhe)) (p1_filter (cellProto1 d) o1 x) (p1_filter (cellProto1 d') o2 y)"
    if "list_all2 (batchRel (sameSize cellFhe)) o1 o2" for o1 o2 x y
    using that by induction (auto simp: cellProto1_def batchRel_def cell_laws(3))
  show "list_all2 (resRel (batchRel (sameSize cellFhe))) (p1_batches (cellProto1 d) o1) (p1_batches (cellProto1 d') o2)"
    if "list_all2 (batchRel (sameSize cellFhe)) o1 o2" for o1 o2
    using that by induction (auto simp: cellProto1_def)
qed (auto simp: cellProto1_def cellFhe_def sameSize_def batchRel_def chunkRel_def cellChunk_def)

section \<open>Properties\<close>

text \<open>C3: the server holds no secret: replace the encryption and the decryption
  of every context it can load by any other functions, and the server program does the same, from
  its arguments to the last byte of every connection.\<close>

theorem server_never_decrypts:
  "serverMain ar std (rekeyedEnv e d env) argv = serverMain ar std env argv"
  by (rule serverMain_rekeyed)

text \<open>C8: what the traffic of an answer shows does not depend on the data.  For two
  queries that differ only in the literals of their WHERE clauses, asked to servers whose tables
  differ only in their contents, the handlers answer with the same error or with the same batches up
  to the bytes of the ciphertexts: as many of them, with the same numbers, columns, sizes and masks.
  The hypotheses: ciphertexts survive serialization, encryptions of one scalar have one size, and the
  library works on ciphertexts of the same size alike.\<close>

theorem answers_hide_data:
  assumes laws: "fhe_wire_law F" "size_law F" "twin_libraries F F P P' (sameSize F) E Q"
    and query: "preparePackage F cat w (s\<lparr>st_whereClause := Some e\<rparr>) t = Inr (plan, p)" "sameShape e e'"
  shows "\<exists>p'. preparePackage F cat w (s\<lparr>st_whereClause := Some e'\<rparr>) t = Inr (plan, p')
     \<and> traffic (handler F P cat sid p) = traffic (handler F P' cat sid p')"
proof -
  obtain p' where p': "preparePackage F cat w (s\<lparr>st_whereClause := Some e'\<rparr>) t = Inr (plan, p')"
    "erasePackage p' = erasePackage p" using sameShape_prepared [OF query size_law_scalars [OF laws(2)]] by blast
  have "packageRel F F (sameSize F) p p'"
    by (rule erased_related [OF p'(2) [symmetric] laws(1,2) query(1) p'(1)])
  from related_traffic [OF twin_libraries.handler_rel [OF laws(3) this]] p'(1) show ?thesis by blast
qed

theorem answers_hide_data_witness:
  "\<exists>w p p'. preparePackage cellFhe makeEmployeesCatalog w encSample employeesSchema = Inr (encPlan, p)
     \<and> preparePackage cellFhe makeEmployeesCatalog w
         (encSample\<lparr>st_whereClause := Some (And (Comparison GreaterThan (ColumnRef ''age'') (IntLiteral 99))
            (NotExpr (Comparison Equal (ColumnRef ''name'') (StringLiteral ''Alice''))))\<rparr>) employeesSchema = Inr (encPlan, p')
     \<and> traffic (handler cellFhe (cellProto1 (\<lambda>k. 7)) makeEmployeesCatalog ''p'' p) =
         traffic (handler cellFhe (cellProto1 (\<lambda>k. if k = 0 then 30 else 99)) makeEmployeesCatalog ''p'' p')"
proof -
  let ?e = "And (Comparison GreaterThan (ColumnRef ''age'') (IntLiteral 30))
                (NotExpr (Comparison Equal (ColumnRef ''name'') (StringLiteral ''Bob'')))"
  let ?w = "\<lparr>qw_clock = (\<lambda>_. 0), qw_random = (1, 2), qw_connect = NotConnected\<rparr>"
  have s: "encSample\<lparr>st_whereClause := Some ?e\<rparr> = encSample" by (simp add: encSample_def)
  obtain st rs where "encryptCatalog cellFhe encSample encPlan makeEmployeesCatalog (clientMeta cellFhe) =
      Inr (packageOf encPlan (clientMeta cellFhe) rs st)" using encSample_package by blast
  then obtain p where p: "preparePackage cellFhe makeEmployeesCatalog ?w encSample employeesSchema = Inr (encPlan, p)"
    by (simp add: preparePackage_def encSample_plan)
  then have "preparePackage cellFhe makeEmployeesCatalog ?w (encSample\<lparr>st_whereClause := Some ?e\<rparr>) employeesSchema = Inr (encPlan, p)"
    by (simp only: s)
  from answers_hide_data [OF cell_laws(1,2) cells.twin_libraries_axioms this] p show ?thesis by fastforce
qed

end
