(* ===== verification/Hega_System.thy ===== *)
theory Hega_System
  imports Hega_Join Hega_Blind
begin

text \<open>
  The two programs together: the client's \<open>main\<close> with a session of queries typed at the terminal,
  single-table and JOIN, and the server's \<open>main\<close> that serves one connection after the other.  The
  specification is a terminal over the plaintext tables; the encrypted system prints what it prints.
\<close>

section \<open>Typing a statement\<close>

text \<open>The lines from one prompt to the next statement: the text that is executed, and the text that
  was pending at each prompt.\<close>

fun entered :: "string list \<Rightarrow> string \<Rightarrow> (string \<times> string list) option" where
  "entered [] sql = None"
| "entered (line0 # lines) sql =
     (let line = trimRight line0 in
      if line = ''exit'' \<or> line = ''quit'' then None
      else if line = [] then map_option (map_prod id (Cons sql)) (entered lines sql)
      else let sql1 = sql @ (if sql = [] then [] else '' '') @ line in
        if hasStatementTerminator sql1 then (if lines = [] then Some (sql1, [sql]) else None)
        else map_option (map_prod id (Cons sql)) (entered lines sql1))"

declare entered.simps [simp del]

lemma repl_entered:
  assumes "entered ls sql = Some (sql1, ps)" "parse sql1 = Inr s"
    "executeQuery ar std (fst (qs k)) cat ep (snd (qs k)) sql1 (fold prompt ps c) = (Inr (), c2, so)"
  shows "repl ar std cat ep qs k (ls @ rest) sql c =
     (let (r, c3, ss) = repl ar std cat ep qs (Suc k) rest [] c2 in (r, c3, so # ss))"
  using assms
proof (induction ls sql arbitrary: c ps rule: entered.induct)
  case (2 line0 lines sql)
  let ?line = "trimRight line0" and ?sql1 = "sql @ (if sql = [] then [] else '' '') @ trimRight line0"
  have q: "?line \<noteq> ''exit''" "?line \<noteq> ''quit''" using 2(3) by (auto simp: entered.simps(2) Let_def)
  consider "?line = []" | "?line \<noteq> []" "hasStatementTerminator ?sql1" | "?line \<noteq> []" "\<not> hasStatementTerminator ?sql1"
    by blast
  then show ?case
  proof cases
    case 1
    with 2(3) obtain qs' where e: "entered lines sql = Some (sql1, qs')" "ps = sql # qs'"
      by (auto simp: entered.simps(2) Let_def)
    from 2(1) [OF refl _ 1 e(1) 2(4)] q 2(5) e(2)
    have "repl ar std cat ep qs k (lines @ rest) sql (prompt sql c) =
        (let (r, c3, ss) = repl ar std cat ep qs (Suc k) rest [] c2 in (r, c3, so # ss))" by simp
    with 1 show ?thesis by (simp add: repl.simps(2) Let_def)
  next
    case 2
    note t = this
    with "2.prems"(1) q have "lines = []" "sql1 = ?sql1" "ps = [sql]"
      by (auto simp: entered.simps(2) Let_def split: if_splits)
    with t q "2.prems"(2,3) show ?thesis by (simp add: repl.simps(2) Let_def)
  next
    case 3
    with 2(3) q obtain qs' where e: "entered lines ?sql1 = Some (sql1, qs')" "ps = sql # qs'"
      by (auto simp: entered.simps(2) Let_def split: if_splits)
    from 2(2) [OF refl _ 3(1) refl 3(2) e(1) 2(4)] q 2(5) e(2)
    have "repl ar std cat ep qs k (lines @ rest) ?sql1 (prompt sql c) =
        (let (r, c3, ss) = repl ar std cat ep qs (Suc k) rest [] c2 in (r, c3, so # ss))" by simp
    with 3 q show ?thesis by (simp add: repl.simps(2) Let_def)
  qed
qed (simp add: entered.simps)

section \<open>Queries that the tables answer\<close>

record Query =
  qu_lines :: "string list"
  qu_prompts :: "string list"
  qu_sql :: string
  qu_stmt :: SelectStatement
  qu_schema :: TableSchema
  qu_plan :: PhysicalPlan
  qu_pkg :: QueryPackage
  qu_rows :: "ResultRow list"

text \<open>The rows that the plaintext tables give, for a query over one table or over two.\<close>

definition tableRows ::
  "'ct Fhe \<Rightarrow> ('ct, 'e, 'op) Proto1 \<Rightarrow> Catalog \<Rightarrow> SelectStatement \<Rightarrow> TableSchema \<Rightarrow> string list \<Rightarrow> ResultRow list \<Rightarrow> bool" where
  "tableRows F P cat s t names rows \<longleftrightarrow>
     (\<exists>depth S st R. answerable F P cat depth S st R s t \<and> rows = answerRows s t names st R)
     \<or> (\<exists>depth S u rt ja x y lms L rms R. joinAnswerable F P cat depth S s t u rt ja x y lms L rms R
          \<and> rows = joinRows s t u names (map (L \<circ> cm_chunkId) lms) (map (R \<circ> cm_chunkId) rms))"

definition queryReady ::
  "Archive \<Rightarrow> 'ct Fhe \<Rightarrow> ('ct, 'e, 'op) Proto1 \<Rightarrow> Catalog \<Rightarrow> QueryWorld \<Rightarrow> Query \<Rightarrow> bool" where
  "queryReady ar F P cat w q \<longleftrightarrow>
     entered (qu_lines q) [] = Some (qu_sql q, qu_prompts q)
     \<and> parse (qu_sql q) = Inr (qu_stmt q) \<and> analyze cat (qu_stmt q) = Inr (qu_schema q)
     \<and> preparePackage F cat w (qu_stmt q) (qu_schema q) = Inr (qu_plan q, qu_pkg q) \<and> fitsIndices (qu_pkg q)
     \<and> tableRows F P cat (qu_stmt q) (qu_schema q) (pp_projectColumns (qu_plan q)) (qu_rows q)
     \<and> (\<forall>rs. handler F P cat (fhe_paramSetId F) (qu_pkg q) = Some (Inr rs) \<longrightarrow> fitsFrames ar (qu_pkg q) rs)"

text \<open>What the terminal shows for a query: the prompts, the report, the sorted and cut rows and some
  measurements.\<close>

definition shown :: "Archive \<Rightarrow> Query \<Rightarrow> ClientMetrics \<Rightarrow> Console \<Rightarrow> Console" where
  "shown ar q m c =
     printMetrics m (printResult (displayColumns (qu_stmt q) (qu_plan q))
       (applySortAndLimit (qu_rows q) (st_orderByColumns (qu_stmt q)) (st_limitCount (qu_stmt q)))
       (put nl (reportQuery ar (qu_plan q) (qu_pkg q) (fold prompt (qu_prompts q) c))))"

inductive answered :: "Archive \<Rightarrow> Query list \<Rightarrow> Console \<Rightarrow> Console \<Rightarrow> bool" for ar where
  finished: "answered ar [] c c"
| query: "answered ar qs (shown ar q m c) c' \<Longrightarrow> answered ar (q # qs) c c'"

inductive_simps answered_simps [simp]: "answered ar [] c c'" "answered ar (q # qs) c c'"

text \<open>The two ends of a connection: the server's, on which the request of a query arrives, and the
  client's, on which the bytes arrive that the server wrote.\<close>

definition asked :: "Archive \<Rightarrow> Query \<Rightarrow> Socket \<Rightarrow> bool" where
  "asked ar q s \<longleftrightarrow> patient s \<and> so_out s = [] \<and> so_in s = request ar (qu_pkg q)"

definition heard :: "QueryWorld \<Rightarrow> Socket \<Rightarrow> bool" where
  "heard w t \<longleftrightarrow> (\<exists>cs. qw_connect w = Opened cs \<and> patient cs \<and> so_out cs = [] \<and> so_in cs = so_out t)"

lemma ready_handled:
  assumes "queryReady ar F P cat w q"
  shows "\<exists>rs. handler F P cat (fhe_paramSetId F) (qu_pkg q) = Some (Inr rs) \<and> decodeBatches F rs = Inr (qu_rows q)"
proof -
  from assms have q: "analyze cat (qu_stmt q) = Inr (qu_schema q)"
    "preparePackage F cat w (qu_stmt q) (qu_schema q) = Inr (qu_plan q, qu_pkg q)" "fitsIndices (qu_pkg q)"
    "tableRows F P cat (qu_stmt q) (qu_schema q) (pp_projectColumns (qu_plan q)) (qu_rows q)"
    by (simp_all add: queryReady_def)
  from q(4) show ?thesis
    unfolding tableRows_def using query_answered [OF q(1) _ q(2,3)] join_answered [OF _ q(2,3)] by metis
qed

lemma ready_served:
  assumes r: "queryReady ar F P cat w q" and ar: "archive_laws ar" and ss: "asked ar q ss"
  shows "\<exists>ss'. handleClient ar std (handler F P cat (fhe_paramSetId F)) ss = Some ss'"
proof -
  obtain rs where rs: "handler F P cat (fhe_paramSetId F) (qu_pkg q) = Some (Inr rs)" using ready_handled [OF r] by blast
  with r have "sizedPackage (qu_pkg q)" "length (serializePackage ar (qu_pkg q)) < 2 ^ 32"
    by (simp_all add: queryReady_def fitsFrames_def)
  with ss rs show ?thesis
    using server_receives [OF ar, of ss "qu_pkg q" std "handler F P cat (fhe_paramSetId F)"] by (auto simp: asked_def)
qed

lemma ready_shown:
  assumes r: "queryReady ar F P cat w q" and ar: "archive_laws ar" and wires: "asked ar q ss" "heard w ss'"
    and h: "handleClient ar std (handler F P cat (fhe_paramSetId F)) ss = Some ss'"
  shows "\<exists>m cs'. executeQuery ar std' F cat ep w (qu_sql q) (fold prompt (qu_prompts q) c) = (Inr (), shown ar q m c, Some cs')
     \<and> so_out cs' = request ar (qu_pkg q)"
proof -
  obtain rs where rs: "handler F P cat (fhe_paramSetId F) (qu_pkg q) = Some (Inr rs)" "decodeBatches F rs = Inr (qu_rows q)"
    using ready_handled [OF r] by blast
  from r have q: "parse (qu_sql q) = Inr (qu_stmt q)" "analyze cat (qu_stmt q) = Inr (qu_schema q)"
    "preparePackage F cat w (qu_stmt q) (qu_schema q) = Inr (qu_plan q, qu_pkg q)" "fitsFrames ar (qu_pkg q) rs"
    using rs(1) by (simp_all add: queryReady_def)
  from wires obtain cs where cs: "qw_connect w = Opened cs" "patient cs" "so_out cs = []" "so_in cs = so_out ss'"
    and ss: "patient ss" "so_out ss = []" "so_in ss = request ar (qu_pkg q)" by (auto simp: asked_def heard_def)
  from wired_query [OF q(1-3) rs ar q(4) cs(1-3) h ss(1-3) cs(4)] ss(3) show ?thesis
    unfolding shown_def by metis
qed

section \<open>The session\<close>

text \<open>A query that the tables answer, typed in any state of the terminal.\<close>

definition answersAt ::
  "Archive \<Rightarrow> (err \<Rightarrow> string) \<Rightarrow> Catalog \<Rightarrow> Endpoint \<Rightarrow> 'ct Fhe \<times> QueryWorld \<Rightarrow> Query \<Rightarrow> bool" where
  "answersAt ar std cat ep fw q \<longleftrightarrow>
     entered (qu_lines q) [] = Some (qu_sql q, qu_prompts q) \<and> parse (qu_sql q) = Inr (qu_stmt q)
     \<and> (\<forall>c. \<exists>m cs'. executeQuery ar std (fst fw) cat ep (snd fw) (qu_sql q) (fold prompt (qu_prompts q) c) =
          (Inr (), shown ar q m c, Some cs') \<and> so_out cs' = request ar (qu_pkg q))"

definition sent :: "Archive \<Rightarrow> Query \<Rightarrow> Socket option \<Rightarrow> bool" where
  "sent ar q so \<longleftrightarrow> (\<exists>cs. so = Some cs \<and> so_out cs = request ar (qu_pkg q))"

lemma session_shown:
  "\<forall>i<length queries. answersAt ar std cat ep (qs (k + i)) (queries ! i) \<Longrightarrow>
   \<exists>c' socks. repl ar std cat ep qs k (concat (map qu_lines queries)) [] c = (Goodbye, goodbye (prompt [] c'), socks)
     \<and> list_all2 (sent ar) queries socks \<and> answered ar queries c c'"
proof (induction queries arbitrary: k c)
  case Nil
  show ?case by (simp add: repl.simps(1))
next
  case (Cons q queries)
  then have all: "answersAt ar std cat ep (qs k) q" "\<forall>i<length queries. answersAt ar std cat ep (qs (Suc k + i)) (queries ! i)"
    by (simp_all add: All_less_Suc2)
  then obtain m cs' where q: "entered (qu_lines q) [] = Some (qu_sql q, qu_prompts q)" "parse (qu_sql q) = Inr (qu_stmt q)"
    "executeQuery ar std (fst (qs k)) cat ep (snd (qs k)) (qu_sql q) (fold prompt (qu_prompts q) c) = (Inr (), shown ar q m c, Some cs')"
    and out: "sent ar q (Some cs')" unfolding answersAt_def sent_def by blast
  obtain c' socks where "repl ar std cat ep qs (Suc k) (concat (map qu_lines queries)) [] (shown ar q m c) =
      (Goodbye, goodbye (prompt [] c'), socks)" "list_all2 (sent ar) queries socks" "answered ar queries (shown ar q m c) c'"
    using Cons.IH [OF all(2)] by blast
  with repl_entered [where qs = qs and k = k, OF q, of "concat (map qu_lines queries)"] out show ?case by auto
qed

text \<open>The text before the first prompt.\<close>

definition greeting :: "'ct Fhe \<Rightarrow> ClientArgs \<Rightarrow> Console" where
  "greeting F a = put (''[Client] FHE context loaded: paramSetId='' @ fhe_paramSetId F
     @ '' slotCount='' @ show_nat (fhe_slotCount F) @ nl
     @ ''[Client] Server: '' @ ca_host a @ '':'' @ show_nat (unat (ca_port a)) @ nl
     @ ''[Client] Type SQL queries. '' @ [quote] @ ''exit'' @ [quote] @ '' or Ctrl-D to quit.'' @ nl @ nl) emptyConsole"

text \<open>The client's \<open>main\<close> up to the terminal loop.\<close>

definition connects :: "'ct ClientEnv \<Rightarrow> string list \<Rightarrow> ClientArgs \<Rightarrow> (nat \<Rightarrow> 'ct Fhe) \<Rightarrow> bool" where
  "connects env argv a Fs \<longleftrightarrow> clientArgs argv defaultClientArgs = Run a \<and> \<not> ca_setup a
     \<and> ce_exists env (ca_keysDir a) \<and> ce_loadContext env (ca_keysDir a) = Inr Fs"

lemma connects_session:
  "connects env argv a Fs \<Longrightarrow> clientMain ar std env argv =
     (let (r, c, ss) = repl ar std makeEmployeesCatalog \<lparr>ep_host = ca_host a, ep_port = ca_port a\<rparr>
        (\<lambda>k. (Fs k, ce_worlds env k)) 0 (ce_lines env) [] (greeting (Fs 0) a) in Session r c ss)"
  by (simp add: connects_def clientMain_def greeting_def emptyConsole_def Let_def)

text \<open>Both programs hold the keys of one setup: the contexts differ in the randomness of the
  encryption and in the private key only.\<close>

definition sameKeys :: "'ct Fhe \<Rightarrow> (nat \<Rightarrow> 'ct Fhe) \<Rightarrow> bool" where
  "sameKeys F Fs \<longleftrightarrow> (\<forall>k. \<exists>e d. Fs k = rekeyed e d F)"

lemma sameKeys_handler:
  assumes "sameKeys F Fs"
  shows "handler (Fs k) P cat (fhe_paramSetId (Fs k)) = handler F P cat (fhe_paramSetId F)"
proof -
  obtain e d where k: "Fs k = rekeyed e d F" using assms unfolding sameKeys_def by blast
  show ?thesis by (rule ext) (simp add: k handler_rekeyed)
qed

lemma programs_answer:
  assumes server: "starts env sargv F P" "length (accepted (se_events env)) = length queries"
    and client: "connects cenv cargv a Fs" "sameKeys F Fs" "ce_lines cenv = concat (map qu_lines queries)"
    and ar: "archive_laws ar"
    and queries: "\<forall>k<length queries. queryReady ar (Fs k) P makeEmployeesCatalog (ce_worlds cenv k) (queries ! k)
       \<and> asked ar (queries ! k) (accepted (se_events env) ! k)"
  shows "\<exists>socks. serverMain ar std env sargv = Some (Run (after (se_events env) socks)) \<and> length socks = length queries
     \<and> ((\<forall>k<length queries. heard (ce_worlds cenv k) (socks ! k)) \<longrightarrow>
        (\<exists>c socks'. clientMain ar std' cenv cargv = Session Goodbye (goodbye (prompt [] c)) socks'
          \<and> list_all2 (sent ar) queries socks' \<and> answered ar queries (greeting (Fs 0) a) c))"
proof -
  let ?h = "handler F P makeEmployeesCatalog (fhe_paramSetId F)" and ?ss = "accepted (se_events env)"
  have h: "handler (Fs k) P makeEmployeesCatalog (fhe_paramSetId (Fs k)) = ?h" for k
    by (rule sameKeys_handler [OF client(2)])
  have "\<exists>s'. handleClient ar std ?h (?ss ! k) = Some s'" if "k < length queries" for k
    using queries that ready_served [OF _ ar, of "Fs k" P makeEmployeesCatalog, unfolded h] by blast
  then have "\<forall>s\<in>set ?ss. \<exists>s'. handleClient ar std ?h s = Some s'"
    using server(2) by (metis in_set_conv_nth)
  from serve_each [OF this] obtain socks where run: "serveLoop ar std ?h (se_events env) = Some (after (se_events env) socks)"
    and each: "list_all2 (\<lambda>s t. \<exists>s'. handleClient ar std ?h s = Some s' \<and> t = closeFd s') ?ss socks" by blast
  have "\<exists>c socks'. clientMain ar std' cenv cargv = Session Goodbye (goodbye (prompt [] c)) socks'
      \<and> list_all2 (sent ar) queries socks' \<and> answered ar queries (greeting (Fs 0) a) c"
    if wires: "\<forall>k<length queries. heard (ce_worlds cenv k) (socks ! k)"
  proof -
    have "answersAt ar std' makeEmployeesCatalog ep (Fs k, ce_worlds cenv k) (queries ! k)" if k: "k < length queries" for k ep
    proof -
      obtain s' where s': "handleClient ar std ?h (?ss ! k) = Some s'" "socks ! k = closeFd s'"
        using list_all2_nthD [OF each] k server(2) by auto
      then have "heard (ce_worlds cenv k) s'" using wires k by (auto simp: heard_def closeFd_def)
      with ready_shown [OF _ ar _ this s'(1) [folded h [of k]]] queries k show ?thesis
        by (fastforce simp: answersAt_def queryReady_def)
    qed
    then have "\<forall>i<length queries. answersAt ar std' makeEmployeesCatalog \<lparr>ep_host = ca_host a, ep_port = ca_port a\<rparr>
        ((\<lambda>k. (Fs k, ce_worlds cenv k)) (0 + i)) (queries ! i)" by simp
    from session_shown [OF this, of "greeting (Fs 0) a"] show ?thesis
      unfolding connects_session [OF client(1)] client(3) by force
  qed
  with run list_all2_lengthD [OF each] server show ?thesis by (intro exI [of _ socks]) (simp add: starts_serves)
qed

section \<open>A sample session\<close>

text \<open>The query on ages, typed on one line and then on two with a blank line between.\<close>

definition ageTyped :: "string list \<Rightarrow> string list \<Rightarrow> Query" where
  "ageTyped ls ps = \<lparr>qu_lines = ls, qu_prompts = ps, qu_sql = ageSQL @ '';'', qu_stmt = ageStmt, qu_schema = employeesSchema,
     qu_plan = agePlan, qu_pkg = agePackage,
     qu_rows = answerRows ageStmt employeesSchema [''age''] sampleStored (\<lambda>_. sampleRows)\<rparr>"

definition ageQueries :: "Query list" where
  "ageQueries = [ageTyped [ageSQL @ ''; ''] [[]],
     ageTyped [''SELECT age FROM employees'', [], ''ORDER BY age DESC LIMIT 2;'']
       [[], ''SELECT age FROM employees'', ''SELECT age FROM employees'']]"

lemma age_typed:
  "q \<in> set ageQueries \<Longrightarrow> entered (qu_lines q) [] = Some (qu_sql q, qu_prompts q)"
proof -
  have "\<forall>q\<in>set ageQueries. entered (qu_lines q) [] = Some (qu_sql q, qu_prompts q)"
    unfolding ageQueries_def ageTyped_def by code_simp
  then show "q \<in> set ageQueries \<Longrightarrow> entered (qu_lines q) [] = Some (qu_sql q, qu_prompts q)" by blast
qed

lemma age_terminated: "parse (ageSQL @ '';'') = Inr ageStmt"
  by code_simp

lemma age_ready:
  assumes "q \<in> set ageQueries"
  shows "queryReady unaryArchive plainFhe sampleProto1 makeEmployeesCatalog (sampleWorld c) q"
proof -
  have q: "qu_sql q = ageSQL @ '';''" "qu_stmt q = ageStmt" "qu_schema q = employeesSchema" "qu_plan q = agePlan"
    "qu_pkg q = agePackage" "qu_rows q = answerRows ageStmt employeesSchema [''age''] sampleStored (\<lambda>_. sampleRows)"
    using assms by (auto simp: ageQueries_def ageTyped_def)
  have "fitsIndices agePackage" by (simp add: fitsIndices_def agePackage_def packageOf_def startState_def)
  moreover have "pp_projectColumns agePlan = [''age'']" by (simp add: agePlan_def)
  then have "tableRows plainFhe sampleProto1 makeEmployeesCatalog ageStmt employeesSchema (pp_projectColumns agePlan) (qu_rows q)"
    unfolding tableRows_def q using age_answerable by metis
  ultimately show ?thesis
    unfolding queryReady_def using age_typed [OF assms]
    by (simp add: q age_terminated age_accepted age_prepared age_handled age_fits)
qed

definition ageServer :: "ServerEvent list \<Rightarrow> (int list, plainExpr, int list EncBatch list) ServerEnv" where
  "ageServer events = (sampleEnv events)\<lparr>se_loadContext := (\<lambda>_. Inr plainFhe), se_openStorage := (\<lambda>_. Inr sampleProto1)\<rparr>"

definition ageClient :: "ConnectOutcome \<Rightarrow> int list ClientEnv" where
  "ageClient c = \<lparr>ce_exists = (\<lambda>_. True), ce_calls = (\<lambda>_. None), ce_sourceDir = [], ce_tmpDir = [],
     ce_loadContext = (\<lambda>_. Inr (\<lambda>_. plainFhe)), ce_worlds = (\<lambda>_. sampleWorld c), ce_lines = concat (map qu_lines ageQueries)\<rparr>"

lemma age_programs:
  "starts (ageServer events) [] plainFhe sampleProto1" "se_events (ageServer events) = events"
  "connects (ageClient c) [] defaultClientArgs (\<lambda>_. plainFhe)" "sameKeys plainFhe (\<lambda>_. plainFhe)"
proof -
  have "plainFhe = rekeyed (fhe_encrypt plainFhe) (fhe_decrypt plainFhe) plainFhe" by (simp add: rekeyed_def)
  then show "sameKeys plainFhe (\<lambda>_. plainFhe)" unfolding sameKeys_def by blast
qed (simp_all add: starts_def connects_def ageServer_def sampleEnv_def ageClient_def serverArgs.simps clientArgs.simps
    defaultClientArgs_def)

section \<open>Properties\<close>

text \<open>C1: the two programs together are a SQL terminal over the plaintext tables.  The
  server's \<open>main\<close> and the client's \<open>main\<close> run with the keys of one setup, and the user types queries
  over one table or two, each on as many lines as they like.  The server serves the requests one
  after the other and is in \<open>accept\<close> again (unless it was stopped); when what it writes reaches the client, the session ends normally, has
  sent one request per query, and has shown after each query the prompts, the report and the table
  of the matching rows of the plaintext tables, sorted and cut as the statement says.\<close>

theorem system_session:
  assumes server: "starts env sargv F P" "length (accepted (se_events env)) = length queries"
    and client: "connects cenv cargv a Fs" "sameKeys F Fs" "ce_lines cenv = concat (map qu_lines queries)"
    and ar: "archive_laws ar"
    and queries: "\<forall>k<length queries. queryReady ar (Fs k) P makeEmployeesCatalog (ce_worlds cenv k) (queries ! k)
       \<and> asked ar (queries ! k) (accepted (se_events env) ! k)"
  shows "\<exists>socks. serverMain ar std env sargv = Some (Run (after (se_events env) socks)) \<and> length socks = length queries
     \<and> ((\<forall>k<length queries. heard (ce_worlds cenv k) (socks ! k)) \<longrightarrow>
        (\<exists>c socks'. clientMain ar std' cenv cargv = Session Goodbye (goodbye (prompt [] c)) socks'
          \<and> list_all2 (sent ar) queries socks' \<and> answered ar queries (greeting (Fs 0) a) c))"
  using assms by (rule programs_answer)

theorem system_session_witness:
  "\<exists>c socks' conn. clientMain unaryArchive (\<lambda>_. []) (ageClient conn) [] = Session Goodbye (goodbye (prompt [] c)) socks'
     \<and> answered unaryArchive ageQueries (greeting plainFhe defaultClientArgs) c \<and> length socks' = 2"
proof -
  let ?h = "handler plainFhe sampleProto1 makeEmployeesCatalog (fhe_paramSetId plainFhe)"
  have f: "sizedPackage agePackage" "length (serializePackage unaryArchive agePackage) < 2 ^ 32"
    using age_fits by (simp_all add: fitsFrames_def)
  have h: "\<exists>r. ?h agePackage = Some r" using age_handled by blast
  obtain cs c' ss ss' r got where wire: "patient cs" "patient ss" "so_out cs = []" "so_out ss = []"
    "sendQuery unaryArchive (Inr cs) agePackage [] = (r, got, Some c')"
    "handleClient unaryArchive (\<lambda>_. []) ?h ss = Some ss'"
    "so_in ss = request unaryArchive agePackage" "so_in cs = so_out ss'"
    by (rule wired_runs [where handler = ?h and std = "\<lambda>_. []", OF h f unaryArchive_laws])
  let ?env = "ageServer [Connected ss, AcceptFailed, Connected ss]" and ?cenv = "ageClient (Opened cs)"
  have run: "serverMain unaryArchive (\<lambda>_. []) ?env [] = Some (Run (Serving [closeFd ss', closeFd ss']))"
    by (simp add: starts_serves [OF age_programs(1)] age_programs(2) wire(6))
  have two: "length ageQueries = 2" "\<And>k. k < 2 \<Longrightarrow> qu_pkg (ageQueries ! k) = agePackage"
    by (auto simp: ageQueries_def ageTyped_def less_2_cases_iff)
  have w: "ce_worlds ?cenv k = sampleWorld (Opened cs)" for k by (simp add: ageClient_def)
  have len: "length (accepted (se_events ?env)) = length ageQueries" by (simp add: age_programs(2) two)
  have ls: "ce_lines ?cenv = concat (map qu_lines ageQueries)" by (simp add: ageClient_def)
  have ready: "\<forall>k<length ageQueries. queryReady unaryArchive plainFhe sampleProto1 makeEmployeesCatalog (ce_worlds ?cenv k) (ageQueries ! k)
       \<and> asked unaryArchive (ageQueries ! k) (accepted (se_events ?env) ! k)"
    unfolding w using two wire(2,4,7) by (auto simp: age_ready asked_def age_programs(2) less_2_cases_iff)
  have "\<forall>k<length ageQueries. heard (ce_worlds ?cenv k) ([closeFd ss', closeFd ss'] ! k)"
    unfolding w two using wire(1,3,8) by (auto simp: heard_def closeFd_def sampleWorld_def less_2_cases_iff)
  moreover from system_session [OF age_programs(1) len age_programs(3,4) ls unaryArchive_laws ready,
      where std = "\<lambda>_. []" and std' = "\<lambda>_. []"] obtain socks where
    "serverMain unaryArchive (\<lambda>_. []) ?env [] = Some (Run (after (se_events ?env) socks))"
    "(\<forall>k<length ageQueries. heard (ce_worlds ?cenv k) (socks ! k)) \<longrightarrow>
      (\<exists>c socks'. clientMain unaryArchive (\<lambda>_. []) ?cenv [] = Session Goodbye (goodbye (prompt [] c)) socks'
        \<and> list_all2 (sent unaryArchive) ageQueries socks' \<and> answered unaryArchive ageQueries (greeting plainFhe defaultClientArgs) c)"
    by blast
  moreover from this(1) run have "socks = [closeFd ss', closeFd ss']" by (simp add: age_programs(2))
  ultimately show ?thesis using two(1) by (fastforce dest: list_all2_lengthD)
qed

end
