(* ===== verification/Hega_Plain.thy ===== *)
theory Hega_Plain
  imports Hega_EndToEnd
begin

text \<open>
  The plaintext reference of the client (\<open>client/client_main.cpp\<close>, the block that is disabled until
  it covers every query shape): the employees as C++ data and the SELECT evaluated on them.  It is
  the authors' own statement of what a query means; the encrypted path is proved equal to it on the
  shapes it covers.
\<close>

section \<open>Definitions\<close>

record PlainRow =
  pr_id :: int
  pr_age :: int
  pr_salary :: int
  pr_department_id :: int
  pr_name :: string

definition plainRow :: "int \<Rightarrow> int \<Rightarrow> int \<Rightarrow> int \<Rightarrow> string \<Rightarrow> PlainRow" where
  "plainRow i a s d n = \<lparr>pr_id = i, pr_age = a, pr_salary = s, pr_department_id = d, pr_name = n\<rparr>"

definition PLAIN_DATA :: "PlainRow list" where
  "PLAIN_DATA =
     [plainRow 1 2 5 1 ''Alice'', plainRow 2 3 6 1 ''Bob'', plainRow 3 4 7 2 ''Carol'',
      plainRow 4 5 8 2 ''David'', plainRow 5 6 9 3 ''Eve'', plainRow 6 7 10 3 ''Frank'',
      plainRow 7 8 11 4 ''Grace'', plainRow 8 9 12 4 ''Heidi'', plainRow 9 10 13 5 ''Ivan'',
      plainRow 10 11 14 5 ''Judy'', plainRow 11 21 13 2 ''Karl'']"

definition getField :: "PlainRow \<Rightarrow> string \<Rightarrow> int result" where
  "getField r col =
     (if col = ''id'' then Inr (pr_id r)
      else if col = ''age'' then Inr (pr_age r)
      else if col = ''salary'' then Inr (pr_salary r)
      else if col = ''department_id'' then Inr (pr_department_id r)
      else Inl (RuntimeError (''Unknown column: '' @ col)))"

definition getStringField :: "PlainRow \<Rightarrow> string \<Rightarrow> string result" where
  "getStringField r col =
     (if col = ''name'' then Inr (pr_name r) else Inl (RuntimeError (''Unknown string column: '' @ col)))"

text \<open>The \<open>intValue\<close> of a node, 0 where the kind has none.\<close>

fun intValueOf :: "ASTExpr \<Rightarrow> int" where
  "intValueOf (IntLiteral v) = v"
| "intValueOf e = 0"

fun evalPlain :: "ASTExpr \<Rightarrow> PlainRow \<Rightarrow> bool result" where
  "evalPlain (Comparison k l r) row =
     (let column = (if isColumn l then l else r); literal = (if isString l then l else r) in
      if (k = Equal \<or> k = NotEqual) \<and> isColumn column \<and> isString literal
      then bindE (getStringField row (columnNameOf column)) (\<lambda>v.
             let equal = (v = stringValueOf literal) in Inr (if k = Equal then equal else \<not> equal))
      else bindE (getField row (columnNameOf l)) (\<lambda>v. Inr (cmpInt k v (intValueOf r))))"
| "evalPlain (And l r) row = bindE (evalPlain l row) (\<lambda>a. if a then evalPlain r row else Inr False)"
| "evalPlain (Or l r) row = bindE (evalPlain l row) (\<lambda>a. if a then Inr True else evalPlain r row)"
| "evalPlain (NotExpr e) row = bindE (evalPlain e row) (\<lambda>a. Inr (\<not> a))"
| "evalPlain _ row = Inl (RuntimeError ''evalPlain: unsupported kind'')"

definition plainStep :: "PlainRow \<Rightarrow> string \<Rightarrow> ResultRow \<Rightarrow> ResultRow result" where
  "plainStep row c r =
     (if c = ''name'' then Inr (r\<lparr>rr_stringValues := (rr_stringValues r)(c \<mapsto> pr_name row)\<rparr>)
      else bindE (getField row c) (\<lambda>v. Inr (r\<lparr>rr_values := (rr_values r)(c \<mapsto> v)\<rparr>)))"

definition plainResult :: "SelectStatement \<Rightarrow> PlainRow \<Rightarrow> ResultRow result" where
  "plainResult stmt row =
     (if st_projections stmt = []
      then Inr \<lparr>rr_values = Map.empty(''id'' \<mapsto> pr_id row, ''age'' \<mapsto> pr_age row, ''salary'' \<mapsto> pr_salary row,
                  ''department_id'' \<mapsto> pr_department_id row),
                rr_stringValues = Map.empty(''name'' \<mapsto> pr_name row)\<rparr>
      else foldE (plainStep row) (st_projections stmt) \<lparr>rr_values = Map.empty, rr_stringValues = Map.empty\<rparr>)"

definition plainScan :: "SelectStatement \<Rightarrow> PlainRow list \<Rightarrow> ResultRow list result" where
  "plainScan stmt rows =
     foldE (\<lambda>row result.
       bindE (case st_whereClause stmt of None \<Rightarrow> Inr True | Some e \<Rightarrow> evalPlain e row) (\<lambda>keep.
       if \<not> keep then Inr result
       else bindE (plainResult stmt row) (\<lambda>r. Inr (result @ [r])))) rows []"

definition executePlaintext :: "SelectStatement \<Rightarrow> ResultRow list result" where
  "executePlaintext stmt =
     bindE (plainScan stmt PLAIN_DATA) (\<lambda>result.
       Inr (applySortAndLimit result (st_orderByColumns stmt) (st_limitCount stmt)))"

section \<open>The shapes the reference covers\<close>

text \<open>A comparison reads its column on the left and an integer on the right; text is compared with
  \<open>=\<close> and \<open>!=\<close> only.\<close>

fun referenceClause :: "ASTExpr \<Rightarrow> bool" where
  "referenceClause (Comparison k l r) \<longleftrightarrow>
     (if stringComparison l r then k = Equal \<or> k = NotEqual else isColumn l \<and> isInt r)"
| "referenceClause (And l r) \<longleftrightarrow> referenceClause l \<and> referenceClause r"
| "referenceClause (Or l r) \<longleftrightarrow> referenceClause l \<and> referenceClause r"
| "referenceClause (NotExpr e) \<longleftrightarrow> referenceClause e"
| "referenceClause _ \<longleftrightarrow> False"

text \<open>The rows of the reference carry the selected columns only, so ORDER BY must be among them.\<close>

definition referenceQuery :: "SelectStatement \<Rightarrow> bool" where
  "referenceQuery s \<longleftrightarrow> (case st_whereClause s of None \<Rightarrow> True | Some e \<Rightarrow> referenceClause e)
     \<and> ob_columnName ` set (st_orderByColumns s) \<subseteq> set (outputColumns s employeesSchema)"

definition plainOf :: "Rows \<Rightarrow> nat \<Rightarrow> PlainRow" where
  "plainOf R i = plainRow (rw_int R ''id'' i) (rw_int R ''age'' i) (rw_int R ''salary'' i)
     (rw_int R ''department_id'' i) (rw_string R ''name'' i)"

text \<open>The slots of a stored table in the order of the scan, and the table of the reference.\<close>

definition slots :: "'ct StoredTable \<Rightarrow> (nat \<times> nat) list" where
  "slots st = concat (map (\<lambda>k. map (Pair k) [0..<sto_rows st k]) [0..<sto_count st])"

definition storesPlain :: "'ct StoredTable \<Rightarrow> (nat \<Rightarrow> Rows) \<Rightarrow> bool" where
  "storesPlain st R \<longleftrightarrow> map (\<lambda>(k, i). plainOf (R k) i) (slots st) = PLAIN_DATA"

section \<open>One row\<close>

lemma employees_columns:
  "columnOpt employeesSchema n = Some cs \<longleftrightarrow>
     cs_name cs = n \<and> (n \<in> {''id'', ''age'', ''salary'', ''department_id''} \<and> cs_type cs = INT64 \<and> cs_maxLength cs = 0
       \<or> n = ''name'' \<and> cs_type cs = STRING \<and> cs_maxLength cs = 16)"
proof -
  have "columnOpt employeesSchema n =
      (if n \<in> {''id'', ''age'', ''salary'', ''department_id''} then Some \<lparr>cs_name = n, cs_type = INT64, cs_maxLength = 0\<rparr>
       else if n = ''name'' then Some \<lparr>cs_name = n, cs_type = STRING, cs_maxLength = 16\<rparr> else None)"
    by (simp add: columnOpt_def employeesSchema_def)
  then show ?thesis by (cases cs) auto
qed

lemma getField_int:
  "columnOpt employeesSchema n = Some cs \<Longrightarrow> cs_type cs \<noteq> STRING \<Longrightarrow> getField (plainOf R i) n = Inr (rw_int R n i)"
  by (auto simp: employees_columns getField_def plainOf_def plainRow_def)

lemma getStringField_text:
  "columnOpt employeesSchema n = Some cs \<Longrightarrow> cs_type cs = STRING \<Longrightarrow> n = ''name'' \<and> getStringField (plainOf R i) ''name'' = Inr (rw_string R ''name'' i)"
  by (auto simp: employees_columns getStringField_def plainOf_def plainRow_def)

lemma evalPlain_matches:
  "referenceClause e \<Longrightarrow> clauseFits employeesSchema e \<Longrightarrow> evalPlain e (plainOf R i) = Inr (rowMatches R i e)"
proof (induction e)
  case (Comparison k l r)
  show ?case
  proof (cases "stringComparison l r")
    case True
    with Comparison.prems obtain cs where cs: "columnOpt employeesSchema (stringColumn l r) = Some cs" "cs_type cs = STRING"
      by (auto split: option.splits)
    from True have "isColumn (if isColumn l then l else r)" "isString (if isString l then l else r)"
      by (auto simp: stringComparison_def)
    moreover have "columnNameOf (if isColumn l then l else r) = stringColumn l r"
      "stringValueOf (if isString l then l else r) = stringLiteral l r"
      by (simp_all add: stringColumn_def stringLiteral_def)
    ultimately show ?thesis
      using True Comparison.prems(1) getStringField_text [OF cs, of R i] by (auto simp: Let_def)
  next
    case False
    with Comparison.prems obtain n v where "l = ColumnRef n" "r = IntLiteral v"
      by (cases l; cases r) auto
    with False Comparison.prems(2) getField_int [of n] show ?thesis
      by (auto simp: Let_def split: option.splits)
  qed
qed (auto split: if_splits)

lemma map_of_self: "map_of (map (\<lambda>x. (x, f x)) xs) n = (if n \<in> set xs then Some (f n) else None)"
  by (induction xs) auto

lemma plainStep_row:
  assumes "columnOpt employeesSchema c = Some cs"
  shows "plainStep (plainOf R i) c r =
     Inr (if cs_type cs = STRING then r\<lparr>rr_stringValues := (rr_stringValues r)(c \<mapsto> rw_string R c i)\<rparr>
          else r\<lparr>rr_values := (rr_values r)(c \<mapsto> rw_int R c i)\<rparr>)"
proof (cases "cs_type cs = STRING")
  case True
  with getStringField_text [OF assms, of R i] show ?thesis by (simp add: plainStep_def plainOf_def plainRow_def)
next
  case False
  with assms have "c \<noteq> ''name''" by (auto simp: employees_columns)
  with False getField_int [OF assms False] show ?thesis by (simp add: plainStep_def)
qed

text \<open>The two maps that the loop over the projections builds.\<close>

lemma plainSteps:
  "\<forall>n\<in>set ns. hasColumn employeesSchema n \<Longrightarrow> foldE (plainStep (plainOf R i)) ns r =
     Inr \<lparr>rr_values = (\<lambda>n. if n \<in> set ns \<and> n \<noteq> ''name'' then Some (rw_int R n i) else rr_values r n),
          rr_stringValues = (\<lambda>n. if n \<in> set ns \<and> n = ''name'' then Some (rw_string R n i) else rr_stringValues r n)\<rparr>"
proof (induction ns arbitrary: r)
  case (Cons c ns)
  then obtain cs where cs: "columnOpt employeesSchema c = Some cs" by (auto simp: hasColumn_columnOpt)
  then have "cs_type cs = STRING \<longleftrightarrow> c = ''name''" by (auto simp: employees_columns)
  with Cons cs show ?case by (auto simp: plainStep_row fun_eq_iff)
qed (simp add: fun_eq_iff)

lemma rowOf_columns:
  assumes "\<forall>n\<in>set ns. hasColumn employeesSchema n"
  shows "rowOf R (columnsOf employeesSchema ns) i =
     \<lparr>rr_values = (\<lambda>n. if n \<in> set ns \<and> n \<noteq> ''name'' then Some (rw_int R n i) else None),
      rr_stringValues = (\<lambda>n. if n \<in> set ns \<and> n = ''name'' then Some (rw_string R n i) else None)\<rparr>"
proof -
  let ?cs = "\<lambda>n. the (columnOpt employeesSchema n)"
  have c: "cs_name (?cs n) = n" "cs_type (?cs n) = STRING \<longleftrightarrow> n = ''name''" if n: "n \<in> set ns" for n
  proof -
    obtain cs where "columnOpt employeesSchema n = Some cs" using assms n by (auto simp: hasColumn_columnOpt)
    moreover from this have "cs_name cs = n" "cs_type cs = STRING \<longleftrightarrow> n = ''name''" by (auto simp: employees_columns)
    ultimately show "cs_name (?cs n) = n" "cs_type (?cs n) = STRING \<longleftrightarrow> n = ''name''" by simp_all
  qed
  have f: "filter (\<lambda>n. cs_type (?cs n) \<noteq> STRING) ns = filter (\<lambda>n. n \<noteq> ''name'') ns"
    "filter (\<lambda>n. cs_type (?cs n) = STRING) ns = filter (\<lambda>n. n = ''name'') ns"
    using c(2) by (auto intro: filter_cong)
  have "intNames (columnsOf employeesSchema ns) = filter (\<lambda>n. n \<noteq> ''name'') ns"
    "map fst (stringNames (columnsOf employeesSchema ns)) = filter (\<lambda>n. n = ''name'') ns"
    using c(1) by (auto simp: intNames_def stringNames_def columnsOf_def filter_map o_def f intro: map_idI)
  note names = this
  have "map (\<lambda>c. (fst c, rw_string R (fst c) i)) (stringNames (columnsOf employeesSchema ns)) =
      map (\<lambda>n. (n, rw_string R n i)) (map fst (stringNames (columnsOf employeesSchema ns)))" by simp
  note texts = this [unfolded names]
  show ?thesis unfolding rowOf_def names texts map_of_self set_filter mem_Collect_eq by (rule refl)
qed

lemma plainResult_row:
  assumes "\<forall>n\<in>set (st_projections s). hasColumn employeesSchema n"
  shows "plainResult s (plainOf R i) = Inr (rowOf R (columnsOf employeesSchema (outputColumns s employeesSchema)) i)"
proof (cases "st_projections s = []")
  case True
  let ?ns = "[''id'', ''age'', ''salary'', ''department_id'', ''name'']"
  have "outputColumns s employeesSchema = ?ns" using True by (simp add: outputColumns_def employeesSchema_def)
  moreover have "\<forall>n\<in>set ?ns. hasColumn employeesSchema n" by (simp add: hasColumn_iff employeesSchema_def)
  ultimately show ?thesis
    using True by (simp add: plainResult_def rowOf_columns fun_eq_iff plainOf_def plainRow_def)
next
  case False
  with assms show ?thesis by (auto simp: plainResult_def outputColumns_def rowOf_columns plainSteps)
qed

section \<open>The whole table\<close>

lemma plainScan_rows:
  assumes "\<forall>y\<in>set ys. (case st_whereClause s of None \<Rightarrow> Inr True | Some e \<Rightarrow> evalPlain e (h y)) = Inr (Q y)"
    and "\<forall>y\<in>set ys. plainResult s (h y) = Inr (g y)"
  shows "plainScan s (map h ys) = Inr (map g (filter Q ys))"
proof -
  let ?step = "\<lambda>row result. bindE (case st_whereClause s of None \<Rightarrow> Inr True | Some e \<Rightarrow> evalPlain e row) (\<lambda>keep.
       if \<not> keep then Inr result else bindE (plainResult s row) (\<lambda>r. Inr (result @ [r])))"
  have "foldE ?step (map h ys) acc = Inr (acc @ map g (filter Q ys))" for acc
    using assms by (induction ys arbitrary: acc) auto
  then show ?thesis by (simp add: plainScan_def)
qed

lemma answerRows_slots:
  "answerRows s t names st R =
     map (\<lambda>(k, i). rowOf (R k) (columnsOf t names) i) (filter (\<lambda>(k, i). selectedBy s (R k) i) (slots st))"
  by (simp add: answerRows_def slots_def filter_concat map_concat filter_map o_def)

lemma reference_answer:
  assumes "\<forall>n\<in>set (st_projections s). hasColumn employeesSchema n" "referenceQuery s" "storesPlain st R"
    and "case st_whereClause s of None \<Rightarrow> True | Some e \<Rightarrow> clauseFits employeesSchema e"
  shows "executePlaintext s = Inr (applySortAndLimit
     (answerRows s employeesSchema (outputColumns s employeesSchema) st R) (st_orderByColumns s) (st_limitCount s))"
proof -
  have "(case st_whereClause s of None \<Rightarrow> Inr True | Some e \<Rightarrow> evalPlain e (plainOf R i)) = Inr (selectedBy s R i)" for R i
    using assms(2,4) by (auto simp: referenceQuery_def selectedBy_def evalPlain_matches split: option.splits)
  then have "plainScan s (map (\<lambda>(k, i). plainOf (R k) i) (slots st)) =
      Inr (answerRows s employeesSchema (outputColumns s employeesSchema) st R)"
    unfolding answerRows_slots using plainResult_row [OF assms(1)] by (intro plainScan_rows) auto
  with assms(3) show ?thesis by (simp add: executePlaintext_def storesPlain_def)
qed

text \<open>Then nothing is projected beyond the selected columns.\<close>

lemma plan_output:
  assumes "planStatement s t = Inr plan" "wfSchema t" "distinct (st_projections s)" "st_joins s = []"
    and "ob_columnName ` set (st_orderByColumns s) \<subseteq> set (outputColumns s t)"
  shows "pp_projectColumns plan = outputColumns s t"
proof -
  obtain pp where "planStatement s t = Inr pp" "planFor s t pp" using plan_meets_spec [of s t] assms(4) by auto
  with assms(1) have pf: "planFor s t plan" by simp
  then obtain extra where "pp_projectColumns plan = outputColumns s t @ extra" unfolding planFor_def by blast
  moreover from pf have "set (pp_projectColumns plan) = set (outputColumns s t) \<union> ob_columnName ` set (st_orderByColumns s)"
    by (simp add: planFor_def)
  ultimately have e: "pp_projectColumns plan = outputColumns s t @ extra"
    "set (pp_projectColumns plan) = set (outputColumns s t)" using assms(5) by auto
  have "distinct (outputColumns s t @ extra)" using plan_distinct [OF assms(1-3)] e(1) by simp
  with e have "extra = []" by (cases extra) auto
  with e(1) show ?thesis by simp
qed

lemma reference_agrees:
  assumes a: "analyze makeEmployeesCatalog s = Inr employeesSchema"
    and ok: "answerable F P makeEmployeesCatalog depth S st R s employeesSchema"
    and p: "preparePackage F makeEmployeesCatalog w s employeesSchema = Inr (plan, pkg)" "fitsIndices pkg"
    and data: "storesPlain st R" "referenceQuery s"
  shows "\<exists>rs rows. handler F P makeEmployeesCatalog (fhe_paramSetId F) pkg = Some (Inr rs) \<and> decodeBatches F rs = Inr rows
     \<and> executePlaintext s = Inr (applySortAndLimit rows (st_orderByColumns s) (st_limitCount s))"
proof -
  have u: "unqualified s" "distinct (st_projections s)"
    and clause: "case st_whereClause s of None \<Rightarrow> True | Some e \<Rightarrow> clauseFits employeesSchema e"
    using ok by (auto simp: answerable_def split: option.splits)
  have wf: "wfSchema employeesSchema" and t: "cat_tables makeEmployeesCatalog (st_tableName s) = Some employeesSchema"
    and sok: "statementOk makeEmployeesCatalog s"
    using a makeEmployeesCatalog_wf by (auto simp: analyze_accepts wfCatalog_def)
  have cols: "\<forall>n\<in>set (st_projections s). hasColumn employeesSchema n"
    using unqualified_columns [OF sok u(1) t wf] by (cases "st_projections s = []") (auto simp: outputColumns_def)
  from p(1) have "planStatement s employeesSchema = Inr plan" by (auto simp: preparePackage_def bindE_eq_Inr)
  then have "pp_projectColumns plan = outputColumns s employeesSchema"
    using plan_output [OF _ wf u(2)] u(1) data(2) by (simp add: unqualified_def referenceQuery_def)
  with query_answered [OF a ok p] reference_answer [OF cols data(2,1) clause] show ?thesis by auto
qed

section \<open>The reference table, stored\<close>

text \<open>One row per chunk, as the setup ingests it; the unused slots repeat the row.\<close>

definition plainRows :: "nat \<Rightarrow> Rows" where
  "plainRows k = \<lparr>rw_int = (\<lambda>n _. case getField (PLAIN_DATA ! k) n of Inl _ \<Rightarrow> 0 | Inr v \<Rightarrow> v),
     rw_string = (\<lambda>_ _. pr_name (PLAIN_DATA ! k))\<rparr>"

definition plainStored :: "int list StoredTable" where
  "plainStored = \<lparr>sto_count = 11, sto_columns = (\<lambda>k c. Some \<lparr>ch_logicalRowCount = 1,
     ch_ciphertexts = [if c \<in> {''id'', ''age'', ''salary'', ''department_id''} then map (rw_int (plainRows k) c) [0..<4]
       else map (\<lambda>i. charAt (rw_string (plainRows k) ''name'' i) (length c - 5)) [0..<4]]\<rparr>),
     sto_rows = (\<lambda>_. 1)\<rparr>"

definition plainTable :: "(int list, plainExpr, int list EncBatch list) Proto1" where
  "plainTable = plainProto1\<lparr>p1_tableScan := (\<lambda>_ cols. map (scanBatch plainStored cols) [0..<11])\<rparr>"

lemma plain_operators: "operator_law plainTable table plainStored"
proof -
  have "sto_count plainStored = 11" by (simp add: plainStored_def)
  then show ?thesis
    by (auto simp: operator_law_def plainTable_def plainProto1_def projected_def scanBatch_def o_def fun_eq_iff)
qed

lemma plain_expressions: "expr_law plainFhe plainTable depth b (plainSem b)"
  using plain_expr_law [of depth b] by (simp add: expr_law_def leaf_law_def eval_law_def plainTable_def)

lemma plain_slots: "slots plainStored = map (\<lambda>k. (k, 0)) [0..<11]"
  by (simp add: slots_def plainStored_def concat_map_singleton)

lemma plain_stores: "storesPlain plainStored plainRows"
  unfolding storesPlain_def plain_slots by code_simp

lemma PLAIN_DATA_length: "length PLAIN_DATA = 11"
  by (simp add: PLAIN_DATA_def)

lemma plain_range:
  assumes "k < 11"
  shows "textOk 16 (rw_string (plainRows k) n i)" "small (rw_int (plainRows k) m i)"
proof -
  have "\<forall>r\<in>set PLAIN_DATA. textOk 16 (pr_name r) \<and> small (pr_id r) \<and> small (pr_age r) \<and> small (pr_salary r) \<and> small (pr_department_id r)"
    by (simp add: PLAIN_DATA_def plainRow_def textOk_def small_def code_def)
  moreover have "PLAIN_DATA ! k \<in> set PLAIN_DATA" using assms by (simp add: PLAIN_DATA_length)
  ultimately show "textOk 16 (rw_string (plainRows k) n i)" "small (rw_int (plainRows k) m i)"
    by (auto simp: plainRows_def getField_def small_def)
qed

lemma plain_stored: "tableStored plainFhe plainTable employeesSchema plainStored plainRows"
proof -
  have slots: "fhe_slotCount plainFhe = 4" by (simp add: plainFhe_def)
  have "holds plainFhe (sto_columns plainStored k n) (rw_int (plainRows k) n)"
    if "n \<in> {''id'', ''age'', ''salary'', ''department_id''}" "k < 11" for n k
    using that plain_range by (simp add: holds_def plainStored_def plain_map slots)
  moreover have "holds plainFhe (sto_columns plainStored k (p1_stringPhysicalColumn plainTable ''name'' p))
      (\<lambda>i. charAt (rw_string (plainRows k) ''name'' i) p)" if "k < 11" for p k
    using plain_map charAt_small [OF plain_range(1) [OF that]]
    by (simp add: holds_def plainStored_def plainTable_def plainProto1_def slots)
  ultimately have "columnStored plainFhe plainTable (sto_columns plainStored k) (plainRows k) cs"
    if "cs \<in> set (ts_columns employeesSchema)" "k < 11" for k cs
    using that plain_range(1) by (auto simp: columnStored_def employeesSchema_def slots)
  then show ?thesis by (simp add: tableStored_def slots) (simp add: plainStored_def slots)
qed

text \<open>The query of the benchmark.\<close>

definition benchSQL :: string where
  "benchSQL = ''SELECT id, salary FROM employees WHERE id = 10 AND age > 3''"

definition benchStmt :: SelectStatement where
  "benchStmt = \<lparr>st_projections = [''id'', ''salary''], st_tableName = ''employees'', st_tableAlias = ''employees'', st_joins = [],
     st_whereClause = Some (And (Comparison Equal (ColumnRef ''id'') (IntLiteral 10))
       (Comparison GreaterThan (ColumnRef ''age'') (IntLiteral 3))),
     st_orderByColumns = [], st_limitCount = - 1\<rparr>"

lemma bench_parsed: "parse benchSQL = Inr benchStmt"
  by code_simp

lemma bench_accepted: "analyze makeEmployeesCatalog benchStmt = Inr employeesSchema"
  by code_simp

lemma bench_prepared:
  "\<exists>plan pkg. preparePackage plainFhe makeEmployeesCatalog (sampleWorld c) benchStmt employeesSchema = Inr (plan, pkg) \<and> fitsIndices pkg"
proof -
  have "case preparePackage plainFhe makeEmployeesCatalog (sampleWorld c) benchStmt employeesSchema of
      Inl _ \<Rightarrow> False
    | Inr (plan, pkg) \<Rightarrow> length (pk_predicateNodes pkg) < 10 \<and> length (pk_encryptedLiterals pkg) < 10"
    by (simp only: sampleWorld_def) code_simp
  then show ?thesis
    by (cases "preparePackage plainFhe makeEmployeesCatalog (sampleWorld c) benchStmt employeesSchema")
      (auto simp: fitsIndices_def)
qed

lemma bench_answerable:
  "answerable plainFhe plainTable makeEmployeesCatalog 12 plainSem plainStored plainRows benchStmt employeesSchema"
proof -
  have "unqualified benchStmt" "distinct (st_projections benchStmt)"
    by (simp_all add: unqualified_def benchStmt_def whereColumns_def hasDot_iff)
  moreover have "widthsFit employeesSchema" by (simp add: widthsFit_def employeesSchema_def)
  moreover have "case st_whereClause benchStmt of None \<Rightarrow> True
      | Some e \<Rightarrow> clauseFits employeesSchema e \<and> whereDepth employeesSchema e \<le> 12" by code_simp
  moreover have "0 < sto_count plainStored" by (simp add: plainStored_def)
  ultimately show ?thesis
    using makeEmployeesCatalog_wf plainFhe_laws plain_operators plain_expressions plain_stored
    by (simp only: answerable_def simp_thms)
qed

lemma bench_reference:
  "case executePlaintext benchStmt of Inl _ \<Rightarrow> False
   | Inr rows \<Rightarrow> map (\<lambda>r. (rr_values r ''id'', rr_values r ''salary'')) rows = [(Some 10, Some 14)]"
  by code_simp

section \<open>Properties\<close>

text \<open>C7: the encrypted execution agrees with the plaintext reference of the
  client.  When the employees of the reference are what the storage holds, a query of a shape that
  the reference covers is answered by the server, and sorting and cutting the decrypted rows gives
  exactly the rows that \<open>executePlaintext\<close> returns.\<close>

theorem plaintext_reference_agrees:
  assumes "analyze makeEmployeesCatalog s = Inr employeesSchema"
    and "answerable F P makeEmployeesCatalog depth S st R s employeesSchema"
    and "preparePackage F makeEmployeesCatalog w s employeesSchema = Inr (plan, pkg)" "fitsIndices pkg"
    and "storesPlain st R" "referenceQuery s"
  shows "\<exists>rs rows. handler F P makeEmployeesCatalog (fhe_paramSetId F) pkg = Some (Inr rs) \<and> decodeBatches F rs = Inr rows
     \<and> executePlaintext s = Inr (applySortAndLimit rows (st_orderByColumns s) (st_limitCount s))"
  using assms by (rule reference_agrees)

theorem plaintext_reference_agrees_witness:
  "\<exists>plan pkg rs rows. preparePackage plainFhe makeEmployeesCatalog (sampleWorld NotConnected) benchStmt employeesSchema = Inr (plan, pkg)
     \<and> handler plainFhe plainTable makeEmployeesCatalog (fhe_paramSetId plainFhe) pkg = Some (Inr rs) \<and> decodeBatches plainFhe rs = Inr rows
     \<and> map (\<lambda>r. (rr_values r ''id'', rr_values r ''salary'')) rows = [(Some 10, Some 14)]"
proof -
  obtain plan pkg where p: "preparePackage plainFhe makeEmployeesCatalog (sampleWorld NotConnected) benchStmt employeesSchema = Inr (plan, pkg)"
    "fitsIndices pkg" using bench_prepared by blast
  have "referenceQuery benchStmt"
    by (simp add: referenceQuery_def benchStmt_def stringComparison_def)
  from plaintext_reference_agrees [OF bench_accepted bench_answerable p plain_stores this] obtain rs rows where
    r: "handler plainFhe plainTable makeEmployeesCatalog (fhe_paramSetId plainFhe) pkg = Some (Inr rs)" "decodeBatches plainFhe rs = Inr rows"
    "executePlaintext benchStmt = Inr (applySortAndLimit rows (st_orderByColumns benchStmt) (st_limitCount benchStmt))" by blast
  have "applySortAndLimit rows (st_orderByColumns benchStmt) (st_limitCount benchStmt) = rows"
    by (simp add: applySortAndLimit_def benchStmt_def)
  with r(3) bench_reference have "map (\<lambda>r. (rr_values r ''id'', rr_values r ''salary'')) rows = [(Some 10, Some 14)]" by simp
  with p(1) r(1,2) show ?thesis by (intro exI conjI)
qed

end
