(* ===== verification/Hega_Statements.thy ===== *)
theory Hega_Statements
  imports Hega_Roundtrip
begin

text \<open>
  Whole statements: \<open>parse (stmtToSQL s) = Inr s\<close> for every canonical statement, and what
  every statement that \<open>parse\<close> returns satisfies.  The parser functions all skip white space
  first, so the text left to read is compared up to white space (\<open>stands\<close>) and each function
  has one reading lemma that the next one uses.
\<close>

section \<open>Statements parse back\<close>

text \<open>\<open>stands p r\<close>: the lexer \<open>p\<close> has \<open>r\<close> left to read, up to white space.\<close>

definition stands :: "Lexer \<Rightarrow> string \<Rightarrow> bool" where
  "stands p r \<longleftrightarrow> (\<exists>pre. skipWS p = skipWS (lxAt pre r))"

lemma stands_at: "stands (lxAt pre r) r"
  by (auto simp: stands_def)

lemma stands_skip [simp]: "stands (skipWS p) r = stands p r"
  by (simp add: stands_def)

lemma stands_space: "stands p (CHR '' '' # r) \<Longrightarrow> stands p r"
  unfolding stands_def
proof (erule exE)
  fix pre assume "skipWS p = skipWS (lxAt pre (CHR '' '' # r))"
  then have "skipWS p = skipWS (lxAt (pre @ '' '') r)" by (simp add: skipWS_at)
  then show "\<exists>pre. skipWS p = skipWS (lxAt pre r)" by blast
qed

text \<open>A function that skips white space first may be run at \<open>lxAt\<close>.\<close>

lemma standsE:
  assumes "stands p r" "\<And>p. f (skipWS p) = f p"
  obtains pre where "f p = f (lxAt pre r)"
  using assms by (metis stands_def)

lemma try_misses:
  assumes "stands p r" "toUpper (nextWord r) \<noteq> kw"
  shows "\<exists>q. tryKeyword kw p = (False, q) \<and> stands q r"
proof -
  obtain pre where "tryKeyword kw p = tryKeyword kw (lxAt pre r)"
    by (rule standsE [OF assms(1), where f = "tryKeyword kw"]) (simp add: skip_first)
  with assms(2) show ?thesis by (simp add: tryKeyword_nextWord stands_at)
qed

lemma try_finds:
  assumes "stands p (kw @ r)" "list_all identChar kw" "kw \<noteq> []" "toUpper kw = kw" "ends r"
  shows "\<exists>q. tryKeyword kw p = (True, q) \<and> stands q r"
proof -
  obtain pre where "tryKeyword kw p = tryKeyword kw (lxAt pre (kw @ r))"
    by (rule standsE [OF assms(1), where f = "tryKeyword kw"]) (simp add: skip_first)
  with assms(2-) show ?thesis by (simp add: tryKeyword_at stands_at)
qed

lemma try_finds_space:
  "stands p (kw @ CHR '' '' # r) \<Longrightarrow> list_all identChar kw \<Longrightarrow> kw \<noteq> [] \<Longrightarrow> toUpper kw = kw \<Longrightarrow>
   \<exists>q. tryKeyword kw p = (True, q) \<and> stands q r"
  by (metis try_finds stands_space ends_simps(2) char_classes(2))

lemma expect_finds:
  "stands p (kw @ r) \<Longrightarrow> list_all identChar kw \<Longrightarrow> kw \<noteq> [] \<Longrightarrow> toUpper kw = kw \<Longrightarrow> ends r \<Longrightarrow>
   \<exists>q. expectKeyword kw p = Inr q \<and> stands q r"
  using try_finds [of p kw r] by (auto simp: expectKeyword_def)

lemma ident_reads:
  assumes "stands p (n @ r)" "isIdent n" "ends r"
  shows "\<exists>q. consumeIdent p = Inr (n, q) \<and> stands q r"
proof -
  obtain pre where "consumeIdent p = consumeIdent (lxAt pre (n @ r))"
    by (rule standsE [OF assms(1), where f = consumeIdent]) (simp add: skip_first)
  with assms show ?thesis by (simp add: consumeIdent_at stands_at)
qed

lemma qualified_reads:
  assumes "stands p (n @ r)" "isQual n" "ends r" "nextChar r \<noteq> Some CHR ''.''"
  shows "\<exists>q. consumeQualifiedIdent p = Inr (n, q) \<and> stands q r"
proof -
  obtain pre where "consumeQualifiedIdent p = consumeQualifiedIdent (lxAt pre (n @ r))"
    by (rule standsE [OF assms(1), where f = consumeQualifiedIdent]) (simp add: skip_first)
  with consumeQualifiedIdent_at [OF assms(2-4)] show ?thesis unfolding stands_def by metis
qed

lemma int_reads:
  assumes "stands p (show_int i @ r)" "- INT64_MAX \<le> i" "i \<le> INT64_MAX" "ends r"
  shows "\<exists>q. consumeInt p = Inr (i, q) \<and> stands q r"
proof -
  obtain pre where "consumeInt p = consumeInt (lxAt pre (show_int i @ r))"
    by (rule standsE [OF assms(1), where f = consumeInt]) (simp add: skip_first)
  with assms show ?thesis by (simp add: consumeInt_at stands_at)
qed

lemma expect_finds_space:
  "stands p (kw @ CHR '' '' # r) \<Longrightarrow> list_all identChar kw \<Longrightarrow> kw \<noteq> [] \<Longrightarrow> toUpper kw = kw \<Longrightarrow>
   \<exists>q. expectKeyword kw p = Inr q \<and> stands q r"
  using try_finds_space [of p kw r] by (auto simp: expectKeyword_def)

text \<open>What may follow a table, an expression or a list: nothing, or one of the clauses'
  keywords between blanks.\<close>

definition clause :: "string list \<Rightarrow> string \<Rightarrow> bool" where
  "clause kws r \<longleftrightarrow> r = [] \<or> (\<exists>kw s. kw \<in> set kws \<and> r = CHR '' '' # kw @ CHR '' '' # s)"

lemma clauseI: "kw \<in> set ks \<Longrightarrow> r = CHR '' '' # kw @ CHR '' '' # s \<Longrightarrow> clause ks r"
  by (auto simp: clause_def)

definition clauseWords :: "string list" where
  "clauseWords = [''WHERE'', ''ORDER'', ''LIMIT'', ''JOIN'', ''ON'', ''FROM'']"

lemma clause_mono: "clause k r \<Longrightarrow> set k \<subseteq> set k' \<Longrightarrow> clause k' r"
  by (auto simp: clause_def)

lemma clauseWords_words: "kw \<in> set clauseWords \<Longrightarrow> list_all identChar kw \<and> kw \<noteq> [] \<and> toUpper kw = kw"
  by (auto simp: clauseWords_def)

lemma clause_nextWord:
  assumes "clause ks r" "set ks \<subseteq> set clauseWords"
  shows "r = [] \<and> nextWord r = [] \<or> nextWord r \<in> set ks" "toUpper (nextWord r) = nextWord r"
  using assms
  by (auto simp: clause_def nextWord_word clauseWords_words subset_iff)

lemma identChar_no_op: "identChar c \<Longrightarrow> \<not> opStart c \<and> c \<noteq> CHR ''.''"
  by (auto simp: opStart_def identChar_def isalnum_def isalpha_def isdigit_def code_def)

lemma clause_nextChar:
  assumes "clause ks r" "set ks \<subseteq> set clauseWords" "nextChar r = Some c"
  shows "identChar c"
proof -
  from assms(1,3) obtain kw s where k: "kw \<in> set ks" "r = CHR '' '' # kw @ CHR '' '' # s"
    by (auto simp: clause_def)
  moreover obtain d w where "kw = d # w" "identChar d"
    using subsetD [OF assms(2) k(1), THEN clauseWords_words] by (cases kw) auto
  ultimately show ?thesis using assms(3) by (simp add: identChar_not_space)
qed

lemma clause_follow:
  assumes "clause ks r" "set ks \<subseteq> set clauseWords"
  shows "followExpr r" "ends r" "nextChar r \<noteq> Some CHR ''.''"
proof -
  note n = clause_nextChar [OF assms]
  show e: "ends r" using assms(1) by (auto simp: clause_def)
  show d: "nextChar r \<noteq> Some CHR ''.''" using n identChar_no_op by blast
  have "r = [] \<or> hd r \<noteq> quote" using assms(1) by (auto simp: clause_def quote_def)
  with e d n identChar_no_op show "followExpr r"
    unfolding followExpr_def followPrim_def by blast
qed

lemma expr_reads:
  assumes "stands p (exprToSQL e @ r)" "canonExpr e" "clause ks r" "set ks \<subseteq> set clauseWords"
  shows "\<exists>q. parseExpr p = Inr (e, q) \<and> stands q r"
proof -
  obtain pre where "parseExpr p = parseExpr (lxAt pre (exprToSQL e @ r))"
    by (rule standsE [OF assms(1), where f = parseExpr]) (simp add: skip_first_parse)
  moreover have "toUpper (nextWord r) \<noteq> ''AND''" "toUpper (nextWord r) \<noteq> ''OR''"
    using clause_nextWord [OF assms(3,4)] assms(4) by (auto simp: clauseWords_def)
  ultimately show ?thesis
    using assms by (simp add: parseExpr_canon clause_follow stands_at)
qed

text \<open>Table references.\<close>

definition tableSQL :: "string \<Rightarrow> string \<Rightarrow> string" where
  "tableSQL n a = n @ (if a \<noteq> n then '' AS '' @ a else [])"

lemma not_AS: "clause ks r \<Longrightarrow> set ks \<subseteq> set clauseWords \<Longrightarrow> toUpper (nextWord r) \<noteq> ''AS''"
  using clause_nextWord [of ks r] by (auto simp: clauseWords_def)

lemma clause_ident:
  assumes "stands p r" "clause ks r" "set ks \<subseteq> set clauseWords"
  shows "(\<exists>w q. consumeIdent p = Inr (w, q) \<and> w \<in> set ks) \<or> (\<exists>m. consumeIdent p = Inl (ParseError m))"
  using assms(2) unfolding clause_def
proof (elim disjE exE conjE)
  assume "r = []"
  with assms(1) obtain pre where "skipWS p = lxAt pre []" by (auto simp: stands_def skipWS_at)
  then show ?thesis by (simp add: consumeIdent_def)
next
  fix kw s assume k: "kw \<in> set ks" "r = CHR '' '' # kw @ CHR '' '' # s"
  with assms(3) have "isIdent kw"
    by (auto simp: clauseWords_def isIdent_def isalpha_def code_def)
  with assms(1) k show ?thesis
    using ident_reads [of p kw "CHR '' '' # s"] by (auto dest: stands_space)
qed

lemma table_reads:
  assumes p: "stands p (tableSQL n a @ r)" and c: "canonTable n a"
    and r: "clause ks r" "set ks \<subseteq> set aliasStops \<inter> set clauseWords"
  shows "\<exists>q. parseTableRef p = Inr (\<lparr>tr_tableName = n, tr_alias = a\<rparr>, q) \<and> stands q r"
proof -
  from r(2) have k: "set ks \<subseteq> set clauseWords" "set ks \<subseteq> set aliasStops" by auto
  have i: "isIdent n" "isIdent a" using c by (simp_all add: canonTable_def)
  show ?thesis
  proof (cases "a = n")
    case True
    obtain p1 where p1: "consumeIdent p = Inr (n, p1)" "stands p1 r"
      using ident_reads [of p n r] p True i clause_follow(2) [OF r(1) k(1)]
      by (auto simp: tableSQL_def)
    obtain p2 where p2: "tryKeyword ''AS'' (skipWS p1) = (False, p2)" "stands p2 r"
      using try_misses [of "skipWS p1" r "''AS''"] p1(2) not_AS [OF r(1) k(1)] by auto
    show ?thesis
      using clause_ident [OF p2(2) r(1) k(1)] k(2) True p1(1) p2
      by (auto simp: parseTableRef_def)
  next
    case False
    obtain p1 where p1: "consumeIdent p = Inr (n, p1)" "stands p1 ('' AS '' @ a @ r)"
      using ident_reads [of p n "'' AS '' @ a @ r"] p False i by (auto simp: tableSQL_def)
    then obtain p2 where p2: "tryKeyword ''AS'' (skipWS p1) = (True, p2)" "stands p2 (a @ r)"
      using try_finds [of "skipWS p1" "''AS''" "CHR '' '' # a @ r"]
      by (auto dest!: stands_space)
    with ident_reads [OF p2(2) i(2) clause_follow(2) [OF r(1) k(1)]] p1 p2 show ?thesis
      by (auto simp: parseTableRef_def)
  qed
qed

text \<open>The two comma lists.\<close>

lemma looks_at_stands:
  assumes "stands p r"
  shows "looksAt c (skipWS p) \<longleftrightarrow> nextChar r = Some c"
  using assms nextChar_at by (auto simp: stands_def)

lemma advance_stands:
  assumes "stands p (c # r)" "\<not> isspace c"
  shows "stands (advance (skipWS p)) r"
proof -
  from assms obtain pre where "skipWS p = lxAt pre (c # r)" by (auto simp: stands_def skipWS_at)
  then show ?thesis by (simp add: stands_at)
qed

lemma commaSep_Cons: "xs \<noteq> [] \<Longrightarrow> commaSep (x # xs) = x @ '', '' @ commaSep xs"
  by (cases xs) simp_all

definition commaTail :: "string list \<Rightarrow> string" where
  "commaTail xs = concat (map (\<lambda>x. '', '' @ x) xs)"

lemma commaSep_tail: "commaSep (x # xs) = x @ commaTail xs"
  by (induction xs arbitrary: x) (simp_all add: commaTail_def)

lemma commaTail_simps [simp]:
  "commaTail [] = []" "commaTail (x # xs) = '', '' @ x @ commaTail xs"
  by (simp_all add: commaTail_def)

lemma comma_follow:
  assumes "clause ks r" "set ks \<subseteq> set clauseWords"
  shows "ends (commaTail xs @ r)" "nextChar (commaTail xs @ r) \<noteq> Some CHR ''.''"
    "nextChar r \<noteq> Some CHR '',''"
proof -
  show "ends (commaTail xs @ r)" "nextChar (commaTail xs @ r) \<noteq> Some CHR ''.''"
    using clause_follow [OF assms] by (cases xs; simp)+
  show "nextChar r \<noteq> Some CHR '',''"
    using clause_nextChar [OF assms] char_classes(3) by blast
qed

lemma proj_reads:
  assumes "clause ks r" "set ks \<subseteq> set clauseWords"
  shows "stands p (commaTail cs @ r) \<Longrightarrow> list_all isQual cs \<Longrightarrow>
    \<exists>q. projLoop acc (skipWS p) = Inr (acc @ cs, q) \<and> stands q r"
proof (induction cs arbitrary: acc p)
  case Nil
  then show ?case
    using comma_follow(3) [OF assms] looks_at_stands [of p r]
    by (simp add: projLoop.simps [of acc "skipWS p"])
next
  case (Cons c cs)
  from Cons.prems(1) have p: "stands p (CHR '','' # CHR '' '' # c @ commaTail cs @ r)" by simp
  then have a: "stands (advance (skipWS p)) (c @ commaTail cs @ r)"
    by (rule stands_space [OF advance_stands]) simp
  from Cons.prems(2) have "isQual c" by simp
  then obtain q where q: "consumeQualifiedIdent (advance (skipWS p)) = Inr (c, q)"
    "stands q (commaTail cs @ r)"
    using qualified_reads [OF a _ comma_follow(1,2) [OF assms]] by blast
  have "looksAt CHR '','' (skipWS p)" using looks_at_stands [OF p] by simp
  then have "projLoop acc (skipWS p) = projLoop (acc @ [c]) (skipWS q)"
    using q(1) by (simp add: projLoop.simps [of acc "skipWS p"])
  with Cons.IH [OF q(2), of "acc @ [c]"] Cons.prems(2) show ?case by simp
qed

lemma projections_read:
  assumes "clause ks r" "set ks \<subseteq> set clauseWords" "list_all isQual cs"
    "stands p ((if cs = [] then ''*'' else commaSep cs) @ r)"
  shows "\<exists>q. parseProjectionList p = Inr (cs, q) \<and> stands q r"
proof (cases cs)
  case Nil
  with assms(4) have p: "stands p (CHR ''*'' # r)" by simp
  then have "stands (advance (skipWS p)) r" by (rule advance_stands) (simp add: isspace_def code_def)
  with p Nil show ?thesis
    by (simp add: parseProjectionList_def Let_def looks_at_stands isspace_def code_def)
next
  case (Cons c ds)
  with assms(4) have p: "stands p (c @ commaTail ds @ r)" by (simp add: commaSep_tail)
  from Cons assms(3) have i: "isQual c" "list_all isQual ds" by simp_all
  obtain q where q: "consumeQualifiedIdent p = Inr (c, q)" "stands q (commaTail ds @ r)"
    using qualified_reads [OF p i(1) comma_follow(1,2) [OF assms(1,2)]] by blast
  obtain d w where d: "c = d # w" "identChar d" using i(1) by (rule column_start)
  have "d \<noteq> CHR ''*''"
    using d(2) by (auto simp: identChar_def isalnum_def isalpha_def isdigit_def code_def)
  moreover have "nextChar (c @ commaTail ds @ r) = Some d"
    using d by (simp add: identChar_not_space)
  ultimately have n: "\<not> looksAt CHR ''*'' (skipWS p)"
    using looks_at_stands [OF p] by simp
  obtain q' where "projLoop [c] (skipWS q) = Inr ([c] @ ds, q')" "stands q' r"
    using proj_reads [OF assms(1,2) q(2) i(2), of "[c]"] by blast
  with n q(1) Cons show ?thesis
    by (simp add: parseProjectionList_def Let_def skip_first)
qed

lemma order_item_reads:
  assumes p: "stands p (orderToSQL c @ r)" and c: "isQual (ob_columnName c)"
    and r: "ends r" "nextChar r \<noteq> Some CHR ''.''" "toUpper (nextWord r) \<noteq> ''DESC''"
      "toUpper (nextWord r) \<noteq> ''ASC''"
  shows "\<exists>q. parseOrderItem p = Inr (c, q) \<and> stands q r"
proof (cases "ob_direction c")
  case Ascending
  then have "stands p (ob_columnName c @ r)" using p by (simp add: orderToSQL_def)
  then obtain q where q: "consumeQualifiedIdent p = Inr (ob_columnName c, q)" "stands q r"
    using qualified_reads c r by blast
  obtain q1 where q1: "tryKeyword ''DESC'' (skipWS q) = (False, q1)" "stands q1 r"
    using try_misses [of "skipWS q" r "''DESC''"] q(2) r(3) by auto
  obtain q2 where q2: "tryKeyword ''ASC'' q1 = (False, q2)" "stands q2 r"
    using try_misses [OF q1(2) r(4)] by auto
  have "c = \<lparr>ob_columnName = ob_columnName c, ob_direction = Ascending\<rparr>"
    using Ascending by simp
  with q q1 q2 show ?thesis by (simp add: parseOrderItem_def)
next
  case Descending
  then have "stands p (ob_columnName c @ '' DESC'' @ r)" using p by (simp add: orderToSQL_def)
  then obtain q where q: "consumeQualifiedIdent p = Inr (ob_columnName c, q)"
    "stands q ('' DESC'' @ r)"
    using qualified_reads [of p "ob_columnName c" "'' DESC'' @ r"] c by auto
  then have "stands (skipWS q) (''DESC'' @ r)" by (simp add: stands_space)
  then obtain q1 where q1: "tryKeyword ''DESC'' (skipWS q) = (True, q1)" "stands q1 r"
    using try_finds [of "skipWS q" "''DESC''" r] r(1) by auto
  have "c = \<lparr>ob_columnName = ob_columnName c, ob_direction = Descending\<rparr>"
    using Descending by simp
  with q q1 show ?thesis by (simp add: parseOrderItem_def)
qed

lemma comma_order_word:
  assumes "clause ks r" "set ks \<subseteq> set clauseWords"
  shows "toUpper (nextWord (commaTail xs @ r)) \<noteq> ''DESC''"
    "toUpper (nextWord (commaTail xs @ r)) \<noteq> ''ASC''"
  using clause_nextWord [OF assms] assms(2) by (cases xs; auto simp: clauseWords_def)+

lemma order_loop_reads:
  assumes "clause ks r" "set ks \<subseteq> set clauseWords"
  shows "stands p (commaTail (map orderToSQL cs) @ r) \<Longrightarrow>
    list_all (\<lambda>c. isQual (ob_columnName c)) cs \<Longrightarrow>
    \<exists>q. orderLoop acc (skipWS p) = Inr (acc @ cs, q) \<and> stands q r"
proof (induction cs arbitrary: acc p)
  case Nil
  then show ?case
    using comma_follow(3) [OF assms] looks_at_stands [of p r]
    by (simp add: orderLoop.simps [of acc "skipWS p"])
next
  case (Cons c cs)
  let ?r = "commaTail (map orderToSQL cs) @ r"
  from Cons.prems(1) have p: "stands p (CHR '','' # CHR '' '' # orderToSQL c @ ?r)" by simp
  then have a: "stands (advance (skipWS p)) (orderToSQL c @ ?r)"
    by (rule stands_space [OF advance_stands]) simp
  from Cons.prems(2) have "isQual (ob_columnName c)" by simp
  then obtain q where q: "parseOrderItem (advance (skipWS p)) = Inr (c, q)" "stands q ?r"
    using order_item_reads [OF a _ comma_follow(1,2) [OF assms] comma_order_word [OF assms]]
    by blast
  have "looksAt CHR '','' (skipWS p)" using looks_at_stands [OF p] by simp
  then have "orderLoop acc (skipWS p) = orderLoop (acc @ [c]) (skipWS q)"
    using q(1) by (simp add: orderLoop.simps [of acc "skipWS p"])
  with Cons.IH [OF q(2), of "acc @ [c]"] Cons.prems(2) show ?case by simp
qed

lemma order_by_reads:
  assumes r: "clause ks r" "set ks \<subseteq> set clauseWords" and c: "cs \<noteq> []"
    "list_all (\<lambda>c. isQual (ob_columnName c)) cs"
    and p: "stands p (commaSep (map orderToSQL cs) @ r)"
  shows "\<exists>q. parseOrderByList p = Inr (cs, q) \<and> stands q r"
proof -
  obtain d ds where cs: "cs = d # ds" using c(1) by (cases cs) auto
  let ?r = "commaTail (map orderToSQL ds) @ r"
  from p cs have a: "stands p (orderToSQL d @ ?r)" by (simp add: commaSep_tail)
  from c(2) cs have "isQual (ob_columnName d)" by simp
  then obtain q where q: "parseOrderItem p = Inr (d, q)" "stands q ?r"
    using order_item_reads [OF a _ comma_follow(1,2) [OF r] comma_order_word [OF r]] by blast
  then obtain q' where "orderLoop [d] (skipWS q) = Inr ([d] @ ds, q')" "stands q' r"
    using order_loop_reads [OF r q(2), of "[d]"] c(2) cs by auto
  with q(1) cs show ?thesis by (simp add: parseOrderByList_def)
qed

text \<open>The joins.\<close>

definition afterJoins :: "string list" where
  "afterJoins = [''WHERE'', ''ORDER'', ''LIMIT'']"

lemma afterJoins_words: "set (''JOIN'' # afterJoins) \<subseteq> set aliasStops \<inter> set clauseWords"
  "set afterJoins \<subseteq> set clauseWords"
  by (auto simp: afterJoins_def aliasStops_def clauseWords_def)

lemma joinToSQL_table:
  "joinToSQL j = '' JOIN '' @ tableSQL (tr_tableName (jc_rightTable j)) (tr_alias (jc_rightTable j))
     @ '' ON '' @ exprToSQL (jc_condition j)"
  by (simp add: joinToSQL_def tableSQL_def)

lemma clause_joins:
  assumes "clause afterJoins r"
  shows "clause (''JOIN'' # afterJoins) (concat (map joinToSQL js) @ r)"
proof (cases js)
  case Nil
  with assms show ?thesis by (auto intro: clause_mono)
next
  case (Cons j js')
  then show ?thesis
    by (intro clauseI [of "''JOIN''"]) (simp_all add: joinToSQL_def)
qed

lemma join_step:
  assumes p: "stands p (joinToSQL j @ r)" and r: "clause (''JOIN'' # afterJoins) r"
    and j: "canonTable (tr_tableName (jc_rightTable j)) (tr_alias (jc_rightTable j))"
      "canonExpr (jc_condition j)"
  shows "\<exists>q. joinLoop acc p = joinLoop (acc @ [j]) q \<and> stands q r"
proof -
  let ?n = "tr_tableName (jc_rightTable j)" and ?a = "tr_alias (jc_rightTable j)"
  let ?on = "'' ON '' @ exprToSQL (jc_condition j) @ r"
  from p have "stands (skipWS p) (CHR '' '' # ''JOIN '' @ tableSQL ?n ?a @ ?on)"
    by (simp add: joinToSQL_table)
  then have s: "stands (skipWS p) (''JOIN'' @ CHR '' '' # tableSQL ?n ?a @ ?on)"
    using stands_space by fastforce
  obtain p1 where p1: "tryKeyword ''INNER'' (skipWS p) = (False, p1)"
    "stands p1 (''JOIN'' @ CHR '' '' # tableSQL ?n ?a @ ?on)"
    using try_misses [OF s, of "''INNER''"] by auto
  obtain p2 where p2: "tryKeyword ''JOIN'' p1 = (True, p2)" "stands p2 (tableSQL ?n ?a @ ?on)"
    using try_finds [OF p1(2)] stands_space by auto
  have "clause [''ON''] ?on" "set [''ON''] \<subseteq> set aliasStops \<inter> set clauseWords"
    by (auto simp: clause_def aliasStops_def clauseWords_def)
  from table_reads [OF p2(2) j(1) this]
  obtain p3 where p3: "parseTableRef p2 = Inr (jc_rightTable j, p3)" "stands p3 ?on" by auto
  from p3(2) have "stands p3 (''ON'' @ CHR '' '' # exprToSQL (jc_condition j) @ r)"
    using stands_space by fastforce
  then obtain p4 where p4: "expectKeyword ''ON'' p3 = Inr p4"
    "stands p4 (exprToSQL (jc_condition j) @ r)"
    using expect_finds_space [of p3 "''ON''"] by auto
  obtain p5 where p5: "parseExpr p4 = Inr (jc_condition j, p5)" "stands p5 r"
    using expr_reads [OF p4(2) j(2) r] afterJoins_words(1) by auto
  have "joinLoop acc p = joinLoop (acc @ [j]) p5"
    using p1(1) p2(1) p3(1) p4(1) p5(1) by (cases j) (simp add: joinLoop.simps [of acc p])
  with p5(2) show ?thesis by blast
qed

lemma joins_read:
  assumes "clause afterJoins r"
  shows "stands p (concat (map joinToSQL js) @ r) \<Longrightarrow>
    list_all (\<lambda>j. canonTable (tr_tableName (jc_rightTable j)) (tr_alias (jc_rightTable j))
                  \<and> canonExpr (jc_condition j)) js \<Longrightarrow>
    \<exists>q. joinLoop acc p = Inr (acc @ js, q) \<and> stands q r"
proof (induction js arbitrary: acc p)
  case Nil
  have "toUpper (nextWord r) \<notin> {''INNER'', ''JOIN''}"
    using clause_nextWord [OF assms afterJoins_words(2)] by (auto simp: afterJoins_def)
  then obtain p1 p2 where "tryKeyword ''INNER'' (skipWS p) = (False, p1)"
    "tryKeyword ''JOIN'' p1 = (False, p2)" "stands p2 r"
    using try_misses [of "skipWS p" r "''INNER''"] try_misses [of _ r "''JOIN''"] Nil
    by fastforce
  then show ?case by (simp add: joinLoop.simps [of acc p])
next
  case (Cons j js)
  have "\<exists>q. joinLoop acc p = joinLoop (acc @ [j]) q \<and> stands q (concat (map joinToSQL js) @ r)"
    using Cons.prems by (intro join_step clause_joins assms) simp_all
  then obtain q where q: "joinLoop acc p = joinLoop (acc @ [j]) q"
    "stands q (concat (map joinToSQL js) @ r)" by blast
  with Cons.IH [OF q(2), of "acc @ [j]"] Cons.prems(2) show ?case by simp
qed

text \<open>The printed statement, clause by clause, and what follows each clause.\<close>

definition limitSQL :: "SelectStatement \<Rightarrow> string" where
  "limitSQL s = (if 0 \<le> st_limitCount s then '' LIMIT '' @ show_int (st_limitCount s) else [])"

definition orderSQL :: "SelectStatement \<Rightarrow> string" where
  "orderSQL s = (if st_orderByColumns s = [] then []
     else '' ORDER BY '' @ commaSep (map orderToSQL (st_orderByColumns s))) @ limitSQL s"

definition whereSQL :: "SelectStatement \<Rightarrow> string" where
  "whereSQL s = (case st_whereClause s of None \<Rightarrow> [] | Some e \<Rightarrow> '' WHERE '' @ exprToSQL e)
     @ orderSQL s"

lemma clauses:
  "clause [''LIMIT''] (limitSQL s)" "clause [''ORDER'', ''LIMIT''] (orderSQL s)"
  "clause afterJoins (whereSQL s)"
proof -
  show l: "clause [''LIMIT''] (limitSQL s)"
    by (cases "0 \<le> st_limitCount s")
      (auto simp: limitSQL_def clause_def intro!: clauseI)
  show o: "clause [''ORDER'', ''LIMIT''] (orderSQL s)"
  proof (cases "st_orderByColumns s = []")
    case True
    with clause_mono [OF l] show ?thesis by (simp add: orderSQL_def)
  next
    case False
    then show ?thesis by (intro clauseI [of "''ORDER''"]) (simp_all add: orderSQL_def)
  qed
  show "clause afterJoins (whereSQL s)"
  proof (cases "st_whereClause s")
    case None
    with clause_mono [OF o] show ?thesis by (simp add: whereSQL_def afterJoins_def)
  next
    case (Some e)
    then show ?thesis
      by (intro clauseI [of "''WHERE''"]) (simp_all add: whereSQL_def afterJoins_def)
  qed
qed

lemma stmtToSQL_clauses:
  assumes "isIdent (st_tableAlias s)"
  shows "stmtToSQL s = ''SELECT'' @ CHR '' ''
     # (if st_projections s = [] then ''*'' else commaSep (st_projections s)) @ CHR '' '' # ''FROM'' @ CHR '' ''
     # tableSQL (st_tableName s) (st_tableAlias s) @ concat (map joinToSQL (st_joins s)) @ whereSQL s"
  using assms
  by (simp add: stmtToSQL_def tableSQL_def whereSQL_def orderSQL_def limitSQL_def isIdent_def)

lemma where_reads:
  assumes "stands p (whereSQL s)" "case st_whereClause s of None \<Rightarrow> True | Some e \<Rightarrow> canonExpr e"
  shows "\<exists>q. (let (found, p6) = tryKeyword ''WHERE'' (skipWS p) in
            if found then bindE (parseExpr p6) (\<lambda>(e, p7). Inr (Some e, p7))
            else Inr (None, p6)) = Inr (st_whereClause s, q) \<and> stands q (orderSQL s)"
proof (cases "st_whereClause s")
  case None
  then have p: "stands (skipWS p) (orderSQL s)" using assms(1) by (simp add: whereSQL_def)
  have "toUpper (nextWord (orderSQL s)) \<noteq> ''WHERE''"
    using clause_nextWord [OF clauses(2) [of s]] by (auto simp: clauseWords_def)
  with try_misses [OF p, of "''WHERE''"] None show ?thesis by auto
next
  case (Some e)
  have "stands (skipWS p) (''WHERE'' @ CHR '' '' # exprToSQL e @ orderSQL s)"
    using assms(1) Some stands_space by (simp add: whereSQL_def)
  then obtain q where q: "tryKeyword ''WHERE'' (skipWS p) = (True, q)"
    "stands q (exprToSQL e @ orderSQL s)"
    using try_finds_space [of "skipWS p" "''WHERE''"] by auto
  have "set [''ORDER'', ''LIMIT''] \<subseteq> set clauseWords" by (simp add: clauseWords_def)
  with expr_reads [OF q(2) _ clauses(2)] assms(2) Some q(1) show ?thesis by auto
qed

lemma order_reads:
  assumes "stands p (orderSQL s)" "list_all (\<lambda>c. isQual (ob_columnName c)) (st_orderByColumns s)"
  shows "\<exists>q. (let (found, p9) = tryKeyword ''ORDER'' (skipWS p) in
            if found then bindE (expectKeyword ''BY'' p9) parseOrderByList
            else Inr ([], p9)) = Inr (st_orderByColumns s, q) \<and> stands q (limitSQL s)"
proof (cases "st_orderByColumns s = []")
  case True
  then have p: "stands (skipWS p) (limitSQL s)" using assms(1) by (simp add: orderSQL_def)
  have "toUpper (nextWord (limitSQL s)) \<noteq> ''ORDER''"
    using clause_nextWord [OF clauses(1) [of s]] by (auto simp: clauseWords_def)
  with try_misses [OF p, of "''ORDER''"] True show ?thesis by auto
next
  case False
  let ?o = "commaSep (map orderToSQL (st_orderByColumns s)) @ limitSQL s"
  have "stands (skipWS p) (''ORDER'' @ CHR '' '' # ''BY'' @ CHR '' '' # ?o)"
    using assms(1) False stands_space by (simp add: orderSQL_def)
  then obtain q where q: "tryKeyword ''ORDER'' (skipWS p) = (True, q)"
    "stands q (''BY'' @ CHR '' '' # ?o)"
    using try_finds [of "skipWS p" "''ORDER''" "CHR '' '' # ''BY'' @ CHR '' '' # ?o"] stands_space
    by auto
  obtain q' where q': "expectKeyword ''BY'' q = Inr q'" "stands q' ?o"
    using expect_finds [OF q(2)] stands_space by auto
  have "set [''LIMIT''] \<subseteq> set clauseWords" by (simp add: clauseWords_def)
  with order_by_reads [OF clauses(1) _ False assms(2) q'(2)] q(1) q'(1) show ?thesis by auto
qed

lemma limit_reads:
  assumes "stands p (limitSQL s)" "- 1 \<le> st_limitCount s" "st_limitCount s \<le> INT64_MAX"
  shows "\<exists>q. (let (found, p11) = tryKeyword ''LIMIT'' (skipWS p) in
            if found
            then bindE (consumeInt p11) (\<lambda>(n, p12).
                   if n < 0 then Inl (ParseError ''LIMIT value must be non-negative'')
                   else Inr (n, p12))
            else Inr (- 1, p11)) = Inr (st_limitCount s, q) \<and> stands q []"
proof (cases "0 \<le> st_limitCount s")
  case True
  have "stands (skipWS p) (''LIMIT'' @ CHR '' '' # show_int (st_limitCount s) @ [])"
    using assms(1) True stands_space by (simp add: limitSQL_def)
  then obtain q where q: "tryKeyword ''LIMIT'' (skipWS p) = (True, q)"
    "stands q (show_int (st_limitCount s) @ [])"
    using try_finds_space [of "skipWS p" "''LIMIT''"] by auto
  with int_reads [OF q(2)] assms True show ?thesis by (auto simp: INT64_MAX_def)
next
  case False
  then have "stands (skipWS p) []" "st_limitCount s = - 1" using assms by (simp_all add: limitSQL_def)
  with try_misses [of "skipWS p" "[]" "''LIMIT''"] show ?thesis by auto
qed

lemma parseSelect_reads:
  assumes p: "stands p (stmtToSQL s)" and c: "canonStmt s"
  shows "\<exists>q. parseSelect p = Inr (s, q) \<and> stands q []"
proof -
  let ?j = "concat (map joinToSQL (st_joins s)) @ whereSQL s"
  let ?t = "tableSQL (st_tableName s) (st_tableAlias s) @ ?j"
  let ?c = "if st_projections s = [] then ''*'' else commaSep (st_projections s)"
  let ?f = "CHR '' '' # ''FROM'' @ CHR '' '' # ?t"
  note c = c [unfolded canonStmt_def]
  have "isIdent (st_tableAlias s)" using c by (simp add: canonTable_def)
  with p have s1: "stands p (''SELECT'' @ CHR '' '' # ?c @ ?f)"
    by (simp only: stmtToSQL_clauses append_Cons append_assoc)
  have "\<exists>q. expectKeyword ''SELECT'' p = Inr q \<and> stands q (?c @ ?f)"
    by (rule expect_finds_space [OF s1]) simp_all
  then obtain p1 where p1: "expectKeyword ''SELECT'' p = Inr p1" "stands p1 (?c @ ?f)" by blast
  have "clause [''FROM''] ?f" "set [''FROM''] \<subseteq> set clauseWords"
    by (auto simp: clause_def clauseWords_def)
  then obtain p2 where p2: "parseProjectionList p1 = Inr (st_projections s, p2)" "stands p2 ?f"
    using projections_read p1(2) c by blast
  have s2: "stands p2 (''FROM'' @ CHR '' '' # ?t)" using p2(2) by (rule stands_space)
  have "\<exists>q. expectKeyword ''FROM'' p2 = Inr q \<and> stands q ?t"
    by (rule expect_finds_space [OF s2]) simp_all
  then obtain p3 where p3: "expectKeyword ''FROM'' p2 = Inr p3" "stands p3 ?t" by blast
  obtain p4 where p4: "parseTableRef p3 =
      Inr (\<lparr>tr_tableName = st_tableName s, tr_alias = st_tableAlias s\<rparr>, p4)" "stands p4 ?j"
    using table_reads [OF p3(2) _ clause_joins [OF clauses(3)] afterJoins_words(1)] c by blast
  obtain p5 where p5: "joinLoop [] p4 = Inr (st_joins s, p5)" "stands p5 (whereSQL s)"
    using joins_read [OF clauses(3) p4(2), of "[]"] c by auto
  obtain p8 where p8: "(let (found, p6) = tryKeyword ''WHERE'' (skipWS p5) in
      if found then bindE (parseExpr p6) (\<lambda>(e, p7). Inr (Some e, p7))
      else Inr (None, p6)) = Inr (st_whereClause s, p8)" "stands p8 (orderSQL s)"
    using where_reads [OF p5(2)] c by blast
  obtain p10 where p10: "(let (found, p9) = tryKeyword ''ORDER'' (skipWS p8) in
      if found then bindE (expectKeyword ''BY'' p9) parseOrderByList
      else Inr ([], p9)) = Inr (st_orderByColumns s, p10)" "stands p10 (limitSQL s)"
    using order_reads [OF p8(2)] c by blast
  obtain q where q: "(let (found, p11) = tryKeyword ''LIMIT'' (skipWS p10) in
      if found
      then bindE (consumeInt p11) (\<lambda>(n, p12).
             if n < 0 then Inl (ParseError ''LIMIT value must be non-negative'')
             else Inr (n, p12))
      else Inr (- 1, p11)) = Inr (st_limitCount s, q)" "stands q []"
    using limit_reads [OF p10(2)] c by blast
  show ?thesis
    unfolding parseSelect_def p1(1) bindE_Inr p2(1) prod.case p3(1) p4(1) p5(1) p8(1) p10(1) q(1)
    using q(2) by simp
qed

lemma canonical_roundtrip:
  assumes "canonStmt s"
  shows "parse (stmtToSQL s) = Inr s"
proof -
  have "\<lparr>lx_src = stmtToSQL s, lx_pos = 0\<rparr> = lxAt [] (stmtToSQL s)" by (simp add: lxAt_def)
  then obtain q where q: "parseSelect \<lparr>lx_src = stmtToSQL s, lx_pos = 0\<rparr> = Inr (s, q)" "stands q []"
    using parseSelect_reads [OF _ assms] stands_at by metis
  then obtain pre where "skipWS q = lxAt pre []" by (auto simp: stands_def skipWS_at)
  with q(1) show ?thesis by (simp add: parse_def skipWS_at)
qed

definition sampleStmt :: SelectStatement where
  "sampleStmt =
     \<lparr>st_projections = [''e.name'', ''d.budget''], st_tableName = ''employees'', st_tableAlias = ''e'',
      st_joins = [\<lparr>jc_rightTable = \<lparr>tr_tableName = ''departments'', tr_alias = ''d''\<rparr>,
                   jc_condition = Comparison Equal (ColumnRef ''e.deptid'') (ColumnRef ''d.id'')\<rparr>],
      st_whereClause = Some (And (Comparison GreaterThan (ColumnRef ''e.age'') (IntLiteral 30))
                                 (NotExpr (Comparison Equal (ColumnRef ''e.name'') (StringLiteral ''Bob'')))),
      st_orderByColumns = [\<lparr>ob_columnName = ''e.age'', ob_direction = Descending\<rparr>,
                           \<lparr>ob_columnName = ''e.name'', ob_direction = Ascending\<rparr>],
      st_limitCount = 10\<rparr>"

lemma sampleStmt_canon: "canonStmt sampleStmt"
  by (simp add: sampleStmt_def canonStmt_def canonTable_def isQual_def isIdent_def identChar_def
      isalnum_def isalpha_def isdigit_def code_def quote_def INT64_MAX_def qualifier_def toUpper_def
      toupper_def del: find_char_None)

section \<open>What the parser returns\<close>

text \<open>The names, literals and limit of a parsed statement.\<close>

fun wfExpr :: "ASTExpr \<Rightarrow> bool" where
  "wfExpr (ColumnRef n) = isQual n"
| "wfExpr (IntLiteral i) = (- INT64_MAX \<le> i \<and> i \<le> INT64_MAX)"
| "wfExpr (StringLiteral s) = list_all (\<lambda>c. code c \<le> 127) s"
| "wfExpr (Comparison k l r) = (wfExpr l \<and> wfExpr r)"
| "wfExpr (And l r) = (wfExpr l \<and> wfExpr r)"
| "wfExpr (Or l r) = (wfExpr l \<and> wfExpr r)"
| "wfExpr (NotExpr e) = wfExpr e"

definition wfTable :: "TableRef \<Rightarrow> bool" where
  "wfTable t \<longleftrightarrow> isIdent (tr_tableName t) \<and> isIdent (tr_alias t)"

definition wfStmt :: "SelectStatement \<Rightarrow> bool" where
  "wfStmt s \<longleftrightarrow>
     list_all isQual (st_projections s)
     \<and> isIdent (st_tableName s) \<and> isIdent (st_tableAlias s)
     \<and> list_all (\<lambda>j. wfTable (jc_rightTable j) \<and> wfExpr (jc_condition j)) (st_joins s)
     \<and> (case st_whereClause s of None \<Rightarrow> True | Some e \<Rightarrow> wfExpr e)
     \<and> list_all (\<lambda>c. isQual (ob_columnName c)) (st_orderByColumns s)
     \<and> - 1 \<le> st_limitCount s \<and> st_limitCount s \<le> INT64_MAX"

lemma scanWord_result:
  "scanWord w p = (v, q) \<Longrightarrow> \<exists>u. v = w @ u \<and> list_all identChar u"
proof (induction w p arbitrary: v rule: scanWord.induct)
  case (1 w p)
  show ?case
  proof (cases "\<not> atEnd p \<and> identChar (cur p)")
    case True
    then have "scanWord (w @ [cur p]) (advance p) = (v, q)"
      using "1.prems" by (simp add: scanWord.simps [of w p])
    with 1 True obtain u where "v = (w @ [cur p]) @ u" "list_all identChar u" by blast
    with True show ?thesis by (intro exI [of _ "cur p # u"]) simp
  next
    case False
    with "1.prems" show ?thesis by (auto simp: scanWord.simps [of w p])
  qed
qed

lemma consumeIdent_isIdent:
  assumes "consumeIdent p = Inr (n, q)"
  shows "isIdent n"
proof -
  let ?p = "skipWS p"
  from assms have c: "\<not> atEnd ?p" "isalpha (cur ?p) \<or> cur ?p = CHR ''_''" "scanWord [] ?p = (n, q)"
    by (auto simp: consumeIdent_def Let_def split: if_splits)
  then have "identChar (cur ?p)" by (auto simp: identChar_def isalnum_def)
  with c have "scanWord [cur ?p] (advance ?p) = (n, q)" by (simp add: scanWord.simps [of "[]"])
  from scanWord_result [OF this] \<open>identChar (cur ?p)\<close> c(2) show ?thesis
    by (auto simp: isIdent_def)
qed

lemma isIdent_no_dot: "isIdent n \<Longrightarrow> CHR ''.'' \<notin> set n"
  by (auto simp: isIdent_def list_all_iff)

lemma isIdent_isQual: "isIdent n \<Longrightarrow> isQual n"
  using isIdent_no_dot by (simp add: isQual_def find_char_None [THEN iffD2])

lemma isQual_qualified: "isIdent a \<Longrightarrow> isIdent b \<Longrightarrow> isQual (a @ CHR ''.'' # b)"
  using isIdent_no_dot [of a] by (simp add: isQual_def find_char_append)

lemma consumeQualifiedIdent_isQual: "consumeQualifiedIdent p = Inr (n, q) \<Longrightarrow> isQual n"
  by (auto simp: consumeQualifiedIdent_def bindE_eq_Inr Let_def split: if_splits
      dest!: consumeIdent_isIdent intro: isIdent_isQual isQual_qualified)

lemma digitLoop_range:
  "digitLoop v p = Inr (w, q) \<Longrightarrow> 0 \<le> v \<Longrightarrow> v \<le> INT64_MAX \<Longrightarrow> 0 \<le> w \<and> w \<le> INT64_MAX"
proof (induction v p rule: digitLoop.induct)
  case (1 v p)
  then show ?case by (auto simp: digitLoop.simps [of v p] Let_def split: if_splits)
qed

lemma consumeInt_range: "consumeInt p = Inr (i, q) \<Longrightarrow> - INT64_MAX \<le> i \<and> i \<le> INT64_MAX"
  by (auto simp: consumeInt_def Let_def bindE_eq_Inr INT64_MAX_def split: if_splits
      dest!: digitLoop_range)

lemma stringLoop_ascii:
  "stringLoop v p = Inr (w, q) \<Longrightarrow> list_all (\<lambda>c. code c \<le> 127) v \<Longrightarrow> list_all (\<lambda>c. code c \<le> 127) w"
proof (induction v p rule: stringLoop.induct)
  case (1 v p)
  have "code quote \<le> 127" by (simp add: quote_def code_def)
  with 1 show ?case by (auto simp: stringLoop.simps [of v p] Let_def not_less split: if_splits)
qed

lemma consumeString_ascii: "consumeString p = Inr (s, q) \<Longrightarrow> list_all (\<lambda>c. code c \<le> 127) s"
  by (auto simp: consumeString_def Let_def split: if_splits dest: stringLoop_ascii)

lemma parse_wf:
  shows "parseExpr p1 = Inr (e1, q1) \<Longrightarrow> wfExpr e1"
    and "parseOr p2 = Inr (e2, q2) \<Longrightarrow> wfExpr e2"
    and "orLoop l3 p3 = Inr (e3, q3) \<Longrightarrow> wfExpr l3 \<Longrightarrow> wfExpr e3"
    and "parseAnd p4 = Inr (e4, q4) \<Longrightarrow> wfExpr e4"
    and "andLoop l5 p5 = Inr (e5, q5) \<Longrightarrow> wfExpr l5 \<Longrightarrow> wfExpr e5"
    and "parseNot p6 = Inr (e6, q6) \<Longrightarrow> wfExpr e6"
    and "parseComparison p7 = Inr (e7, q7) \<Longrightarrow> wfExpr e7"
    and "parsePrimary p8 = Inr (e8, q8) \<Longrightarrow> wfExpr e8"
proof (induction p1 and p2 and l3 p3 and p4 and l5 p5 and p6 and p7 and p8
    arbitrary: e1 q1 and e2 q2 and e3 q3 and e4 q4 and e5 q5 and e6 q6 and e7 q7 and e8 q8
    rule: parseExpr_parseOr_orLoop_parseAnd_andLoop_parseNot_parseComparison_parsePrimary.induct)
  case (1 p)
  then show ?case by (simp add: parseExpr.simps)
next
  case (2 p)
  then show ?case by (auto simp: parseOr.simps bindE_eq_Inr)
next
  case (3 left p)
  obtain f p1 where p1: "tryKeyword ''OR'' p = (f, p1)" by (cases "tryKeyword ''OR'' p")
  show ?case
  proof (cases f)
    case True
    with "3.prems"(1) p1 obtain r p2 where r: "parseAnd p1 = Inr (r, p2)" "orLoop (Or left r) p2 = Inr (e3, q3)"
      by (auto simp: orLoop.simps [of left p] bindE_eq_Inr)
    have "wfExpr (Or left r)"
      using "3.IH"(1) [OF p1 [symmetric] refl True r(1)] "3.prems"(2) by simp
    then show ?thesis by (rule "3.IH"(2) [OF p1 [symmetric] refl True r(1) refl r(2)])
  next
    case False
    with "3.prems" p1 show ?thesis by (simp add: orLoop.simps [of left p])
  qed
next
  case (4 p)
  then show ?case by (auto simp: parseAnd.simps bindE_eq_Inr)
next
  case (5 left p)
  obtain f p1 where p1: "tryKeyword ''AND'' p = (f, p1)" by (cases "tryKeyword ''AND'' p")
  show ?case
  proof (cases f)
    case True
    with "5.prems"(1) p1 obtain r p2 where r: "parseNot p1 = Inr (r, p2)" "andLoop (And left r) p2 = Inr (e5, q5)"
      by (auto simp: andLoop.simps [of left p] bindE_eq_Inr)
    have "wfExpr (And left r)"
      using "5.IH"(1) [OF p1 [symmetric] refl True r(1)] "5.prems"(2) by simp
    then show ?thesis by (rule "5.IH"(2) [OF p1 [symmetric] refl True r(1) refl r(2)])
  next
    case False
    with "5.prems" p1 show ?thesis by (simp add: andLoop.simps [of left p])
  qed
next
  case (6 p)
  obtain f p1 where p1: "tryKeyword ''NOT'' p = (f, p1)" by (cases "tryKeyword ''NOT'' p")
  with 6 show ?case
    by (cases f) (auto simp: parseNot.simps [of p] bindE_eq_Inr)
next
  case (7 p)
  then show ?case
    by (auto simp: parseComparison.simps [of p] Let_def bindE_eq_Inr
        split: if_splits option.splits)
next
  case (8 p)
  then show ?case
    by (auto simp: parsePrimary.simps [of p] Let_def bindE_eq_Inr split: if_splits
        dest!: consumeInt_range consumeString_ascii consumeQualifiedIdent_isQual)
qed

lemma parseTableRef_wf:
  assumes "parseTableRef p = Inr (t, q)"
  shows "wfTable t"
proof -
  obtain n p1 where n: "consumeIdent p = Inr (n, p1)"
    using assms by (auto simp: parseTableRef_def bindE_eq_Inr)
  obtain b p2 where b: "tryKeyword ''AS'' (skipWS p1) = (b, p2)" by (cases "tryKeyword ''AS'' (skipWS p1)")
  show ?thesis
    using assms n b consumeIdent_isIdent [OF n] consumeIdent_isIdent [of p2]
    by (auto simp: parseTableRef_def wfTable_def bindE_eq_Inr
        split: if_splits sum.splits err.splits)
qed

lemma projLoop_wf:
  "projLoop acc p = Inr (cs, q) \<Longrightarrow> list_all isQual acc \<Longrightarrow> list_all isQual cs"
proof (induction acc p rule: projLoop.induct)
  case (1 acc p)
  show ?case
  proof (cases "looksAt CHR '','' p")
    case True
    with "1.prems"(1) obtain n p1 where n: "consumeQualifiedIdent (advance p) = Inr (n, p1)"
      and r: "projLoop (acc @ [n]) (skipWS p1) = Inr (cs, q)"
      by (auto simp: projLoop.simps [of acc p] bindE_eq_Inr)
    have "list_all isQual (acc @ [n])" using "1.prems"(2) consumeQualifiedIdent_isQual [OF n] by simp
    then show ?thesis by (rule "1.IH" [OF True n refl r])
  next
    case False
    with "1.prems" show ?thesis by (simp add: projLoop.simps [of acc p])
  qed
qed

lemma parseProjectionList_wf: "parseProjectionList p = Inr (cs, q) \<Longrightarrow> list_all isQual cs"
  by (auto simp: parseProjectionList_def Let_def bindE_eq_Inr split: if_splits
      dest!: projLoop_wf consumeQualifiedIdent_isQual)

lemma parseOrderItem_wf:
  assumes "parseOrderItem p = Inr (c, q)"
  shows "isQual (ob_columnName c)"
proof -
  obtain n p1 where n: "consumeQualifiedIdent p = Inr (n, p1)"
    using assms by (auto simp: parseOrderItem_def bindE_eq_Inr)
  obtain b p2 where b: "tryKeyword ''DESC'' (skipWS p1) = (b, p2)"
    by (cases "tryKeyword ''DESC'' (skipWS p1)")
  have "ob_columnName c = n"
    using assms n b by (auto simp: parseOrderItem_def bindE_eq_Inr split: if_splits prod.splits)
  with consumeQualifiedIdent_isQual [OF n] show ?thesis by simp
qed

lemma orderLoop_wf:
  "orderLoop acc p = Inr (cs, q) \<Longrightarrow> list_all (\<lambda>c. isQual (ob_columnName c)) acc \<Longrightarrow>
   list_all (\<lambda>c. isQual (ob_columnName c)) cs"
proof (induction acc p rule: orderLoop.induct)
  case (1 acc p)
  show ?case
  proof (cases "looksAt CHR '','' p")
    case True
    with "1.prems"(1) obtain c p1 where c: "parseOrderItem (advance p) = Inr (c, p1)"
      and r: "orderLoop (acc @ [c]) (skipWS p1) = Inr (cs, q)"
      by (auto simp: orderLoop.simps [of acc p] bindE_eq_Inr)
    have "list_all (\<lambda>c. isQual (ob_columnName c)) (acc @ [c])"
      using "1.prems"(2) parseOrderItem_wf [OF c] by simp
    then show ?thesis by (rule "1.IH" [OF True c refl r])
  next
    case False
    with "1.prems" show ?thesis by (simp add: orderLoop.simps [of acc p])
  qed
qed

lemma parseOrderByList_wf:
  "parseOrderByList p = Inr (cs, q) \<Longrightarrow> list_all (\<lambda>c. isQual (ob_columnName c)) cs"
  by (auto simp: parseOrderByList_def bindE_eq_Inr dest!: orderLoop_wf parseOrderItem_wf)

lemma joinLoop_wf:
  "joinLoop acc p = Inr (js, q) \<Longrightarrow>
   list_all (\<lambda>j. wfTable (jc_rightTable j) \<and> wfExpr (jc_condition j)) acc \<Longrightarrow>
   list_all (\<lambda>j. wfTable (jc_rightTable j) \<and> wfExpr (jc_condition j)) js"
proof (induction acc p rule: joinLoop.induct)
  case (1 acc p)
  obtain b p1 where p1: "tryKeyword ''INNER'' (skipWS p) = (b, p1)"
    by (cases "tryKeyword ''INNER'' (skipWS p)")
  obtain f p2 where p2: "tryKeyword ''JOIN'' p1 = (f, p2)" by (cases "tryKeyword ''JOIN'' p1")
  show ?case
  proof (cases f)
    case True
    with "1.prems"(1) p1 p2 obtain t p3 p4 e p5 where
      s: "parseTableRef p2 = Inr (t, p3)" "expectKeyword ''ON'' p3 = Inr p4"
        "parseExpr p4 = Inr (e, p5)"
      and j: "joinLoop (acc @ [\<lparr>jc_rightTable = t, jc_condition = e\<rparr>]) p5 = Inr (js, q)"
      by (auto simp: joinLoop.simps [of acc p] bindE_eq_Inr)
    from s "1.prems"(2)
    have w: "list_all (\<lambda>j. wfTable (jc_rightTable j) \<and> wfExpr (jc_condition j))
        (acc @ [\<lparr>jc_rightTable = t, jc_condition = e\<rparr>])"
      by (simp add: parseTableRef_wf parse_wf(1))
    show ?thesis
      by (rule "1.IH" [OF p1 [symmetric] refl p2 [symmetric] refl True s(1) refl s(2,3) refl j w])
  next
    case False
    with 1 p1 p2 show ?thesis by (simp add: joinLoop.simps [of acc p])
  qed
qed

section \<open>Properties\<close>

text \<open>C9: printing a statement and parsing the text gives the statement back, for every
  statement whose names are identifiers (optionally qualified), whose operands of comparisons are
  primaries, whose integers are in the range of \<open>int64_t\<close> and whose strings are ASCII without a
  quote.\<close>

theorem parse_stmtToSQL:
  assumes "canonStmt s"
  shows "parse (stmtToSQL s) = Inr s"
  using assms by (rule canonical_roundtrip)

theorem parse_stmtToSQL_witness: "canonStmt sampleStmt \<and> parse (stmtToSQL sampleStmt) = Inr sampleStmt"
  using sampleStmt_canon parse_stmtToSQL [of sampleStmt] by simp

text \<open>C19: every statement that \<open>parse\<close> returns is well formed: its table names
  and aliases are identifiers, its columns are identifiers with at most one qualifier, its
  integers are in the range of \<open>int64_t\<close>, its strings are ASCII, and its limit is -1 (no
  limit) or a number of rows.\<close>

theorem parse_wfStmt:
  assumes "parse sql = Inr s"
  shows "wfStmt s"
proof -
  let ?where = "\<lambda>p5. let (found, p6) = tryKeyword ''WHERE'' (skipWS p5) in
            if found then bindE (parseExpr p6) (\<lambda>(e, p7). Inr (Some e, p7))
            else Inr (None, p6)"
  let ?order = "\<lambda>p8. let (found, p9) = tryKeyword ''ORDER'' (skipWS p8) in
            if found then bindE (expectKeyword ''BY'' p9) parseOrderByList
            else Inr ([], p9)"
  let ?limit = "\<lambda>p10. let (found, p11) = tryKeyword ''LIMIT'' (skipWS p10) in
            if found
            then bindE (consumeInt p11) (\<lambda>(n, p12).
                   if n < 0 then Inl (ParseError ''LIMIT value must be non-negative'')
                   else Inr (n, p12))
            else Inr (- 1, p11)"
  have w: "case w of None \<Rightarrow> True | Some e \<Rightarrow> wfExpr e" if "?where p = Inr (w, q)" for p q w
    using that by (auto split: prod.splits if_splits simp: bindE_eq_Inr parse_wf(1))
  have o: "list_all (\<lambda>c. isQual (ob_columnName c)) cs" if "?order p = Inr (cs, q)" for p q cs
    using that by (auto split: prod.splits if_splits simp: bindE_eq_Inr dest: parseOrderByList_wf)
  have l: "- 1 \<le> n \<and> n \<le> INT64_MAX" if "?limit p = Inr (n, q)" for p q n
    using that by (auto split: prod.splits if_splits simp: bindE_eq_Inr INT64_MAX_def
        dest: consumeInt_range [unfolded INT64_MAX_def])
  from assms obtain p where "parseSelect \<lparr>lx_src = sql, lx_pos = 0\<rparr> = Inr (s, p)"
    by (auto simp: parse_def bindE_eq_Inr Let_def split: if_splits)
  then obtain ps p1 p2 p3 p4 p5 p8 p10 p13 t js w' ob n where r:
    "parseProjectionList p1 = Inr (ps, p2)" "parseTableRef p3 = Inr (t, p4)"
    "joinLoop [] p4 = Inr (js, p5)" "?where p5 = Inr (w', p8)" "?order p8 = Inr (ob, p10)"
    "?limit p10 = Inr (n, p13)"
    and s: "s = \<lparr>st_projections = ps, st_tableName = tr_tableName t, st_tableAlias = tr_alias t,
      st_joins = js, st_whereClause = w', st_orderByColumns = ob, st_limitCount = n\<rparr>"
    unfolding parseSelect_def bindE_eq_Inr split_paired_Ex prod.case sum.inject prod.inject
    by blast
  show ?thesis
    using parseProjectionList_wf [OF r(1)] parseTableRef_wf [OF r(2)] joinLoop_wf [OF r(3)]
      w [OF r(4)] o [OF r(5)] l [OF r(6)]
    by (simp add: wfStmt_def s wfTable_def)
qed

theorem parse_wfStmt_witness: "parse (stmtToSQL sampleStmt) = Inr sampleStmt \<and> wfStmt sampleStmt"
  using canonical_roundtrip [OF sampleStmt_canon] parse_wfStmt [of "stmtToSQL sampleStmt" sampleStmt]
  by simp

text \<open>After a table name, every identifier that is not literally one of
  the six upper-case words of the stop list (and not \<open>AS\<close>) is taken as the alias.  Keywords are
  matched without regard to case everywhere else, so a lower-case \<open>where\<close>, \<open>order\<close>, \<open>limit\<close>,
  \<open>join\<close>, \<open>inner\<close> or \<open>on\<close> after a table name is swallowed as its alias.\<close>

lemma tableRef_takes_alias:
  assumes "isIdent n" "isIdent w" "w \<notin> set aliasStops" "toUpper w \<noteq> ''AS''" "ends r"
  shows "\<exists>q. parseTableRef (lxAt pre (n @ CHR '' '' # w @ r))
               = Inr (\<lparr>tr_tableName = n, tr_alias = w\<rparr>, q) \<and> stands q r"
proof -
  let ?w = "w @ r"
  obtain q1 where q1: "consumeIdent (lxAt pre (n @ CHR '' '' # ?w)) = Inr (n, q1)"
    "stands q1 (CHR '' '' # ?w)"
    using ident_reads [OF stands_at assms(1), of "CHR '' '' # ?w" pre] by auto
  then have "stands (skipWS q1) ?w" by (simp add: stands_space)
  moreover have "toUpper (nextWord ?w) \<noteq> ''AS''"
    using assms by (simp add: nextWord_word isIdent_word)
  ultimately obtain q2 where q2: "tryKeyword ''AS'' (skipWS q1) = (False, q2)" "stands q2 ?w"
    using try_misses by blast
  obtain q3 where "consumeIdent q2 = Inr (w, q3)" "stands q3 r"
    using ident_reads [OF q2(2) assms(2,5)] by blast
  with q1(1) q2(1) assms(3) show ?thesis by (auto simp: parseTableRef_def)
qed

lemma tableRef_takes_alias_example:
  "\<exists>q. parseTableRef (lxAt ''SELECT * FROM '' (''employees'' @ CHR '' '' # ''where'' @ '' id = 5''))
         = Inr (\<lparr>tr_tableName = ''employees'', tr_alias = ''where''\<rparr>, q) \<and> stands q '' id = 5''"
  by (rule tableRef_takes_alias)
    (simp_all add: ends_def isdigit_def isIdent_def identChar_def isalnum_def
      isalpha_def code_def aliasStops_def
      toUpper_def toupper_def)

text \<open>Three texts outside the round trip: INNER alone is taken for a complete statement, a literal beyond
  63 bits overflows, and a printed text literal with a quote in it is not read back.\<close>

lemma inner_without_join:
  "case parse ''SELECT id FROM employees INNER'' of Inl _ \<Rightarrow> False | Inr s \<Rightarrow> st_joins s = []"
  by code_simp

lemma literal_overflows:
  "case parse ''SELECT id FROM employees WHERE id = 9223372036854775808'' of
     Inl (UndefinedBehaviour m) \<Rightarrow> True | _ \<Rightarrow> False"
  by code_simp

lemma quotes_not_doubled:
  "let s = \<lparr>st_projections = [''id''], st_tableName = ''employees'', st_tableAlias = ''employees'', st_joins = [],
     st_whereClause = Some (Comparison Equal (ColumnRef ''name'') (StringLiteral (''O'' @ [quote] @ ''Brien''))),
     st_orderByColumns = [], st_limitCount = - 1\<rparr>
   in case parse (stmtToSQL s) of Inl _ \<Rightarrow> True | Inr s' \<Rightarrow> s' \<noteq> s"
  by code_simp
end
