(* ===== verification/Hega_Lifecycle.thy ===== *)
theory Hega_Lifecycle
  imports Hega_Transport
begin

text \<open>
  The life of the server's transport (\<open>TcpServerTransport\<close> of \<open>include/proto2/transport.h\<close> and
  \<open>transport/transport.cpp\<close>): \<open>serve\<close> runs on one thread while another calls \<open>stop\<close>, as the destructor
  does.  Both are written as the sequence of their system calls and of their accesses to the shared
  members, and interleaved in every order.  The members are plain variables, so two threads race on
  them; the accesses are taken to be sequentially consistent here, the mildest meaning of such a
  program.  The outcome of a system call is part of the action.  \<open>accept\<close> is two actions: the call, which
  fails at once on a descriptor that is closed and waits otherwise, and its return, which is up to the
  environment.  \<open>close\<close> in another thread need not wake a waiting \<open>accept\<close>, which may also still return
  a connection.
\<close>

section \<open>Definitions\<close>

subsection \<open>The state\<close>

text \<open>Where the serving thread is; the socket of a client in service goes with its descriptor.\<close>

datatype ServePC =
    NotServing
  | SocketMade
  | SocketBound
  | SocketListens
  | LoopTest
  | InAccept
  | AcceptWaits
  | AcceptError
  | InClient int Socket
  | ClosingClient int Socket
  | ServeReturned
  | ServeThrew err

text \<open>Where the thread that stops is, between two statements of \<open>stop\<close>.\<close>

datatype StopPC = NotStopping | FlagCleared | ListenerFound | ListenerClosed

text \<open>The members, both threads, the descriptors the process has open, the calls of \<open>close\<close> on a
  descriptor that was not open, the outcomes of \<open>accept\<close> and the sockets as they were left.\<close>

record ServerTransport =
  tp_port :: nat
  tp_listenFd :: int
  tp_running :: bool
  tp_serve :: ServePC
  tp_stop :: StopPC
  tp_open :: "int set"
  tp_badCloses :: nat
  tp_events :: "ServerEvent list"
  tp_served :: "Socket list"

definition newTransport :: "nat \<Rightarrow> ServerTransport" where
  "newTransport port = \<lparr>tp_port = port, tp_listenFd = - 1, tp_running = False, tp_serve = NotServing,
     tp_stop = NotStopping, tp_open = {}, tp_badCloses = 0, tp_events = [], tp_served = []\<rparr>"

definition closeDescriptor :: "int \<Rightarrow> ServerTransport \<Rightarrow> ServerTransport" where
  "closeDescriptor fd t = t\<lparr>tp_open := tp_open t - {fd},
     tp_badCloses := (if fd \<in> tp_open t then tp_badCloses t else Suc (tp_badCloses t))\<rparr>"

subsection \<open>Actions\<close>

datatype Action =
    SocketCall "int option"
  | BindCall bool
  | ListenCall bool
  | SetRunning
  | TestRunning
  | AcceptCall
  | AcceptReturns "(int \<times> Socket) option"
  | TestAgain
  | HandleCall
  | CloseCall
  | StopFlag
  | StopTest
  | StopClose
  | StopReset

text \<open>\<open>serve\<close>, one action at a time; \<open>None\<close> is an action that cannot happen.  A new descriptor is one
  that is not open; \<open>bind\<close> and \<open>listen\<close> succeed on an open descriptor only, and may fail on any.  The result of \<open>setsockopt\<close> is ignored by the code.\<close>

fun serveAct ::
  "Archive \<Rightarrow> (err \<Rightarrow> string) \<Rightarrow> (QueryPackage \<Rightarrow> EncryptedResultBatch list result option) \<Rightarrow>
   Action \<Rightarrow> ServerTransport \<Rightarrow> ServerTransport option" where
  "serveAct ar std h (SocketCall r) t =
     (if tp_serve t \<noteq> NotServing then None
      else case r of
        None \<Rightarrow> Some (t\<lparr>tp_listenFd := - 1, tp_serve := ServeThrew (RuntimeError ''Server: socket failed'')\<rparr>)
      | Some fd \<Rightarrow> if fd < 0 \<or> fd \<in> tp_open t then None
          else Some (t\<lparr>tp_listenFd := fd, tp_open := insert fd (tp_open t), tp_serve := SocketMade\<rparr>))"
| "serveAct ar std h (BindCall ok) t =
     (if tp_serve t \<noteq> SocketMade then None
      else if \<not> ok then Some (t\<lparr>tp_serve := ServeThrew (bindFailed (tp_port t))\<rparr>)
      else if tp_listenFd t \<in> tp_open t then Some (t\<lparr>tp_serve := SocketBound\<rparr>) else None)"
| "serveAct ar std h (ListenCall ok) t =
     (if tp_serve t \<noteq> SocketBound then None
      else if \<not> ok then Some (t\<lparr>tp_serve := ServeThrew (RuntimeError ''Server: listen failed'')\<rparr>)
      else if tp_listenFd t \<in> tp_open t then Some (t\<lparr>tp_serve := SocketListens\<rparr>) else None)"
| "serveAct ar std h SetRunning t =
     (if tp_serve t \<noteq> SocketListens then None else Some (t\<lparr>tp_running := True, tp_serve := LoopTest\<rparr>))"
| "serveAct ar std h TestRunning t =
     (if tp_serve t \<noteq> LoopTest then None
      else Some (t\<lparr>tp_serve := (if tp_running t then InAccept else ServeReturned)\<rparr>))"
| "serveAct ar std h AcceptCall t =
     (if tp_serve t \<noteq> InAccept then None
      else if tp_listenFd t \<in> tp_open t then Some (t\<lparr>tp_serve := AcceptWaits\<rparr>)
      else Some (t\<lparr>tp_serve := AcceptError, tp_events := tp_events t @ [AcceptFailed]\<rparr>))"
| "serveAct ar std h (AcceptReturns r) t =
     (if tp_serve t \<noteq> AcceptWaits then None
      else case r of
        None \<Rightarrow> Some (t\<lparr>tp_serve := AcceptError, tp_events := tp_events t @ [AcceptFailed]\<rparr>)
      | Some (fd, s) \<Rightarrow> if fd < 0 \<or> fd \<in> tp_open t then None
          else Some (t\<lparr>tp_serve := InClient fd s, tp_open := insert fd (tp_open t),
                       tp_events := tp_events t @ [Connected s]\<rparr>))"
| "serveAct ar std h TestAgain t =
     (if tp_serve t \<noteq> AcceptError then None
      else Some (t\<lparr>tp_serve := (if tp_running t then LoopTest else ServeReturned)\<rparr>))"
| "serveAct ar std h HandleCall t =
     (case tp_serve t of
        InClient fd s \<Rightarrow> map_option (\<lambda>s'. t\<lparr>tp_serve := ClosingClient fd s'\<rparr>) (handleClient ar std h s)
      | _ \<Rightarrow> None)"
| "serveAct ar std h CloseCall t =
     (case tp_serve t of
        ClosingClient fd s \<Rightarrow> Some ((closeDescriptor fd t)\<lparr>tp_serve := LoopTest, tp_served := tp_served t @ [closeFd s]\<rparr>)
      | _ \<Rightarrow> None)"
| "serveAct ar std h a t = None"

text \<open>\<open>stop\<close>: as a whole, which is what the destructor does, and one statement at a time.\<close>

definition stopAll :: "ServerTransport \<Rightarrow> ServerTransport" where
  "stopAll t =
     (let t1 = t\<lparr>tp_running := False\<rparr> in
      if 0 \<le> tp_listenFd t1 then (closeDescriptor (tp_listenFd t1) t1)\<lparr>tp_listenFd := - 1\<rparr> else t1)"

definition destroyTransport :: "ServerTransport \<Rightarrow> ServerTransport" where
  "destroyTransport t = stopAll t"

fun stopAct :: "Action \<Rightarrow> ServerTransport \<Rightarrow> ServerTransport option" where
  "stopAct StopFlag t =
     (if tp_stop t \<noteq> NotStopping then None else Some (t\<lparr>tp_running := False, tp_stop := FlagCleared\<rparr>))"
| "stopAct StopTest t =
     (if tp_stop t \<noteq> FlagCleared then None
      else Some (t\<lparr>tp_stop := (if 0 \<le> tp_listenFd t then ListenerFound else NotStopping)\<rparr>))"
| "stopAct StopClose t =
     (if tp_stop t \<noteq> ListenerFound then None
      else Some ((closeDescriptor (tp_listenFd t) t)\<lparr>tp_stop := ListenerClosed\<rparr>))"
| "stopAct StopReset t =
     (if tp_stop t \<noteq> ListenerClosed then None else Some (t\<lparr>tp_listenFd := - 1, tp_stop := NotStopping\<rparr>))"
| "stopAct a t = None"

fun stops :: "Action \<Rightarrow> bool" where
  "stops StopFlag = True" | "stops StopTest = True" | "stops StopClose = True" | "stops StopReset = True"
| "stops a = False"

text \<open>The actions that the serving thread takes of itself: not \<open>stop\<close>, and not the return of an \<open>accept\<close>
  that waits.\<close>

fun own :: "Action \<Rightarrow> bool" where
  "own (AcceptReturns r) = False" | "own a = (\<not> stops a)"

definition act ::
  "Archive \<Rightarrow> (err \<Rightarrow> string) \<Rightarrow> (QueryPackage \<Rightarrow> EncryptedResultBatch list result option) \<Rightarrow>
   Action \<Rightarrow> ServerTransport \<Rightarrow> ServerTransport option" where
  "act ar std h a t = (if stops a then stopAct a t else serveAct ar std h a t)"

fun runActs ::
  "Archive \<Rightarrow> (err \<Rightarrow> string) \<Rightarrow> (QueryPackage \<Rightarrow> EncryptedResultBatch list result option) \<Rightarrow>
   Action list \<Rightarrow> ServerTransport \<Rightarrow> ServerTransport option" where
  "runActs ar std h [] t = Some t"
| "runActs ar std h (a # as) t = Option.bind (act ar std h a t) (runActs ar std h as)"

text \<open>The states of a transport from its construction on, under every interleaving.\<close>

inductive reachable ::
  "Archive \<Rightarrow> (err \<Rightarrow> string) \<Rightarrow> (QueryPackage \<Rightarrow> EncryptedResultBatch list result option) \<Rightarrow> nat \<Rightarrow> ServerTransport \<Rightarrow> bool"
  for ar std h port where
  created: "reachable ar std h port (newTransport port)"
| acted: "reachable ar std h port t \<Longrightarrow> act ar std h a t = Some t' \<Longrightarrow> reachable ar std h port t'"

lemma reachable_runs: "reachable ar std h port t \<Longrightarrow> runActs ar std h as t = Some t' \<Longrightarrow> reachable ar std h port t'"
  by (induction as arbitrary: t) (auto simp: bind_eq_Some_conv intro: acted)

text \<open>The statements of \<open>stop\<close> without interruption are \<open>stop\<close> as a whole.\<close>

lemma stop_uninterrupted:
  assumes "tp_stop t = NotStopping"
  shows "runActs ar std h (StopFlag # StopTest # (if 0 \<le> tp_listenFd t then [StopClose, StopReset] else [])) t = Some (stopAll t)"
  using assms by (simp add: act_def stopAll_def Let_def closeDescriptor_def)

section \<open>Descriptors\<close>

text \<open>The descriptors that the state accounts for: the listener, unless \<open>stop\<close> has just closed it,
  and the one of the client in service.\<close>

definition listener :: "ServerTransport \<Rightarrow> int set" where
  "listener t = (if 0 \<le> tp_listenFd t \<and> tp_stop t \<noteq> ListenerClosed then {tp_listenFd t} else {})"

fun clientFd :: "ServePC \<Rightarrow> int set" where
  "clientFd (InClient fd s) = {fd}"
| "clientFd (ClosingClient fd s) = {fd}"
| "clientFd pc = {}"

definition accounted :: "ServerTransport \<Rightarrow> bool" where
  "accounted t \<longleftrightarrow> tp_open t = listener t \<union> clientFd (tp_serve t) \<and> tp_badCloses t = 0
     \<and> (\<forall>fd\<in>clientFd (tp_serve t). 0 \<le> fd \<and> fd \<notin> listener t)
     \<and> (tp_stop t \<in> {ListenerFound, ListenerClosed} \<longrightarrow> 0 \<le> tp_listenFd t)
     \<and> (tp_serve t = NotServing \<longrightarrow> tp_listenFd t = - 1)"

lemma accounted_new: "accounted (newTransport port)"
  by (simp add: accounted_def newTransport_def listener_def)

lemma listener_simps [simp]:
  "listener (t\<lparr>tp_serve := pc\<rparr>) = listener t" "listener (t\<lparr>tp_running := r\<rparr>) = listener t"
  "listener (t\<lparr>tp_open := fds\<rparr>) = listener t" "listener (t\<lparr>tp_badCloses := n\<rparr>) = listener t"
  "listener (t\<lparr>tp_events := ev\<rparr>) = listener t" "listener (t\<lparr>tp_served := socks\<rparr>) = listener t"
  by (simp_all add: listener_def)

text \<open>The actions that move the serving thread without a descriptor.\<close>

lemma accounted_moves:
  assumes "accounted t" "clientFd pc = clientFd (tp_serve t)" "pc \<noteq> NotServing"
  shows "accounted (t\<lparr>tp_serve := pc\<rparr>)" "accounted (t\<lparr>tp_serve := pc, tp_events := ev\<rparr>)"
    "accounted (t\<lparr>tp_running := r, tp_serve := pc\<rparr>)"
  using assms by (simp_all add: accounted_def)

lemma accounted_opens:
  assumes "accounted t" "clientFd (tp_serve t) = {}" "tp_serve t \<noteq> NotServing" "0 \<le> fd" "fd \<notin> tp_open t"
  shows "accounted (t\<lparr>tp_serve := InClient fd s, tp_open := insert fd (tp_open t), tp_events := ev\<rparr>)"
  using assms by (auto simp: accounted_def)

lemma accounted_closes:
  assumes "accounted t" "tp_serve t = ClosingClient fd s"
  shows "accounted ((closeDescriptor fd t)\<lparr>tp_serve := LoopTest, tp_served := socks\<rparr>)"
proof -
  have "fd \<notin> listener t" using assms by (simp add: accounted_def)
  with assms show ?thesis by (simp add: accounted_def closeDescriptor_def)
qed

lemma accounted_serve:
  assumes "accounted t" "serveAct ar std h a t = Some t'"
  shows "accounted t'"
proof (cases a)
  case (SocketCall r)
  with assms show ?thesis
    by (cases r) (auto simp: accounted_def listener_def split: if_splits)
next
  case AcceptCall
  with assms show ?thesis by (auto split: if_splits intro!: accounted_moves)
next
  case (AcceptReturns r)
  show ?thesis
  proof (cases r)
    case None
    with AcceptReturns assms show ?thesis by (auto split: if_splits intro!: accounted_moves)
  next
    case (Some c)
    with AcceptReturns assms(2) have t: "tp_serve t = AcceptWaits" "0 \<le> fst c" "fst c \<notin> tp_open t"
      "t' = t\<lparr>tp_serve := InClient (fst c) (snd c), tp_open := insert (fst c) (tp_open t),
               tp_events := tp_events t @ [Connected (snd c)]\<rparr>"
      by (auto split: if_splits prod.splits)
    from t(1) have "clientFd (tp_serve t) = {}" "tp_serve t \<noteq> NotServing" by simp_all
    from accounted_opens [OF assms(1) this t(2,3)] show ?thesis unfolding t(4) .
  qed
next
  case HandleCall
  with assms show ?thesis by (cases "tp_serve t") (auto intro!: accounted_moves)
next
  case CloseCall
  with assms show ?thesis by (cases "tp_serve t") (auto intro: accounted_closes)
qed (use assms in \<open>auto split: if_splits intro!: accounted_moves\<close>)

text \<open>What the stopping thread changes.\<close>

lemma stopAct_cases:
  assumes "stopAct a t = Some t'"
  obtains (flag) "tp_stop t = NotStopping" "t' = t\<lparr>tp_running := False, tp_stop := FlagCleared\<rparr>"
  | (found) "tp_stop t = FlagCleared" "0 \<le> tp_listenFd t" "t' = t\<lparr>tp_stop := ListenerFound\<rparr>"
  | (missing) "tp_stop t = FlagCleared" "tp_listenFd t < 0" "t' = t\<lparr>tp_stop := NotStopping\<rparr>"
  | (closed) "tp_stop t = ListenerFound" "t' = (closeDescriptor (tp_listenFd t) t)\<lparr>tp_stop := ListenerClosed\<rparr>"
  | (reset) "tp_stop t = ListenerClosed" "t' = t\<lparr>tp_listenFd := - 1, tp_stop := NotStopping\<rparr>"
  using assms by (cases a) (auto split: if_splits)

lemma accounted_stop:
  assumes acc: "accounted t" and s: "stopAct a t = Some t'"
  shows "accounted t'"
  using s
proof (cases rule: stopAct_cases)
  case flag
  from acc show ?thesis unfolding flag(2) accounted_def using flag(1) by (auto simp: listener_def)
next
  case found
  from acc show ?thesis unfolding found(3) accounted_def using found(1,2) by (auto simp: listener_def)
next
  case missing
  from acc show ?thesis unfolding missing(3) accounted_def using missing(1,2) by (auto simp: listener_def)
next
  case closed
  then have "tp_stop t = ListenerFound" by simp
  with acc have o: "tp_open t = insert (tp_listenFd t) (clientFd (tp_serve t))" "0 \<le> tp_listenFd t"
    by (simp_all add: accounted_def listener_def)
  from acc closed(1) o(2) have n: "tp_listenFd t \<notin> clientFd (tp_serve t)" by (auto simp: accounted_def listener_def)
  let ?t = "closeDescriptor (tp_listenFd t) t"
  have "tp_open ?t = clientFd (tp_serve t)" "tp_badCloses ?t = tp_badCloses t" "tp_serve ?t = tp_serve t"
    "tp_listenFd ?t = tp_listenFd t" using o(1) n by (simp_all add: closeDescriptor_def)
  with acc o(2) show ?thesis unfolding closed(2) accounted_def by (simp add: listener_def)
next
  case reset
  with acc have "tp_open t = clientFd (tp_serve t)" by (simp add: accounted_def listener_def)
  with acc reset(1) show ?thesis unfolding reset(2) accounted_def by (force simp: listener_def)
qed

lemma reachable_accounted: "reachable ar std h port t \<Longrightarrow> accounted t"
  by (induction rule: reachable.induct)
    (auto simp: accounted_new act_def split: if_splits intro: accounted_serve accounted_stop)

section \<open>What is served\<close>

lemma withSocket_foldr [simp]:
  "foldr withSocket xs (Serving ys) = Serving (xs @ ys)" "foldr withSocket xs (Returned ys) = Returned (xs @ ys)"
  by (induction xs) simp_all

lemma serveLoop_append:
  "serveLoop ar std h done1 = Some (Serving socks) \<Longrightarrow>
   serveLoop ar std h (done1 @ evs) = map_option (foldr withSocket socks) (serveLoop ar std h evs)"
proof (induction done1 arbitrary: socks)
  case Nil
  then show ?case by (simp add: option.map_ident)
next
  case (Cons ev done1)
  show ?case
  proof (cases ev)
    case (Connected s)
    with Cons.prems obtain s' r where s': "handleClient ar std h s = Some s'" "serveLoop ar std h done1 = Some r"
      "withSocket (closeFd s') r = Serving socks" by (auto simp: bind_eq_Some_conv)
    then obtain rest where "r = Serving rest" "socks = closeFd s' # rest" by (cases r) auto
    with s' Connected Cons.IH [of rest] show ?thesis by (cases "serveLoop ar std h evs") simp_all
  qed (use Cons in simp_all)
qed

text \<open>The sockets so far are those of the sequential loop over the outcomes of \<open>accept\<close> so far.\<close>

fun served ::
  "Archive \<Rightarrow> (err \<Rightarrow> string) \<Rightarrow> (QueryPackage \<Rightarrow> EncryptedResultBatch list result option) \<Rightarrow> ServePC \<Rightarrow>
   ServerEvent list \<Rightarrow> Socket list \<Rightarrow> bool" where
  "served ar std h (InClient fd s) events socks \<longleftrightarrow>
     (\<exists>before. events = before @ [Connected s] \<and> serveLoop ar std h before = Some (Serving socks))"
| "served ar std h (ClosingClient fd s) events socks \<longleftrightarrow> serveLoop ar std h events = Some (Serving (socks @ [closeFd s]))"
| "served ar std h pc events socks \<longleftrightarrow> serveLoop ar std h events = Some (Serving socks)"

text \<open>Before the loop nothing is accepted, and an exception of \<open>serve\<close> is one of its start.\<close>

fun starting :: "ServePC \<Rightarrow> bool" where
  "starting NotServing = True" | "starting SocketMade = True" | "starting SocketBound = True"
| "starting SocketListens = True" | "starting (ServeThrew e) = True" | "starting pc = False"

definition started ::
  "Archive \<Rightarrow> (err \<Rightarrow> string) \<Rightarrow> (QueryPackage \<Rightarrow> EncryptedResultBatch list result option) \<Rightarrow> nat \<Rightarrow> ServerTransport \<Rightarrow> bool" where
  "started ar std h port t \<longleftrightarrow> (tp_serve t = ServeReturned \<longrightarrow> \<not> tp_running t) \<and> served ar std h (tp_serve t) (tp_events t) (tp_served t)
     \<and> tp_port t = port \<and> (starting (tp_serve t) \<longrightarrow> tp_events t = [])
     \<and> (\<forall>e. tp_serve t = ServeThrew e \<longrightarrow> (\<exists>l. serve ar std h port l [] = Some (Inl e)))"

lemma started_step:
  assumes "started ar std h port t" "serveAct ar std h a t = Some t'"
  shows "started ar std h port t'"
proof (cases a)
  case (SocketCall r)
  have "serve ar std h port \<lparr>lo_socket = False, lo_bind = False, lo_listen = False\<rparr> [] =
      Some (Inl (RuntimeError ''Server: socket failed''))" by (simp add: serve_def)
  then have "\<exists>l. serve ar std h port l [] = Some (Inl (RuntimeError ''Server: socket failed''))" by blast
  with SocketCall assms show ?thesis by (auto simp: started_def split: if_splits option.splits)
next
  case (BindCall ok)
  have "serve ar std h port \<lparr>lo_socket = True, lo_bind = False, lo_listen = False\<rparr> [] = Some (Inl (bindFailed port))"
    by (simp add: serve_def)
  then have "\<exists>l. serve ar std h port l [] = Some (Inl (bindFailed port))" by blast
  with BindCall assms show ?thesis by (auto simp: started_def split: if_splits)
next
  case (ListenCall ok)
  have "serve ar std h port \<lparr>lo_socket = True, lo_bind = True, lo_listen = False\<rparr> [] =
      Some (Inl (RuntimeError ''Server: listen failed''))" by (simp add: serve_def)
  then have "\<exists>l. serve ar std h port l [] = Some (Inl (RuntimeError ''Server: listen failed''))" by blast
  with ListenCall assms show ?thesis by (auto simp: started_def split: if_splits)
next
  case AcceptCall
  with assms show ?thesis by (auto simp: started_def serveLoop_append split: if_splits)
next
  case (AcceptReturns r)
  with assms show ?thesis by (cases r) (auto simp: started_def serveLoop_append split: if_splits)
next
  case HandleCall
  with assms obtain fd c s' before where c: "tp_serve t = InClient fd c" "handleClient ar std h c = Some s'"
    "tp_events t = before @ [Connected c]" "serveLoop ar std h before = Some (Serving (tp_served t))"
    "t' = t\<lparr>tp_serve := ClosingClient fd s'\<rparr>"
    by (cases "tp_serve t") (auto simp: started_def)
  from serveLoop_append [OF c(4), of "[Connected c]"] c(2) have
    "serveLoop ar std h (tp_events t) = Some (Serving (tp_served t @ [closeFd s']))" by (simp add: c(3))
  with assms(1) c(1) show ?thesis by (simp add: c(5) started_def)
next
  case CloseCall
  with assms show ?thesis by (cases "tp_serve t") (auto simp: started_def closeDescriptor_def)
qed (use assms in \<open>auto simp: started_def split: if_splits\<close>)

lemma started_stop:
  assumes "started ar std h port t" "stopAct a t = Some t'"
  shows "started ar std h port t'"
  using assms(2,1) by (cases rule: stopAct_cases) (simp_all add: started_def closeDescriptor_def)

lemma reachable_started: "reachable ar std h port t \<Longrightarrow> started ar std h port t"
proof (induction rule: reachable.induct)
  case created
  show ?case by (simp add: started_def newTransport_def)
next
  case (acted t a t')
  then show ?case by (auto simp: act_def split: if_splits intro: started_step started_stop)
qed

section \<open>Stopping\<close>

fun looping :: "ServePC \<Rightarrow> bool" where
  "looping LoopTest = True" | "looping AcceptError = True" | "looping (ClosingClient fd s) = True"
| "looping (InClient fd s) = True" | "looping InAccept = True" | "looping AcceptWaits = True"
| "looping ServeReturned = True" | "looping pc = False"

text \<open>When a \<open>stop\<close> has cleared \<open>running_\<close> during the loop and is done, the listener is gone.\<close>

definition quiet :: "ServerTransport \<Rightarrow> bool" where
  "quiet t \<longleftrightarrow> (tp_listenFd t = - 1 \<or> 0 \<le> tp_listenFd t)
     \<and> (looping (tp_serve t) \<and> \<not> tp_running t \<and> tp_stop t = NotStopping \<longrightarrow> tp_listenFd t = - 1)"

lemma quiet_serve:
  assumes "quiet t" "serveAct ar std h a t = Some t'"
  shows "quiet t'"
proof (cases a)
  case (AcceptReturns r)
  with assms show ?thesis by (cases r) (auto simp: quiet_def split: if_splits)
next
  case HandleCall
  with assms show ?thesis by (cases "tp_serve t") (auto simp: quiet_def)
next
  case CloseCall
  with assms show ?thesis by (cases "tp_serve t") (auto simp: quiet_def closeDescriptor_def)
qed (use assms in \<open>auto simp: quiet_def split: if_splits option.splits\<close>)

lemma quiet_stop:
  assumes "quiet t" "stopAct a t = Some t'"
  shows "quiet t'"
  using assms(2,1) by (cases rule: stopAct_cases) (auto simp: quiet_def closeDescriptor_def)

lemma reachable_quiet: "reachable ar std h port t \<Longrightarrow> quiet t"
proof (induction rule: reachable.induct)
  case created
  show ?case by (simp add: quiet_def newTransport_def)
next
  case (acted t a t')
  then show ?case by (auto simp: act_def split: if_splits intro: quiet_serve quiet_stop)
qed

text \<open>From then on the serving thread can only finish: how many actions it has left at each place, how
  many clients among them, and how many connections it may still accept.\<close>

fun actsLeft :: "ServePC \<Rightarrow> nat" where
  "actsLeft LoopTest = 1" | "actsLeft AcceptError = 1" | "actsLeft (ClosingClient fd s) = 2"
| "actsLeft (InClient fd s) = 3" | "actsLeft InAccept = 2" | "actsLeft AcceptWaits = 4" | "actsLeft pc = 0"

fun clientsLeft :: "ServePC \<Rightarrow> nat" where
  "clientsLeft AcceptWaits = 1" | "clientsLeft (InClient fd s) = 1" | "clientsLeft (ClosingClient fd s) = 1"
| "clientsLeft pc = 0"

definition acceptsLeft :: "ServePC \<Rightarrow> nat" where
  "acceptsLeft pc = of_bool (pc = AcceptWaits)"

fun isConnected :: "ServerEvent \<Rightarrow> bool" where
  "isConnected (Connected s) = True" | "isConnected ev = False"

definition connections :: "ServerTransport \<Rightarrow> nat" where
  "connections t = length (filter isConnected (tp_events t))"

definition halted :: "ServerTransport \<Rightarrow> bool" where
  "halted t \<longleftrightarrow> looping (tp_serve t) \<and> \<not> tp_running t \<and> tp_listenFd t = - 1
     \<and> tp_stop t \<in> {NotStopping, FlagCleared} \<and> accounted t"

definition finishing :: "ServerTransport \<Rightarrow> ServerTransport \<Rightarrow> nat \<Rightarrow> bool" where
  "finishing t t' n \<longleftrightarrow> actsLeft (tp_serve t') + n \<le> actsLeft (tp_serve t)
     \<and> length (tp_served t') + clientsLeft (tp_serve t') \<le> length (tp_served t) + clientsLeft (tp_serve t)
     \<and> acceptsLeft (tp_serve t') \<le> acceptsLeft (tp_serve t)
     \<and> connections t' + acceptsLeft (tp_serve t') \<le> connections t + acceptsLeft (tp_serve t)"

lemma halted_serves:
  assumes halt: "halted t" and step: "serveAct ar std h a t = Some t'"
  shows "halted t' \<and> finishing t t' 1"
proof -
  have acc: "accounted t'" using halt by (intro accounted_serve [OF _ step]) (simp add: halted_def)
  have free: "- 1 \<notin> tp_open t" using halt by (auto simp: halted_def accounted_def listener_def)
  note defs = halted_def finishing_def acceptsLeft_def connections_def
  show ?thesis
  proof (cases a)
    case AcceptCall
    with halt step acc free show ?thesis by (auto simp: defs split: if_splits)
  next
    case (AcceptReturns r)
    with halt step acc show ?thesis by (cases r) (auto simp: defs split: if_splits)
  next
    case HandleCall
    with halt step acc show ?thesis by (cases "tp_serve t") (auto simp: defs)
  next
    case CloseCall
    with halt step acc show ?thesis by (cases "tp_serve t") (auto simp: defs closeDescriptor_def)
  qed (use halt step acc in \<open>auto simp: defs split: if_splits option.splits\<close>)
qed

lemma halted_stops:
  assumes halt: "halted t" and step: "stopAct a t = Some t'"
  shows "halted t' \<and> finishing t t' 0"
proof -
  have "accounted t'" using halt by (intro accounted_stop [OF _ step]) (simp add: halted_def)
  with step halt show ?thesis
    by (cases rule: stopAct_cases) (auto simp: halted_def finishing_def connections_def)
qed

lemma halted_runs:
  "halted t \<Longrightarrow> runActs ar std h as t = Some t' \<Longrightarrow> halted t' \<and> finishing t t' (length (filter (Not \<circ> stops) as))"
proof (induction as arbitrary: t)
  case Nil
  then show ?case by (simp add: finishing_def)
next
  case (Cons a as)
  then obtain t1 where t1: "act ar std h a t = Some t1" "runActs ar std h as t1 = Some t'" by (auto simp: bind_eq_Some_conv)
  have "halted t1 \<and> finishing t t1 (if stops a then 0 else 1)"
    using t1(1) halted_stops [OF Cons.prems(1)] halted_serves [OF Cons.prems(1)] by (simp add: act_def split: if_splits)
  with Cons.IH [OF _ t1(2)] show ?case by (auto simp: finishing_def)
qed

text \<open>The serving thread is never stuck in the loop, other than in a handler that does not return and in
  an \<open>accept\<close> that waits.\<close>

lemma loop_progress:
  assumes "looping (tp_serve t)" "tp_serve t \<notin> {ServeReturned, AcceptWaits}"
    and "\<And>fd s. tp_serve t = InClient fd s \<Longrightarrow> handleClient ar std h s \<noteq> None"
  shows "\<exists>a t'. own a \<and> act ar std h a t = Some t'"
proof (cases "tp_serve t")
  case LoopTest
  then show ?thesis by (intro exI [of _ TestRunning]) (simp add: act_def)
next
  case InAccept
  then show ?thesis by (intro exI [of _ AcceptCall]) (simp add: act_def)
next
  case AcceptError
  then show ?thesis by (intro exI [of _ TestAgain]) (simp add: act_def)
next
  case (InClient fd s)
  with assms(3) obtain s' where "handleClient ar std h s = Some s'" by auto
  with InClient show ?thesis by (intro exI [of _ HandleCall]) (simp add: act_def)
next
  case (ClosingClient fd s)
  then show ?thesis by (intro exI [of _ CloseCall]) (simp add: act_def)
qed (use assms in auto)

lemma stuck_places:
  "tp_serve t \<in> {ServeReturned, AcceptWaits} \<or> (\<exists>fd s. tp_serve t = InClient fd s \<and> handleClient ar std h s = None) \<Longrightarrow>
   own a \<Longrightarrow> act ar std h a t = None"
  by (cases a) (auto simp: act_def)

lemma waiting_accept: "tp_serve t = AcceptWaits \<Longrightarrow> own a \<Longrightarrow> act ar std h a t = None"
  by (rule stuck_places) simp_all

section \<open>A call of \<open>stop\<close> while the server starts\<close>

text \<open>After \<open>listen\<close> and before \<open>running_\<close> is set: the call of \<open>stop\<close> is overwritten.\<close>

definition earlyStop :: "int \<Rightarrow> Action list" where
  "earlyStop fd = [SocketCall (Some fd), BindCall True, ListenCall True, StopFlag, StopTest, StopClose, StopReset]"

definition deaf :: "ServerTransport \<Rightarrow> bool" where
  "deaf t \<longleftrightarrow> tp_listenFd t = - 1 \<and> tp_open t = {} \<and> tp_served t = []
     \<and> (tp_serve t = SocketListens \<or> tp_serve t \<in> {LoopTest, InAccept, AcceptError} \<and> tp_running t)"

lemma deaf_step:
  assumes "deaf t" "serveAct ar std h a t = Some t'"
  shows "deaf t'"
proof (cases a)
  case (AcceptReturns r)
  with assms show ?thesis by (cases r) (auto simp: deaf_def split: if_splits)
next
  case HandleCall
  with assms show ?thesis by (cases "tp_serve t") (auto simp: deaf_def)
next
  case CloseCall
  with assms show ?thesis by (cases "tp_serve t") (auto simp: deaf_def)
qed (use assms in \<open>auto simp: deaf_def split: if_splits option.splits\<close>)

lemma deaf_runs:
  "deaf t \<Longrightarrow> list_all (Not \<circ> stops) as \<Longrightarrow> runActs ar std h as t = Some t' \<Longrightarrow> deaf t'"
  by (induction as arbitrary: t) (auto simp: bind_eq_Some_conv act_def dest: deaf_step)

lemma deaf_moves:
  assumes "deaf t"
  shows "\<exists>a t'. own a \<and> act ar std h a t = Some t'"
proof (cases "tp_serve t = SocketListens")
  case True
  then show ?thesis by (intro exI [of _ SetRunning]) (simp add: act_def)
next
  case False
  with assms have "tp_serve t \<in> {LoopTest, InAccept, AcceptError}" by (simp add: deaf_def)
  then show ?thesis by (intro loop_progress) auto
qed

lemma earlyStop_runs:
  "0 \<le> fd \<Longrightarrow> \<exists>t. runActs ar std h (earlyStop fd) (newTransport port) = Some t \<and> deaf t \<and> tp_stop t = NotStopping"
  by (simp add: earlyStop_def newTransport_def act_def closeDescriptor_def deaf_def)

section \<open>A sample run\<close>

text \<open>One client that hangs up at once, then \<open>stop\<close> before the next \<open>accept\<close>.\<close>

definition sampleActs :: "Action list" where
  "sampleActs = [SocketCall (Some 3), BindCall True, ListenCall True, SetRunning, TestRunning,
     AcceptCall, AcceptReturns (Some (4, slowSocket)), HandleCall, CloseCall, TestRunning, StopFlag]"

definition sampleStop :: "Action list" where
  "sampleStop = [StopTest, StopClose, StopReset]"

lemma slow_hangs_up:
  "\<exists>s'. handleClient ar std h slowSocket = Some s'"
proof -
  have "fst (recvFrame slowSocket) = Inl connectionClosed"
    using recvFrame_short [OF slow_patient(1), of 0 ErrorMsg "[]"] by (auto simp: slowSocket_def frame_def)
  then show ?thesis by (cases "recvFrame slowSocket") (simp add: handleClient_def)
qed

lemma sample_runs:
  "\<exists>t s'. runActs ar std h sampleActs (newTransport port) = Some t \<and> looping (tp_serve t) \<and> \<not> tp_running t
     \<and> tp_serve t = InAccept \<and> tp_events t = [Connected slowSocket] \<and> tp_served t = [s'] \<and> tp_stop t = FlagCleared
     \<and> tp_listenFd t = 3 \<and> tp_open t = {3}"
proof -
  obtain s' where "handleClient ar std h slowSocket = Some s'" using slow_hangs_up by blast
  then show ?thesis
    by (simp add: sampleActs_def newTransport_def act_def closeDescriptor_def)
qed

text \<open>The same \<open>stop\<close>, when \<open>accept\<close> has been called before the listener is closed: nobody wakes it.\<close>

lemma accept_not_woken:
  "\<exists>t. runActs ar std h (sampleActs @ AcceptCall # sampleStop) (newTransport port) = Some t
     \<and> tp_stop t = NotStopping \<and> tp_open t = {} \<and> tp_serve t = AcceptWaits \<and> (\<forall>a. own a \<longrightarrow> act ar std h a t = None)"
proof -
  obtain s' where s': "handleClient ar std h slowSocket = Some s'" using slow_hangs_up by blast
  then obtain t where t: "runActs ar std h (sampleActs @ AcceptCall # sampleStop) (newTransport port) = Some t"
    "tp_stop t = NotStopping" "tp_open t = {}" "tp_serve t = AcceptWaits"
    by (simp add: sampleActs_def sampleStop_def newTransport_def act_def closeDescriptor_def)
  with waiting_accept [OF t(4)] show ?thesis by blast
qed

section \<open>Properties\<close>

text \<open>C22: no descriptor is leaked and none is closed twice, however \<open>serve\<close> and
  \<open>stop\<close> are interleaved.  In every reachable state the open descriptors are the listener, unless
  \<open>stop\<close> has just closed it, and that of the one client in service; every \<open>close\<close> so far was of an open
  one; and once \<open>serve\<close> has ended, in whatever way, and no \<open>stop\<close> is half done, the destructor leaves
  none open.\<close>

theorem descriptors_accounted:
  assumes "reachable ar std h port t"
  shows "tp_open t = listener t \<union> clientFd (tp_serve t) \<and> tp_badCloses t = 0
    \<and> (clientFd (tp_serve t) = {} \<and> tp_stop t = NotStopping \<longrightarrow>
         tp_open (destroyTransport t) = {} \<and> tp_badCloses (destroyTransport t) = 0)"
proof -
  have a: "accounted t" by (rule reachable_accounted [OF assms])
  moreover have "tp_open (destroyTransport t) = {} \<and> tp_badCloses (destroyTransport t) = 0"
    if "clientFd (tp_serve t) = {}" "tp_stop t = NotStopping"
    using a that by (simp add: destroyTransport_def stopAll_def closeDescriptor_def accounted_def listener_def Let_def)
  ultimately show ?thesis by (simp add: accounted_def)
qed

theorem descriptors_accounted_witness:
  "\<exists>t. runActs unaryArchive (\<lambda>_. []) (\<lambda>_. None) sampleActs (newTransport 7777) = Some t
     \<and> tp_open t = listener t \<union> clientFd (tp_serve t) \<and> tp_badCloses t = 0 \<and> tp_served t \<noteq> []"
proof -
  obtain t s' where t: "runActs unaryArchive (\<lambda>_. []) (\<lambda>_. None) sampleActs (newTransport 7777) = Some t" "tp_served t = [s']"
    using sample_runs by blast
  from descriptors_accounted [OF reachable_runs [OF created t(1)]] t show ?thesis by simp
qed

text \<open>C23: under every interleaving the connections are served as the sequential
  \<open>serve\<close> does.  Between two clients, the sockets are those of \<open>serve\<close> on the outcomes of \<open>accept\<close> so far
  in their order, each handled by \<open>handleClient\<close> and closed; it returns only when a \<open>stop\<close> has cleared
  \<open>running_\<close>, as \<open>serve\<close> does on \<open>Stopped\<close>; when it has thrown, the exception is one that \<open>serve\<close> throws
  on this port, and no connection was accepted.\<close>

theorem interleaving_serves:
  assumes "reachable ar std h port t"
  shows "(tp_serve t = ServeReturned \<longrightarrow> \<not> tp_running t
        \<and> serve ar std h port \<lparr>lo_socket = True, lo_bind = True, lo_listen = True\<rparr> (tp_events t @ [Stopped])
           = Some (Inr (Returned (tp_served t))))
    \<and> (tp_serve t \<in> {LoopTest, InAccept, AcceptWaits, AcceptError} \<longrightarrow>
        serve ar std h port \<lparr>lo_socket = True, lo_bind = True, lo_listen = True\<rparr> (tp_events t)
           = Some (Inr (Serving (tp_served t))))
    \<and> (\<forall>e. tp_serve t = ServeThrew e \<longrightarrow> tp_events t = [] \<and> tp_served t = []
        \<and> (\<exists>l. serve ar std h port l (tp_events t) = Some (Inl e)))"
  using reachable_started [OF assms] by (auto simp: started_def serve_def serveLoop_append)

theorem interleaving_serves_witness:
  "\<exists>t. runActs unaryArchive (\<lambda>_. []) (\<lambda>_. None) (sampleActs @ sampleStop @ [AcceptCall, TestAgain]) (newTransport 7777) = Some t
     \<and> serve unaryArchive (\<lambda>_. []) (\<lambda>_. None) 7777 \<lparr>lo_socket = True, lo_bind = True, lo_listen = True\<rparr>
         [Connected slowSocket, AcceptFailed, Stopped] = Some (Inr (Returned (tp_served t)))"
proof -
  obtain s' where "handleClient unaryArchive (\<lambda>_. []) (\<lambda>_. None) slowSocket = Some s'" using slow_hangs_up by blast
  then obtain t where t: "runActs unaryArchive (\<lambda>_. []) (\<lambda>_. None) (sampleActs @ sampleStop @ [AcceptCall, TestAgain]) (newTransport 7777) = Some t"
    "tp_serve t = ServeReturned" "tp_events t = [Connected slowSocket, AcceptFailed]"
    by (simp add: sampleActs_def sampleStop_def newTransport_def act_def closeDescriptor_def)
  from interleaving_serves [OF reachable_runs [OF created t(1)]] t show ?thesis by simp
qed

text \<open>C25: what a call of \<open>stop\<close> during the accept loop achieves once it has completed.  The listener is
  closed: the only open descriptor is that of the client in service.  From then on, whatever the order
  of the threads, \<open>running_\<close> stays false, the serving thread takes at most four more actions and
  finishes at most one more client.  If it was not already waiting in \<open>accept\<close>, it accepts no further
  connection.  It never comes to a halt but by returning, in a handler that does not return, or in an
  \<open>accept\<close> that waited already: that one \<open>stop\<close> does not wake, and the thread can do nothing of itself.\<close>

theorem stop_ends_loop:
  assumes "reachable ar std h port t" "looping (tp_serve t)" "\<not> tp_running t" "tp_stop t = NotStopping"
    and "runActs ar std h as t = Some t'"
  shows "tp_open t = clientFd (tp_serve t) \<and> \<not> tp_running t'
    \<and> length (filter (Not \<circ> stops) as) \<le> 4 \<and> length (tp_served t') \<le> length (tp_served t) + 1
    \<and> (tp_serve t \<noteq> AcceptWaits \<longrightarrow> connections t' \<le> connections t \<and> tp_serve t' \<noteq> AcceptWaits)
    \<and> ((\<forall>a. own a \<longrightarrow> act ar std h a t' = None) \<longleftrightarrow>
         tp_serve t' \<in> {ServeReturned, AcceptWaits} \<or> (\<exists>fd s. tp_serve t' = InClient fd s \<and> handleClient ar std h s = None))"
proof -
  have acc: "accounted t" by (rule reachable_accounted [OF assms(1)])
  have fd: "tp_listenFd t = - 1" using reachable_quiet [OF assms(1)] assms(2-4) by (simp add: quiet_def)
  have "halted t" using assms(2-4) acc fd by (simp add: halted_def)
  from halted_runs [OF this assms(5)] have h: "halted t'" and f: "finishing t t' (length (filter (Not \<circ> stops) as))" by simp_all
  have bound: "actsLeft pc \<le> 4" "clientsLeft pc \<le> 1" for pc by (cases pc; simp)+
  have n: "length (filter (Not \<circ> stops) as) \<le> 4"
    using f bound(1) [of "tp_serve t"] unfolding finishing_def by linarith
  have m: "length (tp_served t') \<le> length (tp_served t) + 1"
    using f bound(2) [of "tp_serve t"] unfolding finishing_def by linarith
  have "connections t' \<le> connections t \<and> tp_serve t' \<noteq> AcceptWaits" if "tp_serve t \<noteq> AcceptWaits"
    using f that by (simp add: finishing_def acceptsLeft_def split: if_splits)
  moreover have "tp_open t = clientFd (tp_serve t)" using acc fd by (simp add: accounted_def listener_def)
  moreover have "(\<forall>a. own a \<longrightarrow> act ar std h a t' = None) \<longleftrightarrow>
      tp_serve t' \<in> {ServeReturned, AcceptWaits} \<or> (\<exists>fd s. tp_serve t' = InClient fd s \<and> handleClient ar std h s = None)"
    using loop_progress [of t' ar std h] stuck_places [of t' ar std h] h unfolding halted_def by (metis option.distinct(1))
  ultimately show ?thesis using n m h unfolding halted_def by blast
qed

theorem stop_ends_loop_witness:
  "\<exists>t t'. runActs unaryArchive (\<lambda>_. []) (\<lambda>_. None) (sampleActs @ sampleStop) (newTransport 7777) = Some t
     \<and> runActs unaryArchive (\<lambda>_. []) (\<lambda>_. None) [AcceptCall, TestAgain] t = Some t' \<and> tp_open t = {}
     \<and> connections t' \<le> connections t \<and> (\<forall>a. own a \<longrightarrow> act unaryArchive (\<lambda>_. []) (\<lambda>_. None) a t' = None)"
proof -
  obtain s' where s': "handleClient unaryArchive (\<lambda>_. []) (\<lambda>_. None) slowSocket = Some s'" using slow_hangs_up by blast
  then obtain t where t: "runActs unaryArchive (\<lambda>_. []) (\<lambda>_. None) (sampleActs @ sampleStop) (newTransport 7777) = Some t"
    "tp_serve t = InAccept" "\<not> tp_running t" "tp_stop t = NotStopping"
    "\<exists>t'. runActs unaryArchive (\<lambda>_. []) (\<lambda>_. None) [AcceptCall, TestAgain] t = Some t' \<and> tp_serve t' = ServeReturned"
    by (simp add: sampleActs_def sampleStop_def newTransport_def act_def closeDescriptor_def)
  then obtain t' where t': "runActs unaryArchive (\<lambda>_. []) (\<lambda>_. None) [AcceptCall, TestAgain] t = Some t'" "tp_serve t' = ServeReturned"
    by blast
  have "looping (tp_serve t)" using t(2) by simp
  from stop_ends_loop [OF reachable_runs [OF created t(1)] this t(3,4) t'(1)] t(1,2) t' show ?thesis
    by (intro exI [of _ t] exI [of _ t']) simp
qed

text \<open>C26: a call of \<open>stop\<close> that comes while the server starts, after \<open>listen\<close> and before
  \<open>running_\<close> is set, is lost.  It completes and closes the listener, and after it the serving thread
  never returns and never serves: whatever it does, it can go on of itself, on a descriptor that is closed.\<close>

theorem early_stop_lost:
  assumes "0 \<le> fd"
  shows "\<exists>t. runActs ar std h (earlyStop fd) (newTransport port) = Some t \<and> tp_stop t = NotStopping
    \<and> (\<forall>as t'. list_all (Not \<circ> stops) as \<and> runActs ar std h as t = Some t' \<longrightarrow>
         tp_serve t' \<noteq> ServeReturned \<and> (\<forall>e. tp_serve t' \<noteq> ServeThrew e) \<and> tp_served t' = [] \<and> tp_open t' = {}
         \<and> (\<exists>a t2. own a \<and> act ar std h a t' = Some t2))"
proof -
  obtain t where t: "runActs ar std h (earlyStop fd) (newTransport port) = Some t" "deaf t" "tp_stop t = NotStopping"
    using earlyStop_runs [OF assms] by blast
  have "deaf t'" if "list_all (Not \<circ> stops) as" "runActs ar std h as t = Some t'" for as t'
    using deaf_runs [OF t(2) that] .
  with t(1,3) deaf_moves show ?thesis unfolding deaf_def by (intro exI [of _ t]) force
qed

theorem early_stop_lost_witness:
  "\<exists>t t'. runActs unaryArchive (\<lambda>_. []) (\<lambda>_. None) (earlyStop 3) (newTransport 7777) = Some t
     \<and> runActs unaryArchive (\<lambda>_. []) (\<lambda>_. None) [SetRunning, TestRunning, AcceptCall, TestAgain] t = Some t'
     \<and> tp_serve t' \<noteq> ServeReturned \<and> (\<exists>a t2. own a \<and> act unaryArchive (\<lambda>_. []) (\<lambda>_. None) a t' = Some t2)"
proof -
  let ?as = "[SetRunning, TestRunning, AcceptCall, TestAgain]"
  obtain t where t: "runActs unaryArchive (\<lambda>_. []) (\<lambda>_. None) (earlyStop 3) (newTransport 7777) = Some t"
    "\<And>as t'. list_all (Not \<circ> stops) as \<and> runActs unaryArchive (\<lambda>_. []) (\<lambda>_. None) as t = Some t' \<Longrightarrow>
       tp_serve t' \<noteq> ServeReturned \<and> (\<exists>a t2. own a \<and> act unaryArchive (\<lambda>_. []) (\<lambda>_. None) a t' = Some t2)"
    using early_stop_lost [of 3 unaryArchive "\<lambda>_. []" "\<lambda>_. None" 7777] by auto
  moreover from t(1) obtain t' where "runActs unaryArchive (\<lambda>_. []) (\<lambda>_. None) ?as t = Some t'"
    by (auto simp: earlyStop_def newTransport_def act_def closeDescriptor_def)
  moreover have "list_all (Not \<circ> stops) ?as" by simp
  ultimately show ?thesis by blast
qed

end
