(* ===== verification/Spec2Isabelle.thy ===== *)
theory Spec2Isabelle
  imports Hega_System Hega_Plain Hega_Statements Hega_Lifecycle
begin

text \<open>
  Hega_Proto2 is a SQL client and server over a database that stays encrypted (BFV): the client
  parses, checks and plans a SELECT, encrypts its literals and sends a query package; the server
  validates the package, evaluates the predicate on the encrypted columns and streams result
  batches with an encrypted selection mask back; the client decrypts, sorts, cuts and prints.  This
  library models the C++ code under \<open>src/\<close> and proves that pipeline correct.

  \<^bold>\<open>Theories and code\<close>, in the order of the pipeline.
  \<^item> \<open>Hega_Prelude\<close>: errors (a C++ exception is \<open>Inl e\<close>), loops that may throw, character classes,
    decimal printing, integer ranges.
  \<^item> \<open>Hega_Ast\<close> (\<open>ast.h\<close>, \<open>ast.cpp\<close>): the syntax tree and \<open>toSQL\<close>.
  \<^item> \<open>Hega_Lexer\<close>, \<open>Hega_Parser\<close> (\<open>parser.cpp\<close>): one function per member function of \<open>SQLParser\<close>, over
    the source text and the position.  \<open>Hega_Roundtrip\<close> and \<open>Hega_Statements\<close>: printing a canonical
    statement and parsing it gives the statement back; what the parser returns is well formed.
  \<^item> \<open>Hega_Catalog\<close> (\<open>catalog.h\<close>, \<open>catalog.cpp\<close>): schemas and the store of tables, as an instance of a
    locale of its laws.
  \<^item> \<open>Hega_Semantic\<close> (\<open>semantic.cpp\<close>): \<open>analyze\<close> and a declarative specification it is equivalent to.
  \<^item> \<open>Hega_Planner\<close> (\<open>planner.cpp\<close>): logical and physical planner and the specification of the plan.
  \<^item> \<open>Hega_Package\<close> (\<open>query_package\<close>, \<open>result\<close>): the wire data and its serialization.
  \<^item> \<open>Hega_Crypto\<close> (\<open>crypto_context\<close>): the FHE scheme as a parameter, with its laws.
  \<^item> \<open>Hega_Encryptor\<close> (\<open>query_encryptor.cpp\<close>): the flat predicate array, that it represents the WHERE
    clause, and that literals show in the bytes of the ciphertexts only, not in their declared sizes.
  \<^item> \<open>Hega_Validator\<close> (\<open>query_validator.cpp\<close>): all checks of a package; which packages pass, and that
    a cycle of nodes traps the recursion.  A predicate kind outside the enum (\<open>POther\<close>) passes too,
    and the builder of \<open>Hega_Executor\<close> rejects it.
  \<^item> \<open>Hega_Executor\<close> (\<open>query_executor.cpp\<close>): the expression builder, the scan and the JOIN.
    \<open>Hega_Walk\<close>: the recursions of validator and builder as walks in the graph of child indices, when
    they end and what they cost.  \<open>Hega_Filter\<close>: the mask decrypts to the truth of the clause on every row.
  \<^item> \<open>Hega_Result\<close> (\<open>result_decoder.cpp\<close>): decoding, ORDER BY (a stable sort by integer columns, the
    identity on text columns) and LIMIT.
  \<^item> \<open>Hega_Transport\<close> (\<open>transport.h\<close>, \<open>transport.cpp\<close>): frames over sockets whose reads and writes are
    fragmented at will, the two sides of an exchange, the accept loop, whose state after finitely many
    outcomes of \<open>accept\<close> is \<open>Serving\<close> (back in \<open>accept\<close>) or, after a \<open>stop\<close> only, \<open>Returned\<close>.  \<open>Hega_Lifecycle\<close>: the server's
    transport as two threads, \<open>serve\<close> and \<open>stop\<close>, interleaved one system call or access at a time:
    descriptors, the refinement of the sequential \<open>serve\<close>, what \<open>stop\<close> achieves and what it does not.
    \<open>accept\<close> is a call, which waits on an open listener, and a return by the environment; closing the
    listener does not wake an \<open>accept\<close> that waits.
  \<^item> \<open>Hega_Args\<close>, \<open>Hega_Server\<close> (\<open>server_main.cpp\<close>): the options, the query handler and the program;
    availability and its limit.
  \<^item> \<open>Hega_Console\<close>, \<open>Hega_Client\<close> (\<open>client_main.cpp\<close>, \<open>metrics\<close>): printed output, \<open>executeQuery\<close>, the
    terminal loop, setup and the program.
  \<^item> \<open>Hega_EndToEnd\<close>: the components together, from the text of a query over one table to the printed
    table.  \<open>Hega_Join\<close>: the same for a JOIN of two tables, whose answer is the pairs of rows that agree
    on the ON columns and match the clause.
  \<^item> \<open>Hega_Plain\<close> (\<open>client_main.cpp\<close>, the reference that is disabled in the build): the SELECT evaluated on
    plaintext data; encrypted execution agrees with it.
  \<^item> \<open>Hega_Blind\<close>: two servers with related ciphertexts stay related (a locale, with an instance for
    changed keys and one for erased contents), so the server never decrypts, and what its answers
    show besides ciphertext bytes does not depend on the data.
  \<^item> \<open>Hega_System\<close>: both programs, whole sessions: a refinement of a terminal over the plaintext tables.

  \<^bold>\<open>State and effects.\<close>  State is passed explicitly: \<open>Lexer\<close> (text and position), \<open>EncState\<close> (the
  vectors and the id counter of the encryptor), \<open>Socket\<close>, \<open>Console\<close>.  Every throw is a branch with
  its message.  Undefined behaviour of C++ (signed overflow of a literal, an index out of range) is
  the error \<open>UndefinedBehaviour\<close>.  Indices and ids are 32-bit words as in the code; counts that the
  code casts to 32 bits are cast, so theorems about a package assume fewer than 2^32 nodes and
  literals, and theorems about frames payloads below 2^32 bytes.

  \<^bold>\<open>Termination.\<close>  Parser and transport loops are total functions (measures: the rest of the input,
  the bytes to move).  The two recursions over the indices of a package may not end on a malicious
  package: they are partial functions into \<open>option\<close>, \<open>None\<close> being divergence.  They return
  when no cycle of child indices can be reached from the root, as in the client's packages, whose
  children stand before their parents, and a package without other faults makes the validator
  diverge otherwise.  No fuel is used.

  \<^bold>\<open>Parameters.\<close>  The records \<open>Fhe\<close> (encryption, decryption, ciphertext serialization), \<open>Proto1\<close>
  (storage, expressions and operators of the proto1 library) and \<open>Archive\<close> (cereal's codecs) stand
  for code that is not in the repository.  Their laws are hypotheses of the properties that need
  them: \<open>fhe_wire_law\<close> (a ciphertext is read back with its own size, and with another size within the
  slots as one that decrypts alike), \<open>fhe_size_law\<close> (the size of an encryption is the number of its
  values), \<open>fhe_decrypt_law\<close> (values in [0, 128]), \<open>expr_law\<close> (comparisons and
  connectives on values in range, within the multiplicative depth), \<open>operator_law\<close>, \<open>archive_laws\<close>.
  \<open>plainFhe\<close>, \<open>plainProto1\<close>, \<open>sampleProto1\<close> and \<open>unaryArchive\<close> satisfy them in the witnesses.  The
  file system, the clock, the random draws and the outcomes of system calls are arguments.

  \<^bold>\<open>Not modelled.\<close>  The banners and start-up messages, the benchmark, the tests and generated build
  files.  A peer that makes a read or a write block for ever, SIGPIPE, weak memory and exhaustion of
  memory have no counterpart in the models of sockets and threads.  The end-to-end theorems are about
  statements over one table without qualified names, and over two tables with every column qualified;
  text is compared in queries over one table only.
\<close>

end
